(* ===== verification/Prelude.thy ===== *)
theory Prelude
  imports Complex_Main "HOL-Library.Word" "HOL-Library.Signed_Division" "HOL-Library.AList"
begin

text \<open>
  What the components share: the effects of Go the program relies on.

  \<^item> A panic is a value: a function that can panic returns \<open>panic + 'a\<close>
    (\<open>go\<close>), composed with \<open>bindG\<close>, looped with \<open>foldG\<close>.
  \<^item> A Go map is \<open>('k, 'v) gomap\<close>: \<open>None\<close> is the nil map, \<open>Some\<close> of an
    association list is an allocated one.  Go visits the entries of a map in an
    unspecified order; the model visits them in the order of the list, so a
    statement about all lists is a statement about all orders.  Writing to the
    nil map panics, reading from it finds nothing.
  \<^item> The Go types \<open>int64\<close> and \<open>int32\<close> are machine words read with \<open>sint\<close>.
  \<^item> Strings are lists of bytes; case conversion is the ASCII one.
\<close>

named_theorems go_simps \<open>unfolding rules for the effects shared by the components\<close>
named_theorems nonnil \<open>operations that return an allocated map\<close>

section \<open>Panics as values\<close>

datatype panic =
    IndexOutOfRange
  | NilMapWrite
  | NilDereference
  | DivideByZero
  | TypeAssertion
  | InvalidArgument

type_synonym 'a go = "panic + 'a"

definition bindG :: "'a go \<Rightarrow> ('a \<Rightarrow> 'b go) \<Rightarrow> 'b go" where
  "bindG m f = (case m of Inl p \<Rightarrow> Inl p | Inr a \<Rightarrow> f a)"

fun foldG :: "('a \<Rightarrow> 'b \<Rightarrow> 'b go) \<Rightarrow> 'a list \<Rightarrow> 'b \<Rightarrow> 'b go" where
  "foldG f [] s = Inr s"
| "foldG f (x # xs) s = bindG (f x s) (foldG f xs)"

definition nthG :: "'a list \<Rightarrow> nat \<Rightarrow> 'a go" where
  "nthG xs i = (if i < length xs then Inr (xs ! i) else Inl IndexOutOfRange)"

lemma bindG_Inl [simp]: "bindG (Inl p) f = Inl p"
  by (simp add: bindG_def)

lemma bindG_Inr [simp]: "bindG (Inr a) f = f a"
  by (simp add: bindG_def)

lemma bindG_eq_Inr: "bindG m f = Inr b \<longleftrightarrow> (\<exists>a. m = Inr a \<and> f a = Inr b)"
  by (cases m) auto

lemma bindG_cong [fundef_cong]:
  "m = m' \<Longrightarrow> (\<And>a. m' = Inr a \<Longrightarrow> f a = f' a) \<Longrightarrow> bindG m f = bindG m' f'"
  by (cases m') auto

lemma foldG_append: "foldG f (xs @ ys) s = bindG (foldG f xs s) (foldG f ys)"
proof (induction xs arbitrary: s)
  case Nil
  then show ?case by simp
next
  case (Cons x xs)
  then show ?case by (cases "f x s") simp_all
qed

lemma foldG_invariant:
  assumes "foldG f xs s = Inr t" and "P s"
    and "\<And>x s s'. x \<in> set xs \<Longrightarrow> P s \<Longrightarrow> f x s = Inr s' \<Longrightarrow> P s'"
  shows "P t"
  using assms
proof (induction xs arbitrary: s)
  case Nil
  then show ?case by simp
next
  case (Cons x xs)
  then obtain s' where "f x s = Inr s'" and "foldG f xs s' = Inr t"
    by (auto simp: bindG_eq_Inr)
  moreover have "P s'" using Cons.prems calculation(1) by auto
  ultimately show ?case using Cons.IH Cons.prems(3) by (metis list.set_intros(2))
qed

lemma foldG_trace:
  \<comment> \<open>what each step establishes still holds at the end, if later steps keep it\<close>
  assumes "foldG f xs s = Inr t" and "P s"
    and step: "\<And>x s s'. x \<in> set xs \<Longrightarrow> P s \<Longrightarrow> f x s = Inr s' \<Longrightarrow> P s' \<and> R s s' \<and> Q x s'"
    and refl: "\<And>s. R s s" and trans: "\<And>s s' s''. R s s' \<Longrightarrow> R s' s'' \<Longrightarrow> R s s''"
    and keep: "\<And>x s s'. P s \<Longrightarrow> R s s' \<Longrightarrow> Q x s \<Longrightarrow> Q x s'"
  shows "P t \<and> R s t \<and> (\<forall>x \<in> set xs. Q x t)"
  using assms(1-3)
proof (induction xs arbitrary: s)
  case Nil
  then show ?case by (simp add: refl)
next
  case (Cons x xs)
  then obtain s' where s': "f x s = Inr s'" "foldG f xs s' = Inr t"
    by (auto simp: bindG_eq_Inr)
  have x: "P s' \<and> R s s' \<and> Q x s'"
    by (rule Cons.prems(3)) (use Cons.prems(2) s'(1) in simp_all)
  then have "P t \<and> R s' t \<and> (\<forall>x \<in> set xs. Q x t)"
    by (intro Cons.IH [OF s'(2)] Cons.prems(3)) (use x in auto)
  with x show ?case using keep trans by (metis set_ConsD)
qed

lemma foldG_count:
  assumes "foldG f xs s = Inr t" and "\<And>x s s'. x \<in> set xs \<Longrightarrow> f x s = Inr s' \<Longrightarrow> m s' \<le> m s + (c :: nat)"
  shows "m t \<le> m s + length xs * c"
  using assms
proof (induction xs arbitrary: s)
  case Nil
  then show ?case by simp
next
  case (Cons x xs)
  then obtain s' where s': "f x s = Inr s'" "foldG f xs s' = Inr t" by (auto simp: bindG_eq_Inr)
  have "m t \<le> m s' + length xs * c" by (rule Cons.IH [OF s'(2) Cons.prems(2)]) auto
  moreover have "m s' \<le> m s + c" by (rule Cons.prems(2) [OF _ s'(1)]) simp
  ultimately show ?case by simp
qed

lemma foldG_total:
  assumes "P s"
    and "\<And>x s. x \<in> set xs \<Longrightarrow> P s \<Longrightarrow> \<exists>s'. f x s = Inr s' \<and> P s'"
  shows "\<exists>t. foldG f xs s = Inr t \<and> P t"
  using assms
proof (induction xs arbitrary: s)
  case Nil
  then show ?case by simp
next
  case (Cons x xs)
  then obtain s' where s': "f x s = Inr s'" "P s'" by (meson list.set_intros(1))
  with Cons.IH [of s'] Cons.prems(2) show ?case by simp
qed

lemma foldG_pure: "(\<And>x s. x \<in> set xs \<Longrightarrow> f x s = Inr (g x s)) \<Longrightarrow> foldG f xs s = Inr (fold g xs s)"
  by (induction xs arbitrary: s) auto

lemma nthG_eq_Inr [simp]: "nthG xs i = Inr x \<longleftrightarrow> i < length xs \<and> xs ! i = x"
  by (auto simp: nthG_def)

lemma find_SomeD: "find P xs = Some x \<Longrightarrow> x \<in> set xs \<and> P x"
  by (induction xs) (auto split: if_splits)

lemma count_distinct: "distinct xs \<Longrightarrow> count_list xs n = (if n \<in> set xs then 1 else 0)"
  by (induction xs) (auto simp: count_list_0_iff)

section \<open>Go maps\<close>

type_synonym ('k, 'v) gomap = "('k \<times> 'v) list option"

definition entries :: "('k, 'v) gomap \<Rightarrow> ('k \<times> 'v) list" where
  "entries m = (case m of None \<Rightarrow> [] | Some xs \<Rightarrow> xs)"

definition mkeys :: "('k, 'v) gomap \<Rightarrow> 'k list" where
  "mkeys m = map fst (entries m)"

definition mlookup :: "('k, 'v) gomap \<Rightarrow> 'k \<Rightarrow> 'v option" where
  "mlookup m = map_of (entries m)"

definition mget :: "'v \<Rightarrow> ('k, 'v) gomap \<Rightarrow> 'k \<Rightarrow> 'v" where
  \<comment> \<open>the one-value read \<open>m[k]\<close>: the zero value of the element type where the key is missing\<close>
  "mget z m k = (case mlookup m k of None \<Rightarrow> z | Some v \<Rightarrow> v)"

definition mlen :: "('k, 'v) gomap \<Rightarrow> nat" where
  "mlen m = length (entries m)"

definition mmake :: "('k, 'v) gomap" where
  "mmake = Some []"

fun mput :: "('k, 'v) gomap \<Rightarrow> 'k \<Rightarrow> 'v \<Rightarrow> ('k, 'v) gomap go" where
  "mput None k v = Inl NilMapWrite"
| "mput (Some xs) k v = Inr (Some (AList.update k v xs))"

definition mdelete :: "('k, 'v) gomap \<Rightarrow> 'k \<Rightarrow> ('k, 'v) gomap" where
  "mdelete m k = map_option (AList.delete k) m"

definition wf_map :: "('k, 'v) gomap \<Rightarrow> bool" where
  \<comment> \<open>each key once: what the runtime guarantees of a map\<close>
  "wf_map m \<longleftrightarrow> distinct (mkeys m)"

definition map_deep_equal :: "('v \<Rightarrow> 'v \<Rightarrow> bool) \<Rightarrow> ('k, 'v) gomap \<Rightarrow> ('k, 'v) gomap \<Rightarrow> bool" where
  \<comment> \<open>\<open>reflect.DeepEqual\<close> on two distinct map objects: a nil map is not equal to an empty one\<close>
  "map_deep_equal eq m m' =
     (case (m, m') of
        (None, None) \<Rightarrow> True
      | (Some xs, Some ys) \<Rightarrow>
          length xs = length ys \<and>
          list_all (\<lambda>(k, v). case map_of ys k of None \<Rightarrow> False | Some v' \<Rightarrow> eq v v') xs
      | _ \<Rightarrow> False)"

lemma entries_simps [simp]: "entries None = []" "entries (Some xs) = xs"
  by (simp_all add: entries_def)

lemma mkeys_simps [simp]: "mkeys None = []" "mkeys (Some xs) = map fst xs"
  by (simp_all add: mkeys_def)

lemma mlookup_simps [simp]: "mlookup None k = None" "mlookup (Some xs) k = map_of xs k"
  by (simp_all add: mlookup_def)

lemma mlen_simps [simp]: "mlen None = 0" "mlen (Some xs) = length xs"
  by (simp_all add: mlen_def)

lemma mmake_simps [simp]: "entries mmake = []" "mlen mmake = 0" "mlookup mmake k = None" "wf_map mmake"
    "mmake \<noteq> None"
  by (simp_all add: mmake_def wf_map_def)

lemma mmake_Some [simp]: "\<exists>xs. mmake = Some xs"
  by (simp add: mmake_def)

lemma wf_map_simps [simp]: "wf_map None" "wf_map (Some xs) = distinct (map fst xs)"
  by (simp_all add: wf_map_def)

lemma update_new: "k \<notin> fst ` set xs \<Longrightarrow> AList.update k v xs = xs @ [(k, v)]"
  by (induction xs) auto

lemma fold_update: "distinct (map fst (xs @ kvs)) \<Longrightarrow> fold (\<lambda>(k, v). AList.update k v) kvs xs = xs @ kvs"
proof (induction kvs arbitrary: xs)
  case (Cons kv kvs)
  obtain k v where kv: "kv = (k, v)" by (cases kv)
  have "AList.update k v xs = xs @ [(k, v)]"
    using Cons.prems kv by (intro update_new) auto
  then show ?case using Cons kv by simp
qed simp

lemma mput_nonnil: "m \<noteq> None \<Longrightarrow> \<exists>m'. mput m k v = Inr m'"
  by (cases m) auto

lemma mput_eq_Inr: "mput m k v = Inr m' \<longleftrightarrow> (\<exists>xs. m = Some xs \<and> m' = Some (AList.update k v xs))"
  by (cases m) auto

lemma mlookup_mput: "mput m k v = Inr m' \<Longrightarrow> mlookup m' k' = (if k' = k then Some v else mlookup m k')"
  by (auto simp: mput_eq_Inr update_conv')

lemma wf_map_mput: "mput m k v = Inr m' \<Longrightarrow> wf_map m \<Longrightarrow> wf_map m'"
  by (auto simp: mput_eq_Inr distinct_update)

lemma mput_not_nil: "mput m k v = Inr m' \<Longrightarrow> m' \<noteq> None"
  by (auto simp: mput_eq_Inr)

lemma length_update:
  "length (AList.update k v xs) = (if k \<in> fst ` set xs then length xs else Suc (length xs))"
  by (induction xs) auto

lemma mlen_mput:
  "mput m k v = Inr m' \<Longrightarrow> mlen m' = (if mlookup m k = None then Suc (mlen m) else mlen m)"
  by (auto simp: mput_eq_Inr length_update map_of_eq_None_iff weak_map_of_SomeI dest: map_of_SomeD)
    (metis fst_conv image_eqI map_of_SomeD)

lemma mlookup_mdelete: "mlookup (mdelete m k) k' = (if k' = k then None else mlookup m k')"
  by (cases m) (auto simp: mdelete_def delete_conv')

lemma wf_map_mdelete: "wf_map m \<Longrightarrow> wf_map (mdelete m k)"
  by (cases m) (auto simp: mdelete_def distinct_delete)

lemma mdelete_eq_None [simp]: "mdelete m k = None \<longleftrightarrow> m = None"
  by (simp add: mdelete_def)

lemma mget_Some: "mlookup m k = Some v \<Longrightarrow> mget z m k = v"
  by (simp add: mget_def)

lemma mget_None: "mlookup m k = None \<Longrightarrow> mget z m k = z"
  by (simp add: mget_def)

lemma wf_map_lookup: "wf_map m \<Longrightarrow> mlookup m k = Some v \<longleftrightarrow> (k, v) \<in> set (entries m)"
  by (cases m) (auto simp: map_of_eq_Some_iff)

lemma mlookup_dom: "k \<in> set (mkeys m) \<longleftrightarrow> mlookup m k \<noteq> None"
  by (cases m) (auto simp: map_of_eq_None_iff)

lemma mkeys_mput: "mput m k v = Inr m' \<Longrightarrow> set (mkeys m') = insert k (set (mkeys m))"
  by (auto simp: mlookup_dom mlookup_mput split: if_splits)

lemma mlen_mkeys: "wf_map m \<Longrightarrow> mlen m = card (set (mkeys m))"
  unfolding mlen_def mkeys_def wf_map_def by (metis distinct_card length_map)

lemma mput_entries: "mput m k v = Inr m' \<Longrightarrow> set (entries m') \<subseteq> insert (k, v) (set (entries m))"
proof (cases m)
  case (Some xs)
  have "set (AList.update k v xs) \<subseteq> insert (k, v) (set xs)"
    by (induction xs) auto
  moreover assume "mput m k v = Inr m'"
  ultimately show ?thesis using Some by auto
qed simp

section \<open>Strings\<close>

fun split_on :: "char \<Rightarrow> string \<Rightarrow> string list" where
  \<comment> \<open>\<open>strings.Split\<close> with a separator of one byte\<close>
  "split_on c [] = [[]]"
| "split_on c (x # xs) =
     (if x = c then [] # split_on c xs
      else (case split_on c xs of [] \<Rightarrow> [[x]] | w # ws \<Rightarrow> (x # w) # ws))"

fun join_with :: "char \<Rightarrow> string list \<Rightarrow> string" where
  \<comment> \<open>\<open>strings.Join\<close> with a separator of one byte\<close>
  "join_with c [] = []"
| "join_with c [w] = w"
| "join_with c (w # ws) = w @ c # join_with c ws"

fun has_substring :: "string \<Rightarrow> string \<Rightarrow> bool" where
  \<comment> \<open>\<open>strings.Contains\<close>\<close>
  "has_substring [] sub = (sub = [])"
| "has_substring (x # xs) sub = (take (length sub) (x # xs) = sub \<or> has_substring xs sub)"

definition lower_char :: "char \<Rightarrow> char" where
  "lower_char c =
     (let n = of_char c :: nat in if 65 \<le> n \<and> n \<le> 90 then char_of (n + 32) else c)"

definition to_lower :: "string \<Rightarrow> string" where
  \<comment> \<open>\<open>strings.ToLower\<close> on ASCII\<close>
  "to_lower s = map lower_char s"

definition digit_char :: "nat \<Rightarrow> char" where
  "digit_char d = char_of (48 + d)"

fun nat_digits :: "nat \<Rightarrow> string" where
  "nat_digits n = (if n < 10 then [digit_char n] else nat_digits (n div 10) @ [digit_char (n mod 10)])"

declare nat_digits.simps [simp del]

definition itoa :: "int \<Rightarrow> string" where
  \<comment> \<open>\<open>strconv.Itoa\<close>\<close>
  "itoa i = (if i < 0 then CHR ''-'' # nat_digits (nat (- i)) else nat_digits (nat i))"

definition is_digit :: "char \<Rightarrow> bool" where
  "is_digit c \<longleftrightarrow> (let n = of_char c :: nat in 48 \<le> n \<and> n \<le> 57)"

definition digit_value :: "char \<Rightarrow> nat" where
  "digit_value c = of_char c - 48"

fun digits_value :: "nat \<Rightarrow> string \<Rightarrow> nat" where
  "digits_value acc [] = acc"
| "digits_value acc (c # cs) = digits_value (10 * acc + digit_value c) cs"

definition parse_nat :: "string \<Rightarrow> nat option" where
  "parse_nat s = (if s \<noteq> [] \<and> list_all is_digit s then Some (digits_value 0 s) else None)"

definition in_int64 :: "int \<Rightarrow> bool" where
  "in_int64 i \<longleftrightarrow> - (2 ^ 63) \<le> i \<and> i < 2 ^ 63"

definition atoi :: "string \<Rightarrow> int option" where
  \<comment> \<open>\<open>strconv.Atoi\<close>: an optional sign and digits, an error outside the range of a 64 bit \<open>int\<close>\<close>
  "atoi s =
     (let signed =
        (case s of
           c # cs \<Rightarrow>
             if c = CHR ''-'' then map_option (\<lambda>n. - int n) (parse_nat cs)
             else if c = CHR ''+'' then map_option int (parse_nat cs)
             else map_option int (parse_nat s)
         | [] \<Rightarrow> None)
      in case signed of None \<Rightarrow> None | Some i \<Rightarrow> if in_int64 i then Some i else None)"

lemma split_on_nonempty [simp]: "split_on c s \<noteq> []"
  by (induction s) (auto split: list.splits)

lemma length_split_on: "length (split_on c s) = Suc (count_list s c)"
  by (induction s) (auto split: list.splits)

lemma split_on_no_sep: "c \<notin> set s \<Longrightarrow> split_on c s = [s]"
  by (induction s) auto

lemma split_on_append: "c \<notin> set w \<Longrightarrow> split_on c (w @ c # s) = w # split_on c s"
  by (induction w) auto

lemma split_join: "ws \<noteq> [] \<Longrightarrow> (\<forall>w \<in> set ws. c \<notin> set w) \<Longrightarrow> split_on c (join_with c ws) = ws"
  by (induction c ws rule: join_with.induct) (auto simp: split_on_no_sep split_on_append)

lemma of_digit_char: "d < 10 \<Longrightarrow> (of_char (digit_char d) :: nat) = 48 + d"
  unfolding digit_char_def of_char_of take_bit_eq_mod by (rule mod_less) simp

lemma digit_char_value: "d < 10 \<Longrightarrow> is_digit (digit_char d) \<and> digit_value (digit_char d) = d"
  by (simp add: is_digit_def digit_value_def of_digit_char)

lemma nat_digits_wf: "nat_digits n \<noteq> [] \<and> list_all is_digit (nat_digits n)"
proof (induction n rule: nat_digits.induct)
  case (1 n)
  then show ?case
    by (cases "n < 10") (auto simp: nat_digits.simps [of n] digit_char_value)
qed

lemma digits_value_append: "digits_value acc (xs @ ys) = digits_value (digits_value acc xs) ys"
  by (induction xs arbitrary: acc) auto

lemma digits_value_nat_digits: "digits_value 0 (nat_digits n) = n"
proof (induction n rule: nat_digits.induct)
  case (1 n)
  show ?case
  proof (cases "n < 10")
    case True
    then show ?thesis by (simp add: nat_digits.simps [of n] digit_char_value)
  next
    case False
    with 1 have "digits_value 0 (nat_digits (n div 10)) = n div 10" by simp
    with False show ?thesis
      by (simp add: nat_digits.simps [of n] digits_value_append digit_char_value)
  qed
qed

lemma parse_nat_digits: "parse_nat (nat_digits n) = Some n"
  using nat_digits_wf digits_value_nat_digits by (simp add: parse_nat_def)

lemma is_digit_not_sign: "is_digit c \<Longrightarrow> c \<noteq> CHR ''-'' \<and> c \<noteq> CHR ''+'' \<and> c \<noteq> CHR ''_''"
  by (auto simp: is_digit_def)

lemma atoi_itoa: "in_int64 i \<Longrightarrow> atoi (itoa i) = Some i"
proof (cases "i < 0")
  case True
  then show "in_int64 i \<Longrightarrow> ?thesis" by (simp add: itoa_def atoi_def parse_nat_digits Let_def)
next
  case False
  obtain c cs where c: "nat_digits (nat i) = c # cs" "is_digit c"
    using nat_digits_wf [of "nat i"] by (cases "nat_digits (nat i)") auto
  moreover have "parse_nat (c # cs) = Some (nat i)" using parse_nat_digits c by metis
  ultimately show "in_int64 i \<Longrightarrow> ?thesis"
    using False is_digit_not_sign [OF c(2)] by (simp add: itoa_def atoi_def Let_def)
qed

lemma itoa_no_underscore: "CHR ''_'' \<notin> set (itoa i)"
proof -
  have "CHR ''_'' \<notin> set (nat_digits n)" for n
    using nat_digits_wf [of n] is_digit_not_sign [of "CHR ''_''"] by (auto simp: list_all_iff)
  then show ?thesis by (simp add: itoa_def)
qed

section \<open>Machine integers\<close>

type_synonym int64 = "64 word"
type_synonym int32 = "32 word"

definition less_s :: "'a::len word \<Rightarrow> 'a word \<Rightarrow> bool" where
  "less_s a b \<longleftrightarrow> sint a < sint b"

definition le_s :: "'a::len word \<Rightarrow> 'a word \<Rightarrow> bool" where
  "le_s a b \<longleftrightarrow> sint a \<le> sint b"

definition div_s :: "int64 \<Rightarrow> int64 \<Rightarrow> int64 go" where
  \<comment> \<open>Go's division of two \<open>int64\<close>: truncated, wrapping, a panic on zero\<close>
  "div_s a b = (if b = 0 then Inl DivideByZero else Inr (word_of_int (sint a sdiv sint b)))"

lemma sint_word_of_int:
  "- (2 ^ (LENGTH('a) - 1)) \<le> k \<Longrightarrow> k < 2 ^ (LENGTH('a) - 1) \<Longrightarrow> sint (word_of_int k :: 'a::len word) = k"
  by (simp add: sint_sbintrunc' signed_take_bit_int_eq_self)

lemma sint_add_int:
  fixes r :: "'a::len word"
  assumes "- (2 ^ (LENGTH('a) - 1)) \<le> sint r + n" and "sint r + n < 2 ^ (LENGTH('a) - 1)"
  shows "sint (r + word_of_int n) = sint r + n"
proof -
  have eq: "r + word_of_int n = word_of_int (sint r + n)" by simp
  show ?thesis unfolding eq by (rule sint_word_of_int [OF assms])
qed

lemma ucast_of_int: "ucast (word_of_int n :: int64) = (word_of_int n :: int32)"
  by (rule bit_word_eqI) (simp add: bit_simps)

end
