(* ===== verification/GoFloat.thy ===== *)
theory GoFloat
  imports Prelude
begin

text \<open>
  Go's \<open>float64\<close>: the finite values are exact reals (rounding, overflow to an
  infinity and the sign of zero are not modelled), with the two infinities and
  NaN and the comparisons, arithmetic and conversions of the language on them.
  Conversion to \<open>int64\<close> truncates towards zero; out of range, where the
  language leaves the result to the implementation, it is the amd64 one.
\<close>

datatype float64 = Fin real | PosInf | NegInf | NaN

fun fsgn :: "float64 \<Rightarrow> real" where
  "fsgn (Fin a) = sgn a"
| "fsgn PosInf = 1"
| "fsgn NegInf = -1"
| "fsgn NaN = 0"

definition signed_inf :: "real \<Rightarrow> float64" where
  "signed_inf s = (if s > 0 then PosInf else if s < 0 then NegInf else NaN)"

instantiation float64 :: "{zero, one, plus, uminus, minus, times, inverse, ord}"
begin

definition zero_float64 :: float64 where
  "0 = Fin 0"

definition one_float64 :: float64 where
  "1 = Fin 1"

fun plus_float64 :: "float64 \<Rightarrow> float64 \<Rightarrow> float64" where
  "Fin a + Fin b = Fin (a + b)"
| "NaN + y = NaN"
| "x + NaN = NaN"
| "PosInf + NegInf = NaN"
| "NegInf + PosInf = NaN"
| "PosInf + y = PosInf"
| "x + PosInf = PosInf"
| "NegInf + y = NegInf"
| "x + NegInf = NegInf"

fun uminus_float64 :: "float64 \<Rightarrow> float64" where
  "- Fin a = Fin (- a)"
| "- PosInf = NegInf"
| "- NegInf = PosInf"
| "- NaN = NaN"

definition minus_float64 :: "float64 \<Rightarrow> float64 \<Rightarrow> float64" where
  "x - y = x + (- y :: float64)"

fun times_float64 :: "float64 \<Rightarrow> float64 \<Rightarrow> float64" where
  "Fin a * Fin b = Fin (a * b)"
| "x * y = signed_inf (fsgn x * fsgn y)"

fun divide_float64 :: "float64 \<Rightarrow> float64 \<Rightarrow> float64" where
  "divide_float64 (Fin a) (Fin b) = (if b = 0 then signed_inf a else Fin (a / b))"
| "divide_float64 (Fin a) NaN = NaN"
| "divide_float64 (Fin a) y = Fin 0"
| "divide_float64 x (Fin b) = (if b < 0 then signed_inf (- fsgn x) else signed_inf (fsgn x))"
| "divide_float64 x y = NaN"

definition inverse_float64 :: "float64 \<Rightarrow> float64" where
  "inverse_float64 x = divide (1 :: float64) x"

fun less_float64 :: "float64 \<Rightarrow> float64 \<Rightarrow> bool" where
  "Fin a < Fin b = (a < b)"
| "Fin a < PosInf = True"
| "NegInf < Fin b = True"
| "NegInf < PosInf = True"
| "(x :: float64) < y = False"

fun less_eq_float64 :: "float64 \<Rightarrow> float64 \<Rightarrow> bool" where
  "Fin a \<le> Fin b = (a \<le> b)"
| "NaN \<le> y = False"
| "x \<le> NaN = False"
| "NegInf \<le> y = True"
| "x \<le> PosInf = True"
| "(x :: float64) \<le> y = False"

instance ..

end

lemma float_plus_commute: "x + y = y + (x :: float64)"
  by (cases x; cases y) (simp_all add: add.commute)

lemma float_plus_assoc: "(x + y) + z = x + (y + z :: float64)"
  by (cases x; cases y; cases z) (simp_all add: add.assoc)

lemma float_zero_plus: "0 + x = (x :: float64)"
  unfolding zero_float64_def by (cases x) simp_all

instance float64 :: comm_monoid_add
  by intro_classes (fact float_plus_assoc float_plus_commute float_zero_plus)+

instance float64 :: numeral ..

fun feq :: "float64 \<Rightarrow> float64 \<Rightarrow> bool" where
  \<comment> \<open>Go's \<open>==\<close>: NaN differs from itself\<close>
  "feq NaN y = False"
| "feq x y = (x = y)"

definition is_nan :: "float64 \<Rightarrow> bool" where
  "is_nan x \<longleftrightarrow> x = NaN"

fun fpow2 :: "float64 \<Rightarrow> float64" where
  \<comment> \<open>\<open>math.Pow(x, 2)\<close>\<close>
  "fpow2 (Fin a) = Fin (a ^ 2)"
| "fpow2 NaN = NaN"
| "fpow2 x = PosInf"

fun fsqrt :: "float64 \<Rightarrow> float64" where
  \<comment> \<open>\<open>math.Sqrt\<close>\<close>
  "fsqrt (Fin a) = (if a < 0 then NaN else Fin (sqrt a))"
| "fsqrt PosInf = PosInf"
| "fsqrt x = NaN"

fun fexp :: "float64 \<Rightarrow> float64" where
  \<comment> \<open>\<open>math.Exp\<close>\<close>
  "fexp (Fin a) = Fin (exp a)"
| "fexp PosInf = PosInf"
| "fexp NegInf = Fin 0"
| "fexp NaN = NaN"

fun flog :: "float64 \<Rightarrow> float64" where
  \<comment> \<open>\<open>math.Log\<close>\<close>
  "flog (Fin a) = (if a < 0 then NaN else if a = 0 then NegInf else Fin (ln a))"
| "flog PosInf = PosInf"
| "flog x = NaN"

fun fround :: "float64 \<Rightarrow> float64" where
  \<comment> \<open>\<open>math.Round\<close>: half away from zero\<close>
  "fround (Fin a) = Fin (if a < 0 then - of_int \<lfloor>- a + 1 / 2\<rfloor> else of_int \<lfloor>a + 1 / 2\<rfloor>)"
| "fround x = x"

definition float_of_int64 :: "int64 \<Rightarrow> float64" where
  "float_of_int64 w = Fin (of_int (sint w))"

definition float_of_nat :: "nat \<Rightarrow> float64" where
  \<comment> \<open>\<open>float64(len(x))\<close>\<close>
  "float_of_nat n = Fin (real n)"

definition float_of_int :: "int \<Rightarrow> float64" where
  "float_of_int i = Fin (real_of_int i)"

definition trunc :: "real \<Rightarrow> int" where
  "trunc a = (if a < 0 then - \<lfloor>- a\<rfloor> else \<lfloor>a\<rfloor>)"

fun int64_of_float :: "float64 \<Rightarrow> int64" where
  "int64_of_float (Fin a) = (if in_int64 (trunc a) then word_of_int (trunc a) else word_of_int (- (2 ^ 63)))"
| "int64_of_float x = word_of_int (- (2 ^ 63))"

definition finite_float :: "float64 \<Rightarrow> bool" where
  "finite_float x \<longleftrightarrow> (\<exists>a. x = Fin a)"

section \<open>Rewriting to the reals\<close>

lemma numeral_float64 [simp]: "(numeral k :: float64) = Fin (numeral k)"
  by (induction k) (simp_all only: numeral.simps one_float64_def plus_float64.simps)

lemma float_consts: "(0 :: float64) = Fin 0" "(1 :: float64) = Fin 1"
  by (simp_all add: zero_float64_def one_float64_def)

lemma minus_Fin [simp]: "Fin a - Fin b = Fin (a - b)"
  by (simp add: minus_float64_def)

lemma feq_Fin [simp]: "feq (Fin a) (Fin b) \<longleftrightarrow> a = b"
  by simp

lemma feq_iff: "feq x y \<longleftrightarrow> x = y \<and> x \<noteq> NaN"
  by (cases x) auto

lemma feq_refl: "x \<noteq> NaN \<Longrightarrow> feq x x"
  by (simp add: feq_iff)

lemma feq_trans: "feq x y \<Longrightarrow> feq y z \<Longrightarrow> feq x z"
  by (auto simp: feq_iff)

lemma nan_add [simp]: "x + NaN = NaN" "NaN + x = (NaN :: float64)"
  by (cases x; simp)+

lemma nan_less [simp]: "\<not> (NaN :: float64) < x" "\<not> (x :: float64) < NaN"
  by (cases x; simp)+

lemma nan_le [simp]: "\<not> (NaN :: float64) \<le> x" "\<not> (x :: float64) \<le> NaN"
  by (cases x; simp)+

lemma float_less_irrefl [simp]: "\<not> (x :: float64) < x"
  by (cases x) auto

lemma float_less_trans: "(x :: float64) < y \<Longrightarrow> y < z \<Longrightarrow> x < z"
  by (cases x; cases y; cases z) auto

lemma float_le_trans: "(x :: float64) \<le> y \<Longrightarrow> y \<le> z \<Longrightarrow> x \<le> z"
  by (cases x; cases y; cases z) auto

lemma float_le_refl: "x \<noteq> NaN \<Longrightarrow> (x :: float64) \<le> x"
  by (cases x) auto

lemma float_not_less: "x \<noteq> NaN \<Longrightarrow> y \<noteq> NaN \<Longrightarrow> \<not> x < y \<longleftrightarrow> (y :: float64) \<le> x"
  by (cases x; cases y) auto

lemma float_less_imp_le: "(x :: float64) < y \<Longrightarrow> x \<le> y"
  by (cases x; cases y) auto

lemma float_le_antisym: "(x :: float64) \<le> y \<Longrightarrow> y \<le> x \<Longrightarrow> x = y"
  by (cases x; cases y) auto

lemma finite_float_Fin [simp]: "finite_float (Fin a)"
  by (simp add: finite_float_def)

lemma finite_float_cases: "finite_float x \<Longrightarrow> (\<And>a. x = Fin a \<Longrightarrow> P) \<Longrightarrow> P"
  by (auto simp: finite_float_def)

lemma finite_float_add: "finite_float x \<Longrightarrow> finite_float y \<Longrightarrow> finite_float (x + y)"
  by (auto simp: finite_float_def)

lemma finite_not_nan: "finite_float x \<Longrightarrow> x \<noteq> NaN"
  by (auto simp: finite_float_def)

lemma sum_list_Fin: "sum_list (map (\<lambda>x. Fin (f x)) xs) = Fin (sum_list (map f xs))"
  by (induction xs) (simp_all add: float_consts)

end
