(* ===== verification/Common_Types.thy ===== *)
theory Common_Types
  imports GoFloat "HOL-Library.Multiset"
begin

text \<open>
  \<^verbatim>\<open>pkg/common/types.go\<close>: the profile types and profiles, the intents, the pod
  states and the states the planner searches, with the deep copy and the three
  comparisons defined on states.
\<close>

section \<open>Data\<close>

datatype ProfileType = Obsolete | Latency | Availability | Throughput | Power

definition ProfileTypeFromText :: "string \<Rightarrow> ProfileType" where
  "ProfileTypeFromText text =
     (let t = to_lower text in
      if t = ''latency'' then Latency
      else if t = ''availability'' then Availability
      else if t = ''throughput'' then Throughput
      else if t = ''power'' then Power
      else Obsolete)"

record PodError =
  ErrorKey :: string
  Start :: int      \<comment> \<open>a \<open>time.Time\<close>, as a number of nanoseconds; 0 is the zero time\<close>
  End :: int
  Created :: int

record Profile =
  ProfileKey :: string
  TypeOf :: ProfileType
  Query :: string
  Minimize :: bool
  External :: bool
  Address :: string

record Intent =
  IntentKey :: string
  Priority :: float64
  TargetKey :: string
  TargetKind :: string
  ActivelyManaged :: bool
  Objectives :: "(string, float64) gomap"
  Tolerations :: "(string, float64) gomap"

record PodState =
  PodAvailability :: float64
  NodeName :: string
  Phase :: string   \<comment> \<open>the field \<open>State\<close>\<close>
  QoSClass :: string

record State =
  IntentOf :: Intent
  CurrentPods :: "(string, PodState) gomap"
  CurrentData :: "(string, (string, float64) gomap) gomap"
  Resources :: "(string, int64) gomap"
  Annotations :: "(string, string) gomap"

type_synonym profiles = "(string, Profile) gomap"

definition zero_Profile :: Profile where
  "zero_Profile = \<lparr>ProfileKey = '''', TypeOf = Obsolete, Query = '''', Minimize = False,
     External = False, Address = ''''\<rparr>"

definition zero_PodState :: PodState where
  "zero_PodState = \<lparr>PodAvailability = 0, NodeName = '''', Phase = '''', QoSClass = ''''\<rparr>"

definition zero_Intent :: Intent where
  "zero_Intent = \<lparr>IntentKey = '''', Priority = 0, TargetKey = '''', TargetKind = '''',
     ActivelyManaged = False, Objectives = None, Tolerations = None\<rparr>"

definition zero_State :: State where
  "zero_State = \<lparr>IntentOf = zero_Intent, CurrentPods = None, CurrentData = None,
     Resources = None, Annotations = None\<rparr>"

abbreviation objectives :: "State \<Rightarrow> (string, float64) gomap" where
  "objectives s \<equiv> Objectives (IntentOf s)"

definition profile_of :: "profiles \<Rightarrow> string \<Rightarrow> Profile" where
  \<comment> \<open>the read \<open>profiles[k]\<close>\<close>
  "profile_of profiles k = mget zero_Profile profiles k"

abbreviation type_of :: "profiles \<Rightarrow> string \<Rightarrow> ProfileType" where
  "type_of profiles k \<equiv> TypeOf (profile_of profiles k)"

section \<open>Operations\<close>

definition copy_map :: "('k, 'v) gomap \<Rightarrow> ('k, 'v) gomap" where
  \<comment> \<open>a fresh map filled from the entries of another\<close>
  "copy_map m = Some (entries m)"

definition DeepCopy :: "State \<Rightarrow> State" where
  "DeepCopy one =
     \<lparr>IntentOf =
        \<lparr>IntentKey = IntentKey (IntentOf one),
         Priority = Priority (IntentOf one),
         TargetKey = TargetKey (IntentOf one),
         TargetKind = TargetKind (IntentOf one),
         ActivelyManaged = False,
         Objectives = copy_map (objectives one),
         Tolerations = None\<rparr>,
      CurrentPods = copy_map (CurrentPods one),
      CurrentData = Some (map (\<lambda>(k, m). (k, copy_map m)) (entries (CurrentData one))),
      Resources = (case Resources one of None \<Rightarrow> None | Some _ \<Rightarrow> copy_map (Resources one)),
      Annotations = (case Annotations one of None \<Rightarrow> None | Some _ \<Rightarrow> copy_map (Annotations one))\<rparr>"

definition better_objective :: "profiles \<Rightarrow> State \<Rightarrow> string \<times> float64 \<Rightarrow> bool" where
  \<comment> \<open>the test of one objective in \<open>IsBetter\<close>\<close>
  "better_objective profiles another = (\<lambda>(k, v).
     if Minimize (profile_of profiles k) then v \<le> mget 0 (objectives another) k
     else mget 0 (objectives another) k \<le> v)"

fun IsBetter_loop :: "profiles \<Rightarrow> State \<Rightarrow> (string \<times> float64) list \<Rightarrow> bool \<Rightarrow> bool" where
  "IsBetter_loop profiles another [] res = res"
| "IsBetter_loop profiles another (kv # kvs) res =
     (if better_objective profiles another kv then IsBetter_loop profiles another kvs True else False)"

definition IsBetter :: "State \<Rightarrow> State \<Rightarrow> profiles \<Rightarrow> bool" where
  "IsBetter one another profiles =
     (if mlen (objectives one) \<noteq> mlen (objectives another) then False
      else IsBetter_loop profiles another (entries (objectives one)) False)"

definition squares_sum :: "State \<Rightarrow> State \<Rightarrow> float64" where
  "squares_sum one another =
     fold (\<lambda>(key, val) sum. sum + fpow2 (val - mget 0 (objectives another) key))
       (entries (objectives one)) 0"

definition Distance :: "State \<Rightarrow> State \<Rightarrow> profiles \<Rightarrow> float64" where
  "Distance one another profiles =
     (let sum = squares_sum one another in
      if IsBetter one another profiles \<and> \<not> feq sum 0 then - 1 / fsqrt sum
      else fsqrt sum)"

fun LessResources_loop :: "(string, int64) gomap \<Rightarrow> (string \<times> int64) list \<Rightarrow> bool \<Rightarrow> bool" where
  "LessResources_loop other [] res = res"
| "LessResources_loop other ((k, v) # kvs) res =
     (case mlookup other k of
        None \<Rightarrow> False
      | Some tmp \<Rightarrow> if le_s v tmp then LessResources_loop other kvs True else False)"

definition LessResources :: "State \<Rightarrow> State \<Rightarrow> bool" where
  "LessResources one another =
     LessResources_loop (Resources another) (entries (Resources one)) False"

section \<open>Equality of states\<close>

definition intent_deep_equal :: "Intent \<Rightarrow> Intent \<Rightarrow> bool" where
  "intent_deep_equal a b \<longleftrightarrow>
     IntentKey a = IntentKey b \<and> feq (Priority a) (Priority b) \<and> TargetKey a = TargetKey b \<and>
     TargetKind a = TargetKind b \<and> ActivelyManaged a = ActivelyManaged b \<and>
     map_deep_equal feq (Objectives a) (Objectives b) \<and>
     map_deep_equal feq (Tolerations a) (Tolerations b)"

definition pod_deep_equal :: "PodState \<Rightarrow> PodState \<Rightarrow> bool" where
  "pod_deep_equal a b \<longleftrightarrow>
     feq (PodAvailability a) (PodAvailability b) \<and> NodeName a = NodeName b \<and>
     Phase a = Phase b \<and> QoSClass a = QoSClass b"

definition state_deep_equal :: "State \<Rightarrow> State \<Rightarrow> bool" where
  \<comment> \<open>\<open>reflect.DeepEqual\<close> at type \<open>State\<close>, on maps that are distinct objects\<close>
  "state_deep_equal a b \<longleftrightarrow>
     intent_deep_equal (IntentOf a) (IntentOf b) \<and>
     map_deep_equal pod_deep_equal (CurrentPods a) (CurrentPods b) \<and>
     map_deep_equal (map_deep_equal feq) (CurrentData a) (CurrentData b) \<and>
     map_deep_equal (=) (Resources a) (Resources b) \<and>
     map_deep_equal (=) (Annotations a) (Annotations b)"

section \<open>The deep copy\<close>

lemma copy_map_simps [simp]:
  "entries (copy_map m) = entries m" "mlookup (copy_map m) = mlookup m" "mlen (copy_map m) = mlen m"
  "mget z (copy_map m) k = mget z m k" "copy_map m \<noteq> None" "wf_map (copy_map m) = wf_map m"
  "mkeys (copy_map m) = mkeys m"
  by (simp_all add: copy_map_def mlookup_def mlen_def mget_def wf_map_def mkeys_def)

lemma DeepCopy_fields [simp]:
  "IntentKey (IntentOf (DeepCopy s)) = IntentKey (IntentOf s)"
  "Priority (IntentOf (DeepCopy s)) = Priority (IntentOf s)"
  "TargetKey (IntentOf (DeepCopy s)) = TargetKey (IntentOf s)"
  "TargetKind (IntentOf (DeepCopy s)) = TargetKind (IntentOf s)"
  "ActivelyManaged (IntentOf (DeepCopy s)) = False"
  "Tolerations (IntentOf (DeepCopy s)) = None"
  "objectives (DeepCopy s) = copy_map (objectives s)"
  "CurrentPods (DeepCopy s) = copy_map (CurrentPods s)"
  "mlookup (Resources (DeepCopy s)) = mlookup (Resources s)"
  "mlookup (Annotations (DeepCopy s)) = mlookup (Annotations s)"
  by (simp_all add: DeepCopy_def split: option.splits)

lemma DeepCopy_nil:
  "Resources (DeepCopy s) = None \<longleftrightarrow> Resources s = None"
  "Annotations (DeepCopy s) = None \<longleftrightarrow> Annotations s = None"
  "CurrentData (DeepCopy s) \<noteq> None"
  by (simp_all add: DeepCopy_def split: option.splits)

lemma map_of_map_snd: "map_of (map (\<lambda>(k, v). (k, f v)) xs) k = map_option f (map_of xs k)"
  by (induction xs) auto

lemma DeepCopy_data:
  "mlookup (CurrentData (DeepCopy s)) k = map_option copy_map (mlookup (CurrentData s) k)"
  by (simp add: DeepCopy_def mlookup_def map_of_map_snd)

lemma DeepCopy_Resources_Some: "Resources s = Some xs \<Longrightarrow> Resources (DeepCopy s) = Some xs"
  by (simp add: DeepCopy_def copy_map_def)

lemma DeepCopy_entries [simp]:
  "entries (Resources (DeepCopy s)) = entries (Resources s)"
  "entries (Annotations (DeepCopy s)) = entries (Annotations s)"
  by (simp_all add: DeepCopy_def split: option.splits)

section \<open>Comparing states\<close>

lemma IsBetter_loop_iff:
  "IsBetter_loop ps t kvs res \<longleftrightarrow> (kvs = [] \<and> res \<or> kvs \<noteq> [] \<and> list_all (better_objective ps t) kvs)"
  by (induction ps t kvs res rule: IsBetter_loop.induct) auto

lemma IsBetter_iff:
  "IsBetter one another ps \<longleftrightarrow>
     mlen (objectives one) = mlen (objectives another) \<and> mlen (objectives one) \<noteq> 0 \<and>
     (\<forall>kv \<in> set (entries (objectives one)). better_objective ps another kv)"
  by (auto simp: IsBetter_def IsBetter_loop_iff list_all_iff mlen_def)

lemma LessResources_loop_iff:
  "LessResources_loop other kvs res \<longleftrightarrow>
     (kvs = [] \<and> res \<or> kvs \<noteq> [] \<and> (\<forall>(k, v) \<in> set kvs. \<exists>w. mlookup other k = Some w \<and> le_s v w))"
  by (induction other kvs res rule: LessResources_loop.induct) (auto split: option.splits)

lemma LessResources_iff:
  "LessResources one another \<longleftrightarrow>
     mlen (Resources one) \<noteq> 0 \<and>
     (\<forall>(k, v) \<in> set (entries (Resources one)). \<exists>w. mlookup (Resources another) k = Some w \<and> le_s v w)"
  by (auto simp: LessResources_def LessResources_loop_iff mlen_def)

definition square_terms :: "State \<Rightarrow> (string \<times> float64) list \<Rightarrow> float64 list" where
  "square_terms another kvs = map (\<lambda>(k, v). fpow2 (v - mget 0 (objectives another) k)) kvs"

lemma fold_plus_sum_list:
  fixes f :: "'a \<Rightarrow> float64"
  shows "fold (\<lambda>x s. s + f x) xs s = s + sum_list (map f xs)"
  by (induction xs arbitrary: s) (simp_all add: add.assoc)

lemma squares_sum_alt:
  "squares_sum one another = sum_list (square_terms another (entries (objectives one)))"
  using fold_plus_sum_list [of "\<lambda>(k, v). fpow2 (v - mget 0 (objectives another) k)"
      "entries (objectives one)" 0]
  by (simp add: squares_sum_def square_terms_def split_def)

lemma sum_list_mset_eq: "mset xs = mset ys \<Longrightarrow> sum_list xs = (sum_list ys :: 'a :: comm_monoid_add)"
  by (metis sum_mset_sum_list)

text \<open>
  Two lists of the same entries are one Go map in two iteration orders: neither
  comparison depends on the order.
\<close>

definition same_entries :: "('k, 'v) gomap \<Rightarrow> ('k, 'v) gomap \<Rightarrow> bool" where
  "same_entries m m' \<longleftrightarrow> mset (entries m) = mset (entries m')"

lemma same_entries_mlen: "same_entries m m' \<Longrightarrow> mlen m = mlen m'"
  unfolding same_entries_def mlen_def by (rule mset_eq_length)

lemma same_entries_set: "same_entries m m' \<Longrightarrow> set (entries m) = set (entries m')"
  unfolding same_entries_def by (rule mset_eq_setD)

lemma same_entries_lookup:
  assumes same: "same_entries m m'" and wf: "wf_map m"
  shows "mlookup m = mlookup m'"
proof
  fix k
  have "mset (mkeys m) = mset (mkeys m')"
    using same by (simp add: same_entries_def mkeys_def)
  then have wf': "wf_map m'"
    using wf by (simp add: wf_map_def) (metis mset_eq_imp_distinct_iff)
  have "mlookup m k = Some v \<longleftrightarrow> mlookup m' k = Some v" for v
    using wf_map_lookup [OF wf] wf_map_lookup [OF wf'] same_entries_set [OF same] by metis
  then show "mlookup m k = mlookup m' k" by (metis not_Some_eq)
qed

lemma IsBetter_same_entries:
  assumes "same_entries (objectives a) (objectives a')"
  shows "IsBetter a b ps = IsBetter a' b ps"
  using same_entries_mlen [OF assms] same_entries_set [OF assms] by (simp add: IsBetter_iff)

lemma squares_sum_same_entries:
  "same_entries (objectives a) (objectives a') \<Longrightarrow> squares_sum a b = squares_sum a' b"
  unfolding squares_sum_alt same_entries_def
  by (rule sum_list_mset_eq) (simp add: square_terms_def)

lemma Distance_same_entries:
  "same_entries (objectives a) (objectives a') \<Longrightarrow> Distance a b ps = Distance a' b ps"
  by (simp add: Distance_def squares_sum_same_entries IsBetter_same_entries)

lemma LessResources_same_entries:
  assumes "same_entries (Resources a) (Resources a')"
  shows "LessResources a b = LessResources a' b"
  using same_entries_mlen [OF assms] same_entries_set [OF assms] by (simp add: LessResources_iff)

section \<open>The distance\<close>

definition finite_objectives :: "State \<Rightarrow> bool" where
  "finite_objectives s \<longleftrightarrow> (\<forall>v \<in> snd ` set (entries (objectives s)). finite_float v)"

lemma finite_objectives_get: "finite_objectives s \<Longrightarrow> finite_float (mget 0 (objectives s) k)"
proof (cases "mlookup (objectives s) k")
  case None
  then show ?thesis by (simp add: mget_None zero_float64_def)
next
  case (Some v)
  moreover assume "finite_objectives s"
  moreover have "(k, v) \<in> set (entries (objectives s))"
    using Some by (simp add: mlookup_def map_of_SomeD)
  ultimately show ?thesis by (force simp: mget_Some finite_objectives_def)
qed

definition real_of :: "float64 \<Rightarrow> real" where
  "real_of x = (case x of Fin a \<Rightarrow> a | _ \<Rightarrow> 0)"

lemma real_of_Fin [simp]: "real_of (Fin a) = a"
  by (simp add: real_of_def)

lemma Fin_real_of: "finite_float x \<Longrightarrow> Fin (real_of x) = x"
  by (auto simp: finite_float_def)

definition square_sum_real :: "State \<Rightarrow> State \<Rightarrow> real" where
  \<comment> \<open>the squared Euclidean distance between the objectives of two states\<close>
  "square_sum_real one another =
     (\<Sum>(k, v) \<leftarrow> entries (objectives one). (real_of v - real_of (mget 0 (objectives another) k))\<^sup>2)"

lemma squares_sum_real:
  assumes "finite_objectives a" and "finite_objectives b"
  shows "squares_sum a b = Fin (square_sum_real a b)"
proof -
  have "square_terms b (entries (objectives a)) =
      map (\<lambda>(k, v). Fin ((real_of v - real_of (mget 0 (objectives b) k))\<^sup>2)) (entries (objectives a))"
    unfolding square_terms_def
  proof (rule map_cong [OF refl], clarify)
    fix k v
    assume "(k, v) \<in> set (entries (objectives a))"
    with assms(1) have "finite_float v" by (force simp: finite_objectives_def)
    moreover have "finite_float (mget 0 (objectives b) k)"
      by (rule finite_objectives_get [OF assms(2)])
    ultimately show "fpow2 (v - mget 0 (objectives b) k) =
        Fin ((real_of v - real_of (mget 0 (objectives b) k))\<^sup>2)"
      by (auto simp: finite_float_def)
  qed
  then show ?thesis
    by (simp add: squares_sum_alt square_sum_real_def split_def sum_list_Fin)
qed

lemma square_sum_real_nonneg: "0 \<le> square_sum_real a b"
  unfolding square_sum_real_def by (rule sum_list_nonneg) auto

lemma Distance_real:
  assumes "finite_objectives a" and "finite_objectives b"
  shows "Distance a b ps =
     (let d = sqrt (square_sum_real a b) in
      if IsBetter a b ps \<and> d \<noteq> 0 then Fin (- 1 / d) else Fin d)"
  using square_sum_real_nonneg [of a b]
  by (auto simp: Distance_def squares_sum_real [OF assms] Let_def float_consts)

lemma Distance_finite:
  "finite_objectives a \<Longrightarrow> finite_objectives b \<Longrightarrow> finite_float (Distance a b ps)"
  by (simp add: Distance_real Let_def)

section \<open>Deep equality\<close>

definition no_nan_map :: "('k, float64) gomap \<Rightarrow> bool" where
  "no_nan_map m \<longleftrightarrow> NaN \<notin> snd ` set (entries m)"

lemma map_deep_equal_refl:
  "wf_map m \<Longrightarrow> (\<And>v. v \<in> snd ` set (entries m) \<Longrightarrow> eq v v) \<Longrightarrow> map_deep_equal eq m m"
proof (cases m)
  case None
  then show ?thesis by (simp add: map_deep_equal_def)
next
  case (Some xs)
  assume wf: "wf_map m" and eq: "\<And>v. v \<in> snd ` set (entries m) \<Longrightarrow> eq v v"
  have "case map_of xs k of None \<Rightarrow> False | Some v' \<Rightarrow> eq v v'" if "(k, v) \<in> set xs" for k v
    using that wf eq [of v] Some by (force simp: map_of_is_SomeI)
  with Some show ?thesis by (simp add: map_deep_equal_def list_all_iff split_beta)
qed

lemma map_deep_equal_lookup:
  assumes "map_deep_equal eq m m'" and "mlookup m k = Some v"
  shows "\<exists>v'. mlookup m' k = Some v' \<and> eq v v'"
proof -
  from assms obtain xs ys where "m = Some xs" "m' = Some ys"
    by (cases m; cases m') (auto simp: map_deep_equal_def)
  moreover from this assms(2) have "(k, v) \<in> set xs" by (simp add: map_of_SomeD)
  ultimately show ?thesis using assms(1)
    by (fastforce simp: map_deep_equal_def list_all_iff split: option.splits)
qed

lemma map_deep_equal_mlen: "map_deep_equal eq m m' \<Longrightarrow> mlen m = mlen m'"
  by (cases m; cases m') (auto simp: map_deep_equal_def)

section \<open>The properties of states\<close>


definition sample_state :: "(string \<times> float64) list \<Rightarrow> State" where
  "sample_state kvs = zero_State\<lparr>IntentOf := zero_Intent\<lparr>Objectives := Some kvs\<rparr>\<rparr>"


text \<open>
  C11. \<open>IsBetter\<close> is the conjunction over all objectives: the two states have the same number of
  objectives, at least one, and each objective of the first is at most (for a minimised profile) or at
  least (otherwise) the other's, where a missing objective counts as 0.
\<close>
theorem IsBetter_meaning:
  "IsBetter one another ps \<longleftrightarrow>
     mlen (objectives one) = mlen (objectives another) \<and> mlen (objectives one) \<noteq> 0 \<and>
     (\<forall>(k, v) \<in> set (entries (objectives one)).
        if Minimize (profile_of ps k) then v \<le> mget 0 (objectives another) k
        else mget 0 (objectives another) k \<le> v)"
  by (simp add: IsBetter_iff better_objective_def)

theorem IsBetter_meaning_witness:
  "IsBetter (sample_state [(''rps'', 4)]) (sample_state [(''rps'', 3)]) None"
  unfolding IsBetter_meaning
  by (simp add: sample_state_def profile_of_def zero_Profile_def mget_def)

text \<open>
  The distance to a goal is the Euclidean distance of the objectives, replaced by a negative number
  exactly when the state is better than the goal and differs from it.
\<close>
theorem Distance_meaning:
  assumes "finite_objectives a" and "finite_objectives b"
  shows "Distance a b ps =
      (let d = sqrt (square_sum_real a b) in
       if IsBetter a b ps \<and> d \<noteq> 0 then Fin (- 1 / d) else Fin d) \<and>
    (Distance a b ps < 0 \<longleftrightarrow> IsBetter a b ps \<and> square_sum_real a b \<noteq> 0)"
proof
  show d: "Distance a b ps =
      (let d = sqrt (square_sum_real a b) in
       if IsBetter a b ps \<and> d \<noteq> 0 then Fin (- 1 / d) else Fin d)"
    by (rule Distance_real [OF assms])
  show "Distance a b ps < 0 \<longleftrightarrow> IsBetter a b ps \<and> square_sum_real a b \<noteq> 0"
    using square_sum_real_nonneg [of a b] unfolding d Let_def
    by (auto simp: float_consts divide_less_0_iff less_le)
qed

theorem Distance_meaning_witness:
  "Distance (sample_state [(''p99'', 1)]) (sample_state [(''p99'', 3)])
     (Some [(''p99'', zero_Profile\<lparr>Minimize := True\<rparr>)]) < 0"
proof -
  have "finite_objectives (sample_state [(''p99'', 1)])" "finite_objectives (sample_state [(''p99'', 3)])"
    by (simp_all add: finite_objectives_def sample_state_def float_consts)
  from Distance_meaning [OF this] show ?thesis
    by (simp add: IsBetter_def better_objective_def sample_state_def profile_of_def mget_def
        square_sum_real_def float_consts)
qed

text \<open>
  A deep copy keeps the objectives, pods, data, resources and annotations of a state (a nil map of
  resources or annotations stays nil, the other maps become allocated), so every comparison sees the
  same state; it loses the tolerations and the mark of an actively managed intent.
\<close>
theorem DeepCopy_keeps:
  "mlookup (objectives (DeepCopy s)) = mlookup (objectives s) \<and>
   mlookup (CurrentPods (DeepCopy s)) = mlookup (CurrentPods s) \<and>
   (\<forall>k. map_option mlookup (mlookup (CurrentData (DeepCopy s)) k) = map_option mlookup (mlookup (CurrentData s) k)) \<and>
   mlookup (Resources (DeepCopy s)) = mlookup (Resources s) \<and> (Resources (DeepCopy s) = None \<longleftrightarrow> Resources s = None) \<and>
   mlookup (Annotations (DeepCopy s)) = mlookup (Annotations s) \<and> (Annotations (DeepCopy s) = None \<longleftrightarrow> Annotations s = None) \<and>
   (\<forall>t ps. IsBetter (DeepCopy s) t ps = IsBetter s t ps \<and> Distance (DeepCopy s) t ps = Distance s t ps \<and>
      LessResources (DeepCopy s) t = LessResources s t) \<and>
   Tolerations (IntentOf (DeepCopy s)) = None \<and> \<not> ActivelyManaged (IntentOf (DeepCopy s))"
proof -
  have same: "same_entries (objectives (DeepCopy s)) (objectives s)"
    "same_entries (Resources (DeepCopy s)) (Resources s)"
    by (simp_all add: same_entries_def)
  show ?thesis
    using DeepCopy_nil [of s] IsBetter_same_entries [OF same(1)] Distance_same_entries [OF same(1)]
      LessResources_same_entries [OF same(2)]
    by (simp add: DeepCopy_data option.map_comp comp_def)
qed

end
