(* ===== verification/Priority_Queue.thy ===== *)
theory Priority_Queue
  imports GoFloat "HOL-Library.Multiset"
begin

text \<open>
  \<^verbatim>\<open>pkg/planner/astar/priority_queue.go\<close> and the operations of Go's
  \<open>container/heap\<close> it is used through.  The heap operations are generic in
  \<open>Less\<close> and \<open>Swap\<close>, as the library's are in its interface; the locale
  \<open>heap_interface\<close> states what the library expects of a client's methods and
  proves what it gives back, and the queue's methods interpret it.  The locale
  \<open>min_queue\<close> is the contract the planner relies on.
\<close>

section \<open>container/heap\<close>

function heap_up :: "('q \<Rightarrow> nat \<Rightarrow> nat \<Rightarrow> bool) \<Rightarrow> ('q \<Rightarrow> nat \<Rightarrow> nat \<Rightarrow> 'q) \<Rightarrow> 'q \<Rightarrow> nat \<Rightarrow> 'q" where
  "heap_up lt sw q j =
     (let i = (j - 1) div 2 in
      if i = j \<or> \<not> lt q j i then q else heap_up lt sw (sw q i j) i)"
  by pat_completeness auto
termination
  by (relation "measure (\<lambda>(_, _, _, j). j)") auto

definition down_child :: "('q \<Rightarrow> nat \<Rightarrow> nat \<Rightarrow> bool) \<Rightarrow> 'q \<Rightarrow> nat \<Rightarrow> nat \<Rightarrow> nat" where
  \<comment> \<open>the child of \<open>i\<close> that \<open>down\<close> compares with it\<close>
  "down_child lt q i n =
     (let j1 = 2 * i + 1 in if j1 + 1 < n \<and> lt q (j1 + 1) j1 then j1 + 1 else j1)"

function heap_down ::
  "('q \<Rightarrow> nat \<Rightarrow> nat \<Rightarrow> bool) \<Rightarrow> ('q \<Rightarrow> nat \<Rightarrow> nat \<Rightarrow> 'q) \<Rightarrow> 'q \<Rightarrow> nat \<Rightarrow> nat \<Rightarrow> 'q" where
  "heap_down lt sw q i n =
     (if 2 * i + 1 \<ge> n then q
      else let j = down_child lt q i n in
        if \<not> lt q j i then q else heap_down lt sw (sw q i j) j n)"
  by pat_completeness auto
termination
  by (relation "measure (\<lambda>(_, _, _, i, n). n - i)") (auto simp: down_child_def Let_def)

declare heap_up.simps [simp del] heap_down.simps [simp del]

fun heap_init_loop ::
  "('q \<Rightarrow> nat \<Rightarrow> nat \<Rightarrow> bool) \<Rightarrow> ('q \<Rightarrow> nat \<Rightarrow> nat \<Rightarrow> 'q) \<Rightarrow> nat \<Rightarrow> 'q \<Rightarrow> nat \<Rightarrow> 'q" where
  \<comment> \<open>the loop of \<open>heap.Init\<close>, with \<open>i + 1\<close> for its counter\<close>
  "heap_init_loop lt sw n q 0 = q"
| "heap_init_loop lt sw n q (Suc i) = heap_init_loop lt sw n (heap_down lt sw q i n) i"

section \<open>The queue of the planner\<close>

record 'a Item =
  item_value :: 'a
  priority :: float64
  index :: int

type_synonym 'a PriorityQueue = "'a Item list"

definition Len :: "'a PriorityQueue \<Rightarrow> nat" where
  "Len queue = length queue"

definition Less :: "'a PriorityQueue \<Rightarrow> nat \<Rightarrow> nat \<Rightarrow> bool" where
  "Less queue i j \<longleftrightarrow> priority (queue ! i) < priority (queue ! j)"

definition Swap :: "'a PriorityQueue \<Rightarrow> nat \<Rightarrow> nat \<Rightarrow> 'a PriorityQueue" where
  "Swap queue i j =
     (let queue1 = queue[i := queue ! j, j := queue ! i];
          queue2 = queue1[i := (queue1 ! i)\<lparr>index := int i\<rparr>]
      in queue2[j := (queue2 ! j)\<lparr>index := int j\<rparr>])"

definition Push :: "'a PriorityQueue \<Rightarrow> 'a Item \<Rightarrow> 'a PriorityQueue" where
  "Push queue item = queue @ [item\<lparr>index := int (length queue)\<rparr>]"

definition Pop :: "'a PriorityQueue \<Rightarrow> ('a Item \<times> 'a PriorityQueue) go" where
  "Pop queue =
     (case queue of
        [] \<Rightarrow> Inl IndexOutOfRange
      | _ \<Rightarrow> Inr ((last queue)\<lparr>index := - 1\<rparr>, butlast queue))"

definition heap_init :: "'a PriorityQueue \<Rightarrow> 'a PriorityQueue" where
  "heap_init queue = heap_init_loop Less Swap (Len queue) queue (Len queue div 2)"

definition heap_push :: "'a PriorityQueue \<Rightarrow> 'a Item \<Rightarrow> 'a PriorityQueue" where
  "heap_push queue item = (let q = Push queue item in heap_up Less Swap q (Len q - 1))"

definition heap_pop :: "'a PriorityQueue \<Rightarrow> ('a Item \<times> 'a PriorityQueue) go" where
  "heap_pop queue =
     (if Len queue = 0 then Inl IndexOutOfRange
      else let n = Len queue - 1 in Pop (heap_down Less Swap (Swap queue 0 n) 0 n))"

section \<open>What container/heap gives for an interface that keeps its contract\<close>

definition list_swap :: "'a list \<Rightarrow> nat \<Rightarrow> nat \<Rightarrow> 'a list" where
  "list_swap xs i j = xs[i := xs ! j, j := xs ! i]"

lemma length_list_swap [simp]: "length (list_swap xs i j) = length xs"
  by (simp add: list_swap_def)

lemma mset_list_swap: "i < length xs \<Longrightarrow> j < length xs \<Longrightarrow> mset (list_swap xs i j) = mset xs"
  unfolding list_swap_def by (rule mset_swap)

lemma nth_list_swap:
  "i < length xs \<Longrightarrow> j < length xs \<Longrightarrow> k < length xs \<Longrightarrow>
   list_swap xs i j ! k = (if k = i then xs ! j else if k = j then xs ! i else xs ! k)"
  by (auto simp: list_swap_def nth_list_update)

definition parent :: "nat \<Rightarrow> nat" where
  "parent c = (c - 1) div 2"

lemma parent_less: "0 < c \<Longrightarrow> parent c < c"
  by (auto simp: parent_def)

lemma parent_iff: "0 < c \<Longrightarrow> parent c = i \<longleftrightarrow> c = 2 * i + 1 \<or> c = 2 * i + 2"
  by (auto simp: parent_def)

locale heap_interface =
  fixes lt :: "'q \<Rightarrow> nat \<Rightarrow> nat \<Rightarrow> bool"
    and sw :: "'q \<Rightarrow> nat \<Rightarrow> nat \<Rightarrow> 'q"
    and contents :: "'q \<Rightarrow> 'e list"
    and before :: "'e \<Rightarrow> 'e \<Rightarrow> bool"
    and ordered :: "'e \<Rightarrow> bool"
  assumes lt_contents:
      "i < length (contents q) \<Longrightarrow> j < length (contents q) \<Longrightarrow>
       lt q i j \<longleftrightarrow> before (contents q ! i) (contents q ! j)"
    and sw_contents:
      "i < length (contents q) \<Longrightarrow> j < length (contents q) \<Longrightarrow>
       contents (sw q i j) = list_swap (contents q) i j"
    and before_asym: "ordered x \<Longrightarrow> ordered y \<Longrightarrow> before x y \<Longrightarrow> \<not> before y x"
    and before_negtrans:
      "ordered x \<Longrightarrow> ordered y \<Longrightarrow> ordered z \<Longrightarrow> \<not> before y x \<Longrightarrow> \<not> before z y \<Longrightarrow> \<not> before z x"
begin

definition in_order :: "'q \<Rightarrow> nat \<Rightarrow> nat \<Rightarrow> bool" where
  \<comment> \<open>the entry at \<open>c\<close> does not come before the one at \<open>a\<close>\<close>
  "in_order q c a \<longleftrightarrow> \<not> before (contents q ! c) (contents q ! a)"

definition heap_from :: "nat \<Rightarrow> nat \<Rightarrow> 'q \<Rightarrow> bool" where
  "heap_from k n q \<longleftrightarrow> (\<forall>c < n. 0 < c \<and> k \<le> parent c \<longrightarrow> in_order q c (parent c))"

definition all_ordered :: "'q \<Rightarrow> bool" where
  "all_ordered q \<longleftrightarrow> (\<forall>x \<in> set (contents q). ordered x)"

lemma mset_sw:
  "i < length (contents q) \<Longrightarrow> j < length (contents q) \<Longrightarrow> mset (contents (sw q i j)) = mset (contents q)"
  by (simp add: sw_contents mset_list_swap)

lemma length_sw:
  "i < length (contents q) \<Longrightarrow> j < length (contents q) \<Longrightarrow> length (contents (sw q i j)) = length (contents q)"
  by (simp add: sw_contents)

lemma all_ordered_mset: "mset (contents q) = mset (contents q') \<Longrightarrow> all_ordered q = all_ordered q'"
  unfolding all_ordered_def by (metis mset_eq_setD)

lemma in_order_trans:
  assumes "all_ordered q" and "in_order q c b" and "in_order q b a"
    and "a < length (contents q)" "b < length (contents q)" "c < length (contents q)"
  shows "in_order q c a"
  using assms before_negtrans unfolding in_order_def all_ordered_def by (meson nth_mem)

lemma lt_in_order:
  assumes "all_ordered q" and "lt q a b" and "a < length (contents q)" "b < length (contents q)"
  shows "in_order q b a"
  using assms before_asym lt_contents unfolding in_order_def all_ordered_def by (meson nth_mem)

lemma not_lt_in_order:
  "\<not> lt q a b \<Longrightarrow> a < length (contents q) \<Longrightarrow> b < length (contents q) \<Longrightarrow> in_order q a b"
  by (simp add: in_order_def lt_contents)

lemma in_order_refl: "all_ordered q \<Longrightarrow> a < length (contents q) \<Longrightarrow> in_order q a a"
  unfolding in_order_def all_ordered_def using before_asym by (meson nth_mem)

lemma in_order_sw:
  assumes "i < length (contents q)" "j < length (contents q)"
    and "c < length (contents q)" "a < length (contents q)"
  shows "in_order (sw q i j) c a \<longleftrightarrow>
    in_order q (if c = i then j else if c = j then i else c) (if a = i then j else if a = j then i else a)"
  using assms by (simp add: in_order_def sw_contents nth_list_swap)

lemma up_preserves:
  assumes "\<And>q i j. i < length (contents q) \<Longrightarrow> j < length (contents q) \<Longrightarrow> P q \<Longrightarrow> P (sw q i j)"
    and "j < length (contents q)" and "P q"
  shows "P (heap_up lt sw q j)"
  using assms(2,3)
proof (induction j arbitrary: q rule: less_induct)
  case (less j)
  show ?case
  proof (cases "(j - 1) div 2 = j \<or> \<not> lt q j ((j - 1) div 2)")
    case True
    with less.prems show ?thesis by (subst heap_up.simps) (auto simp: Let_def)
  next
    case False
    then have i: "(j - 1) div 2 < j" by auto
    with less.prems have "P (heap_up lt sw (sw q ((j - 1) div 2) j) ((j - 1) div 2))"
      by (intro less.IH assms(1)) (auto simp: length_sw)
    with False show ?thesis by (subst heap_up.simps) (auto simp: Let_def)
  qed
qed

lemma down_preserves:
  assumes "\<And>q i j. i < length (contents q) \<Longrightarrow> j < length (contents q) \<Longrightarrow> P q \<Longrightarrow> P (sw q i j)"
    and "n \<le> length (contents q)" and "P q"
  shows "P (heap_down lt sw q i n)"
  using assms(2,3)
proof (induction "n - i" arbitrary: q i rule: less_induct)
  case less
  let ?j = "down_child lt q i n"
  show ?case
  proof (cases "n \<le> 2 * i + 1 \<or> \<not> lt q ?j i")
    case True
    with less.prems show ?thesis by (subst heap_down.simps) (auto simp: Let_def)
  next
    case False
    then have j: "?j < n" "i < ?j"
      by (auto simp: down_child_def Let_def)
    with less.prems have "P (heap_down lt sw (sw q i ?j) ?j n)"
      by (intro less.hyps assms(1)) (auto simp: length_sw)
    with False show ?thesis by (subst heap_down.simps) (simp add: Let_def)
  qed
qed

lemma mset_up: "j < length (contents q) \<Longrightarrow> mset (contents (heap_up lt sw q j)) = mset (contents q)"
proof (induction j arbitrary: q rule: less_induct)
  case (less j)
  let ?i = "(j - 1) div 2"
  show ?case
  proof (cases "?i = j \<or> \<not> lt q j ?i")
    case True
    then show ?thesis by (subst heap_up.simps) (auto simp: Let_def)
  next
    case False
    then have i: "?i < j" by auto
    then have "mset (contents (heap_up lt sw (sw q ?i j) ?i)) = mset (contents (sw q ?i j))"
      using less by (auto simp: length_sw)
    also have "\<dots> = mset (contents q)" using less.prems i by (simp add: mset_sw)
    finally show ?thesis using False by (subst heap_up.simps) (auto simp: Let_def)
  qed
qed

lemma down_child_bounds: "2 * i + 1 < n \<Longrightarrow> down_child lt q i n < n \<and> i < down_child lt q i n"
  by (auto simp: down_child_def Let_def)

lemma parent_down_child: "parent (down_child lt q i n) = i"
  by (auto simp: down_child_def Let_def parent_def)

lemma mset_down:
  "n \<le> length (contents q) \<Longrightarrow> mset (contents (heap_down lt sw q i n)) = mset (contents q)"
proof (induction "n - i" arbitrary: q i rule: less_induct)
  case less
  let ?j = "down_child lt q i n"
  show ?case
  proof (cases "n \<le> 2 * i + 1 \<or> \<not> lt q ?j i")
    case True
    then show ?thesis by (subst heap_down.simps) (auto simp: Let_def)
  next
    case False
    then have j: "?j < n" "i < ?j" using down_child_bounds [of i n q] by auto
    then have "mset (contents (heap_down lt sw (sw q i ?j) ?j n)) = mset (contents (sw q i ?j))"
      using less by (intro less.hyps) (auto simp: length_sw)
    also have "\<dots> = mset (contents q)" using less.prems j by (intro mset_sw) auto
    finally show ?thesis using False by (subst heap_down.simps) (simp add: Let_def)
  qed
qed

lemma nth_down:
  "n \<le> length (contents q) \<Longrightarrow> n \<le> k \<Longrightarrow> k < length (contents q) \<Longrightarrow>
   contents (heap_down lt sw q i n) ! k = contents q ! k"
proof (induction "n - i" arbitrary: q i rule: less_induct)
  case less
  let ?j = "down_child lt q i n"
  show ?case
  proof (cases "n \<le> 2 * i + 1 \<or> \<not> lt q ?j i")
    case True
    then show ?thesis by (subst heap_down.simps) (auto simp: Let_def)
  next
    case False
    then have j: "?j < n" "i < ?j" using down_child_bounds [of i n q] by auto
    then have "contents (heap_down lt sw (sw q i ?j) ?j n) ! k = contents (sw q i ?j) ! k"
      using less by (intro less.hyps) (auto simp: length_sw)
    also have "\<dots> = contents q ! k" using less.prems j by (simp add: sw_contents nth_list_swap)
    finally show ?thesis using False by (subst heap_down.simps) (simp add: Let_def)
  qed
qed

lemma down_child_first:
  assumes "2 * i + 1 < n" and "n \<le> length (contents q)" and "all_ordered q"
    and "0 < c" "c < n" "parent c = i"
  shows "in_order q c (down_child lt q i n)"
proof -
  have c: "c = 2 * i + 1 \<or> c = 2 * i + 2" using parent_iff assms(4,6) by blast
  have refl: "in_order q c c" using in_order_refl assms(2,3,5) by auto
  show ?thesis
  proof (cases "2 * i + 1 + 1 < n \<and> lt q (2 * i + 1 + 1) (2 * i + 1)")
    case True
    then have "down_child lt q i n = 2 * i + 2" by (simp add: down_child_def Let_def)
    moreover have "in_order q (2 * i + 1) (2 * i + 2)"
      using True lt_in_order [OF assms(3), of "2 * i + 1 + 1" "2 * i + 1"] assms(1,2) by simp
    ultimately show ?thesis using c refl by auto
  next
    case False
    then have d: "down_child lt q i n = 2 * i + 1" by (auto simp: down_child_def Let_def)
    show ?thesis
    proof (cases "c = 2 * i + 2")
      case True
      with False assms(5) have "\<not> lt q c (2 * i + 1)" by simp
      then have "in_order q c (2 * i + 1)" by (rule not_lt_in_order) (use assms(2,5) True in auto)
      with d show ?thesis by simp
    next
      case False
      with c d refl show ?thesis by simp
    qed
  qed
qed

lemma heap_down_heap:
  assumes "n \<le> length (contents q)" and "all_ordered q" and "k \<le> i" and "i < n"
    and "\<And>c. 0 < c \<Longrightarrow> c < n \<Longrightarrow> k \<le> parent c \<Longrightarrow> parent c \<noteq> i \<Longrightarrow> in_order q c (parent c)"
    and "\<And>c. 0 < c \<Longrightarrow> c < n \<Longrightarrow> parent c = i \<Longrightarrow> 0 < i \<Longrightarrow> k \<le> parent i \<Longrightarrow> in_order q c (parent i)"
  shows "heap_from k n (heap_down lt sw q i n)"
  using assms
proof (induction "n - i" arbitrary: q i rule: less_induct)
  case less
  note inv = less.prems(5) and inv_i = less.prems(6)
  let ?j = "down_child lt q i n"
  show ?case
  proof (cases "n \<le> 2 * i + 1 \<or> \<not> lt q ?j i")
    case True
    have "in_order q c (parent c)" if c: "0 < c" "c < n" "k \<le> parent c" for c
    proof (cases "parent c = i")
      case pc: True
      then have ge: "2 * i + 1 < n" using parent_iff [OF c(1), of i] c(2) by auto
      then have j: "?j < n" "i < ?j" using down_child_bounds by auto
      have "\<not> lt q ?j i" using True ge by simp
      then have "in_order q ?j i" by (rule not_lt_in_order) (use j less.prems(1,4) in auto)
      with down_child_first [OF ge less.prems(1,2) c(1,2) pc] have "in_order q c i"
        by (rule in_order_trans [OF less.prems(2)]) (use j c less.prems(1,4) in auto)
      with pc show ?thesis by simp
    qed (use inv c in auto)
    with True show ?thesis
      by (subst heap_down.simps) (auto simp: Let_def heap_from_def)
  next
    case False
    then have ge: "2 * i + 1 < n" and lt: "lt q ?j i" by auto
    have j: "?j < n" "i < ?j" using down_child_bounds [OF ge] by auto
    have bounds: "i < length (contents q)" "?j < length (contents q)" using j less.prems(1) by auto
    have pj: "parent ?j = i" by (rule parent_down_child)
    have flip: "in_order q i ?j" by (rule lt_in_order [OF less.prems(2) lt]) (use bounds in auto)
    have len: "length (contents (sw q i ?j)) = length (contents q)" by (rule length_sw [OF bounds])
    have "heap_from k n (heap_down lt sw (sw q i ?j) ?j n)"
    proof (rule less.hyps)
      show "n - ?j < n - i" "k \<le> ?j" "?j < n" "n \<le> length (contents (sw q i ?j))"
        using j less.prems(1,3) len by auto
      show "all_ordered (sw q i ?j)"
        using less.prems(2) all_ordered_mset [OF mset_sw [OF bounds]] by simp
    next
      fix c
      assume c: "0 < c" "c < n" "k \<le> parent c" "parent c \<noteq> ?j"
      then have cl: "c < length (contents q)" and pl: "parent c < length (contents q)"
        using less.prems(1) parent_less [OF c(1)] by auto
      have ne: "parent c \<noteq> c" using parent_less [OF c(1)] by simp
      consider "c = ?j" | "c \<noteq> ?j" "parent c = i" | "c = i"
        | "c \<noteq> ?j" "parent c \<noteq> i" "c \<noteq> i" by blast
      then show "in_order (sw q i ?j) c (parent c)"
      proof cases
        case 1
        with flip bounds pj j show ?thesis by (simp add: in_order_sw)
      next
        case 2
        then have "in_order q c ?j" using down_child_first [OF ge less.prems(1,2) c(1,2)] by simp
        with 2 ne bounds cl show ?thesis by (simp add: in_order_sw)
      next
        case 3
        with inv_i [of ?j] c j pj ne bounds pl show ?thesis by (simp add: in_order_sw)
      next
        case 4
        with inv [of c] c bounds cl pl show ?thesis by (simp add: in_order_sw)
      qed
    next
      fix c
      assume c: "0 < c" "c < n" "parent c = ?j" "0 < ?j" "k \<le> parent ?j"
      then have cl: "c < length (contents q)" using less.prems(1) by simp
      have gt: "?j < c" using parent_less [OF c(1)] c(3) by simp
      have "in_order q c ?j" using inv [of c] c j less.prems(3) by auto
      with gt j bounds cl pj show "in_order (sw q i ?j) c (parent ?j)"
        by (simp add: in_order_sw)
    qed
    with False show ?thesis by (subst heap_down.simps) (simp add: Let_def)
  qed
qed

lemma heap_up_heap:
  assumes "j < length (contents q)" and "all_ordered q"
    and "\<And>c. 0 < c \<Longrightarrow> c < length (contents q) \<Longrightarrow> c \<noteq> j \<Longrightarrow> in_order q c (parent c)"
    and "\<And>c. 0 < c \<Longrightarrow> c < length (contents q) \<Longrightarrow> parent c = j \<Longrightarrow> 0 < j \<Longrightarrow> in_order q c (parent j)"
  shows "heap_from 0 (length (contents q)) (heap_up lt sw q j)"
  using assms
proof (induction j arbitrary: q rule: less_induct)
  case (less j)
  note inv = less.prems(3) and inv_j = less.prems(4)
  show ?case
  proof (cases "parent j = j \<or> \<not> lt q j (parent j)")
    case True
    have "in_order q c (parent c)" if "0 < c" "c < length (contents q)" for c
      using that inv less.prems(1) True parent_less [of j] not_lt_in_order [of q j "parent j"]
      by (cases "c = j") auto
    with True show ?thesis
      by (subst heap_up.simps) (auto simp: Let_def heap_from_def parent_def)
  next
    case False
    let ?i = "parent j"
    from False have j: "0 < j" and lt: "lt q j ?i" by (auto simp: parent_def intro: gr0I)
    have i: "?i < j" by (rule parent_less [OF j])
    with less.prems have bounds: "?i < length (contents q)" "j < length (contents q)" by auto
    have flip: "in_order q ?i j" by (rule lt_in_order [OF less.prems(2) lt]) (use bounds in auto)
    have "heap_from 0 (length (contents (sw q ?i j))) (heap_up lt sw (sw q ?i j) ?i)"
    proof (rule less.IH [OF i])
      show "?i < length (contents (sw q ?i j))" using bounds by (simp add: length_sw)
      show "all_ordered (sw q ?i j)"
        using less.prems(2) all_ordered_mset [OF mset_sw [OF bounds]] by simp
    next
      fix c
      assume c: "0 < c" "c < length (contents (sw q ?i j))" "c \<noteq> ?i"
      then have cl: "c < length (contents q)" using bounds by (simp add: length_sw)
      have pl: "parent c < length (contents q)" using parent_less [OF c(1)] cl by simp
      consider "c = j" | "c \<noteq> j" "parent c = ?i" | "c \<noteq> j" "parent c = j"
        | "c \<noteq> j" "parent c \<noteq> ?i" "parent c \<noteq> j" by blast
      then show "in_order (sw q ?i j) c (parent c)"
      proof cases
        case 1
        with flip bounds i show ?thesis by (simp add: in_order_sw)
      next
        case 2
        have "in_order q c ?i" using inv [of c] 2 c cl by simp
        then have "in_order q c j" using flip in_order_trans less.prems(2) bounds cl by blast
        with 2 c(3) bounds cl show ?thesis by (simp add: in_order_sw)
      next
        case 3
        with inv_j [of c] c cl j bounds i show ?thesis by (simp add: in_order_sw)
      next
        case 4
        with inv [of c] c cl pl bounds show ?thesis by (simp add: in_order_sw)
      qed
    next
      fix c
      assume c: "0 < c" "c < length (contents (sw q ?i j))" "parent c = ?i" "0 < ?i"
      then have cl: "c < length (contents q)" using bounds by (simp add: length_sw)
      have pi: "parent ?i < ?i" by (rule parent_less [OF c(4)])
      have up: "in_order q ?i (parent ?i)" using inv [of ?i] c(4) bounds i by simp
      have ci: "c \<noteq> ?i" using parent_less [OF c(1)] c(3) by auto
      show "in_order (sw q ?i j) c (parent ?i)"
      proof (cases "c = j")
        case True
        with up bounds pi i show ?thesis by (simp add: in_order_sw)
      next
        case False
        have "in_order q c ?i" using inv [of c] False c cl by simp
        then have "in_order q c (parent ?i)"
          by (rule in_order_trans [OF less.prems(2) _ up]) (use bounds cl pi in auto)
        with False ci bounds cl pi i show ?thesis by (simp add: in_order_sw)
      qed
    qed
    moreover have "heap_up lt sw q j = heap_up lt sw (sw q ?i j) ?i"
      using False by (subst heap_up.simps) (auto simp: Let_def parent_def)
    ultimately show ?thesis using bounds by (simp add: length_sw)
  qed
qed

lemma heap_init_heap:
  assumes "n = length (contents q)" and "all_ordered q" and "i \<le> n div 2"
    and "heap_from i n q"
  shows "heap_from 0 n (heap_init_loop lt sw n q i) \<and>
    mset (contents (heap_init_loop lt sw n q i)) = mset (contents q)"
  using assms
proof (induction i arbitrary: q)
  case 0
  then show ?case by simp
next
  case (Suc i)
  let ?q = "heap_down lt sw q i n"
  have m: "mset (contents ?q) = mset (contents q)" by (rule mset_down) (simp add: Suc.prems(1))
  have "heap_from i n ?q"
  proof (rule heap_down_heap)
    show "n \<le> length (contents q)" "i \<le> i" "all_ordered q" using Suc.prems by auto
    show "i < n" using Suc.prems(3) by simp
  next
    fix c
    assume "0 < c" "c < n" "i \<le> parent c" "parent c \<noteq> i"
    then show "in_order q c (parent c)" using Suc.prems(4) by (simp add: heap_from_def)
  next
    fix c
    assume "0 < i" "i \<le> parent i"
    then show "in_order q c (parent i)" using parent_less [of i] by simp
  qed
  moreover have "n = length (contents ?q)" "all_ordered ?q"
    using Suc.prems(1,2) m all_ordered_mset [OF m] mset_eq_length [OF m] by auto
  ultimately show ?case using Suc.IH [of ?q] Suc.prems(3) m by simp
qed

lemma heap_first_minimal:
  assumes "heap_from 0 n q" and "all_ordered q" and "n \<le> length (contents q)" and "i < n"
  shows "in_order q i 0"
  using assms(4)
proof (induction i rule: less_induct)
  case (less i)
  show ?case
  proof (cases "i = 0")
    case True
    with less.prems assms show ?thesis by (auto intro: in_order_refl)
  next
    case False
    then have p: "parent i < i" by (simp add: parent_less)
    then have "in_order q (parent i) 0" using less by simp
    moreover have "in_order q i (parent i)"
      using assms(1) less.prems False by (simp add: heap_from_def)
    ultimately show ?thesis
      using in_order_trans [OF assms(2), of i "parent i" 0] p less.prems assms(3)
      by (cases "contents q") auto
  qed
qed

end

section \<open>The queue keeps the contract\<close>

definition pq_contents :: "'a PriorityQueue \<Rightarrow> ('a \<times> float64) list" where
  "pq_contents queue = map (\<lambda>it. (item_value it, priority it)) queue"

lemma length_pq_contents [simp]: "length (pq_contents q) = length q"
  by (simp add: pq_contents_def)

lemma pq_contents_Swap:
  "i < length q \<Longrightarrow> j < length q \<Longrightarrow> pq_contents (Swap q i j) = list_swap (pq_contents q) i j"
  by (rule nth_equalityI)
    (auto simp: pq_contents_def Swap_def Let_def list_swap_def nth_list_update map_update)

interpretation pq: heap_interface Less Swap pq_contents
  "\<lambda>x y. snd x < snd y" "\<lambda>x. snd x \<noteq> NaN"
proof unfold_locales
  fix i j and q :: "'a PriorityQueue"
  assume "i < length (pq_contents q)" "j < length (pq_contents q)"
  then show "Less q i j = (snd (pq_contents q ! i) < snd (pq_contents q ! j))"
    and "pq_contents (Swap q i j) = list_swap (pq_contents q) i j"
    by (simp_all add: Less_def pq_contents_Swap) (simp add: pq_contents_def)
next
  fix x y :: "'a \<times> float64"
  assume "snd x < snd y"
  then show "\<not> snd y < snd x" by (meson float_less_irrefl float_less_trans)
next
  fix x y z :: "'a \<times> float64"
  assume "snd x \<noteq> NaN" "snd y \<noteq> NaN" "snd z \<noteq> NaN" "\<not> snd y < snd x" "\<not> snd z < snd y"
  then show "\<not> snd z < snd x" by (metis float_le_trans float_not_less)
qed

section \<open>The contract of a minimum queue\<close>

fun drain :: "('q \<Rightarrow> ('i \<times> 'q) go) \<Rightarrow> nat \<Rightarrow> 'q \<Rightarrow> 'i list \<times> 'q" where
  \<comment> \<open>pop until \<open>n\<close> items are taken or the queue is empty\<close>
  "drain pop 0 q = ([], q)"
| "drain pop (Suc n) q =
     (case pop q of
        Inl _ \<Rightarrow> ([], q)
      | Inr (x, q') \<Rightarrow> (let (xs, r) = drain pop n q' in (x # xs, r)))"

locale min_queue =
  fixes push :: "'q \<Rightarrow> 'i \<Rightarrow> 'q"
    and pop :: "'q \<Rightarrow> ('i \<times> 'q) go"
    and view :: "'i \<Rightarrow> 'e"
    and contents :: "'q \<Rightarrow> 'e list"
    and key :: "'e \<Rightarrow> float64"
    and invar :: "'q \<Rightarrow> bool"
  assumes push_mset: "mset (contents (push q x)) = add_mset (view x) (mset (contents q))"
    and push_invar: "invar q \<Longrightarrow> key (view x) \<noteq> NaN \<Longrightarrow> invar (push q x)"
    and pop_empty: "contents q = [] \<Longrightarrow> pop q = Inl IndexOutOfRange"
    and pop_total: "contents q \<noteq> [] \<Longrightarrow> \<exists>x q'. pop q = Inr (x, q')"
    and pop_mset: "pop q = Inr (x, q') \<Longrightarrow> mset (contents q) = add_mset (view x) (mset (contents q'))"
    and pop_invar: "invar q \<Longrightarrow> pop q = Inr (x, q') \<Longrightarrow> invar q'"
    and pop_min: "invar q \<Longrightarrow> pop q = Inr (x, q') \<Longrightarrow> y \<in> set (contents q) \<Longrightarrow> key (view x) \<le> key y"
begin

lemma push_set: "set (contents (push q x)) = insert (view x) (set (contents q))"
  using push_mset [of q x] by (metis set_mset_add_mset_insert set_mset_mset)

lemma pop_set: "pop q = Inr (x, q') \<Longrightarrow> set (contents q) = insert (view x) (set (contents q'))"
  using pop_mset by (metis set_mset_add_mset_insert set_mset_mset)

lemma pop_length: "pop q = Inr (x, q') \<Longrightarrow> length (contents q) = Suc (length (contents q'))"
  using pop_mset [of q x q'] by (metis size_add_mset size_mset)

lemma drain_mset:
  "drain pop n q = (xs, r) \<Longrightarrow> mset (contents q) = mset (map view xs) + mset (contents r)"
proof (induction n arbitrary: q xs)
  case 0
  then show ?case by simp
next
  case (Suc n)
  then show ?case
    by (fastforce split: sum.splits prod.splits dest!: pop_mset)
qed

lemma drain_length: "drain pop n q = (xs, r) \<Longrightarrow> length xs = min n (length (contents q))"
proof (induction n arbitrary: q xs)
  case 0
  then show ?case by simp
next
  case (Suc n)
  show ?case
  proof (cases "contents q = []")
    case True
    with Suc.prems show ?thesis by (simp add: pop_empty)
  next
    case False
    then obtain x q' where "pop q = Inr (x, q')" using pop_total by blast
    with Suc show ?thesis by (fastforce split: prod.splits dest: pop_length)
  qed
qed

lemma drain_sorted:
  assumes "invar q" and "drain pop n q = (xs, r)"
  shows "invar r \<and> sorted_wrt (\<lambda>x y. key (view x) \<le> key (view y)) xs \<and>
    (\<forall>x \<in> set xs. \<forall>y \<in> set (contents r). key (view x) \<le> key y)"
  using assms
proof (induction n arbitrary: q xs)
  case 0
  then show ?case by simp
next
  case (Suc n)
  show ?case
  proof (cases "pop q")
    case (Inl p)
    with Suc.prems show ?thesis by auto
  next
    case (Inr xq)
    obtain x q' where pop: "pop q = Inr (x, q')" using Inr by (cases xq) simp
    obtain ys where ys: "drain pop n q' = (ys, r)" and xs: "xs = x # ys"
      using Suc.prems(2) pop by (auto split: prod.splits)
    have "set (contents q') = view ` set ys \<union> set (contents r)"
      using drain_mset [OF ys] by (metis image_set set_mset_mset set_mset_union)
    then have "\<forall>y \<in> view ` set ys \<union> set (contents r). key (view x) \<le> key y"
      using pop_min [OF Suc.prems(1) pop] pop_set [OF pop] by simp
    with Suc.IH [OF pop_invar [OF Suc.prems(1) pop] ys] xs show ?thesis by simp
  qed
qed

end

definition pq_invar :: "'a PriorityQueue \<Rightarrow> bool" where
  \<comment> \<open>the queue is a heap and no priority is NaN\<close>
  "pq_invar q \<longleftrightarrow> pq.heap_from 0 (length q) q \<and> pq.all_ordered q"

definition item_view :: "'a Item \<Rightarrow> 'a \<times> float64" where
  "item_view it = (item_value it, priority it)"

lemma pq_contents_Push: "pq_contents (Push q x) = pq_contents q @ [item_view x]"
  by (simp add: pq_contents_def Push_def item_view_def)

lemma length_Push [simp]: "length (Push q x) = Suc (length q)"
  by (simp add: Push_def)

lemma heap_push_mset: "mset (pq_contents (heap_push q x)) = add_mset (item_view x) (mset (pq_contents q))"
  using pq.mset_up [of "length q" "Push q x"]
  by (simp add: heap_push_def Len_def pq_contents_Push)

lemma heap_push_invar:
  assumes "pq_invar q" and "priority x \<noteq> NaN"
  shows "pq_invar (heap_push q x)"
proof -
  let ?q = "Push q x"
  have ord: "pq.all_ordered ?q"
    using assms by (auto simp: pq_invar_def pq.all_ordered_def pq_contents_Push item_view_def)
  have old: "pq.in_order ?q c (parent c)" if "0 < c" "c < length q" for c
  proof -
    have "parent c < length q" using that parent_less [of c] by simp
    moreover have "pq.in_order q c (parent c)"
      using assms(1) that by (simp add: pq_invar_def pq.heap_from_def)
    ultimately show ?thesis
      using that by (simp add: pq.in_order_def pq_contents_Push nth_append)
  qed
  have "pq.heap_from 0 (length (pq_contents ?q)) (heap_up Less Swap ?q (length q))"
  proof (rule pq.heap_up_heap)
    fix c
    assume "0 < c" "c < length (pq_contents ?q)" "c \<noteq> length q"
    then show "pq.in_order ?q c (parent c)" using old by simp
  next
    fix c
    assume "0 < c" "c < length (pq_contents ?q)" "parent c = length q"
    then show "pq.in_order ?q c (parent (length q))" using parent_less [of c] by simp
  qed (use ord in auto)
  moreover have m: "mset (pq_contents (heap_up Less Swap ?q (length q))) = mset (pq_contents ?q)"
    by (rule pq.mset_up) simp
  moreover have "length (heap_up Less Swap ?q (length q)) = length (pq_contents ?q)"
    using mset_eq_length [OF m] by simp
  ultimately show ?thesis
    using ord pq.all_ordered_mset [OF m] by (simp add: pq_invar_def heap_push_def Len_def)
qed

lemma heap_pop_cases:
  assumes "q \<noteq> []"
  defines "n \<equiv> length q - 1"
  defines "r \<equiv> heap_down Less Swap (Swap q 0 n) 0 n"
  shows "heap_pop q = Inr ((last r)\<lparr>index := - 1\<rparr>, butlast r)"
    and "mset (pq_contents r) = mset (pq_contents q)" and "length r = length q"
proof -
  have 0: "0 < length (pq_contents q)" and n: "n < length (pq_contents q)"
    using assms(1) by (auto simp: n_def)
  have "mset (pq_contents r) = mset (pq_contents (Swap q 0 n))"
    unfolding r_def by (rule pq.mset_down) (use pq.length_sw [OF 0 n] n in simp)
  then show m: "mset (pq_contents r) = mset (pq_contents q)"
    using pq.mset_sw [OF 0 n] by simp
  then show len: "length r = length q" using mset_eq_length [OF m] by simp
  with assms(1) have "r \<noteq> []" by auto
  with assms(1) show "heap_pop q = Inr ((last r)\<lparr>index := - 1\<rparr>, butlast r)"
    by (simp add: heap_pop_def Len_def Pop_def n_def r_def Let_def split: list.splits)
qed

lemma item_view_index [simp]: "item_view (it\<lparr>index := i\<rparr>) = item_view it"
  by (simp add: item_view_def)

lemma pq_contents_nth: "i < length q \<Longrightarrow> pq_contents q ! i = item_view (q ! i)"
  by (simp add: pq_contents_def item_view_def)

lemma heap_pop_spec:
  assumes "heap_pop q = Inr (x, q')"
  shows "q \<noteq> []" and "mset (pq_contents q) = add_mset (item_view x) (mset (pq_contents q'))"
    and "item_view x = item_view (hd q)"
    and "pq_invar q \<Longrightarrow> pq_invar q'"
proof -
  show ne: "q \<noteq> []" using assms by (auto simp: heap_pop_def Len_def)
  define n where "n = length q - 1"
  define r where "r = heap_down Less Swap (Swap q 0 n) 0 n"
  have x: "x = (last r)\<lparr>index := - 1\<rparr>" and q': "q' = butlast r"
    using heap_pop_cases(1) [OF ne] assms by (simp_all add: n_def r_def)
  have m: "mset (pq_contents r) = mset (pq_contents q)" and len: "length r = length q"
    using heap_pop_cases(2,3) [OF ne] by (simp_all add: n_def r_def)
  have r: "r \<noteq> []" "length r = Suc n" using ne len by (auto simp: n_def)
  have app: "pq_contents r = pq_contents q' @ [item_view x]"
    using arg_cong [OF append_butlast_last_id [OF r(1)], of pq_contents]
    by (simp add: q' x pq_contents_def item_view_def)
  then show "mset (pq_contents q) = add_mset (item_view x) (mset (pq_contents q'))"
    using m by simp
  have lq': "length q' = n" using r by (simp add: q')
  have n: "0 < length (pq_contents q)" "n < length (pq_contents q)" using ne by (auto simp: n_def)
  have lsw: "length (Swap q 0 n) = length q" using pq.length_sw [OF n] by simp
  have "item_view x = pq_contents r ! n"
    using r by (simp add: x last_conv_nth pq_contents_nth)
  also have "\<dots> = pq_contents (Swap q 0 n) ! n"
    unfolding r_def using n lsw by (intro pq.nth_down) auto
  also have "\<dots> = pq_contents q ! 0"
    using n by (simp add: pq.sw_contents nth_list_swap)
  finally show "item_view x = item_view (hd q)"
    using ne by (simp add: pq_contents_nth hd_conv_nth)
  show "pq_invar q'" if inv: "pq_invar q"
  proof -
    have ord: "pq.all_ordered r" using inv pq.all_ordered_mset [OF m] by (simp add: pq_invar_def)
    have "pq.heap_from 0 n r"
    proof (cases "n = 0")
      case False
      show ?thesis unfolding r_def
      proof (rule pq.heap_down_heap)
        show "pq.all_ordered (Swap q 0 n)"
          using inv pq.all_ordered_mset [OF pq.mset_sw [OF n]] by (simp add: pq_invar_def)
      next
        fix c
        assume c: "0 < c" "c < n" "parent c \<noteq> 0"
        then have "pq.in_order q c (parent c)"
          using inv n by (simp add: pq_invar_def pq.heap_from_def)
        with c n parent_less [OF c(1)] show "pq.in_order (Swap q 0 n) c (parent c)"
          by (simp add: pq.in_order_sw)
      qed (use False lsw in \<open>auto simp: n_def\<close>)
    qed (simp add: pq.heap_from_def)
    then have "pq.in_order q' c (parent c)" if "0 < c" "c < n" for c
      using that lq' less_trans [OF parent_less [OF that(1)] that(2)]
      by (auto simp: pq.heap_from_def pq.in_order_def app nth_append dest!: spec [of _ c])
    then have "pq.heap_from 0 (length q') q'"
      using lq' by (simp add: pq.heap_from_def)
    moreover have "pq.all_ordered q'"
      using ord by (auto simp: pq.all_ordered_def q' pq_contents_def dest: in_set_butlastD)
    ultimately show ?thesis by (simp add: pq_invar_def)
  qed
qed

lemma pqueue_view_in: "heap_pop q = Inr (x, q') \<Longrightarrow> item_view x \<in> set (pq_contents q)"
  using heap_pop_spec(2) by (metis set_mset_mset union_single_eq_member add_mset_add_single)

interpretation pqueue: min_queue heap_push heap_pop item_view pq_contents snd pq_invar
proof unfold_locales
  fix q q' :: "'a PriorityQueue" and x :: "'a Item"
  show "mset (pq_contents (heap_push q x)) = add_mset (item_view x) (mset (pq_contents q))"
    by (rule heap_push_mset)
  show "pq_invar q \<Longrightarrow> snd (item_view x) \<noteq> NaN \<Longrightarrow> pq_invar (heap_push q x)"
    by (rule heap_push_invar) (simp_all add: item_view_def)
  show "pq_contents q = [] \<Longrightarrow> heap_pop q = Inl IndexOutOfRange"
    by (simp add: pq_contents_def heap_pop_def Len_def)
  show "pq_contents q \<noteq> [] \<Longrightarrow> \<exists>x q'. heap_pop q = Inr (x, q')"
    using heap_pop_cases(1) [of q] by (auto simp: pq_contents_def)
  show "heap_pop q = Inr (x, q') \<Longrightarrow> mset (pq_contents q) = add_mset (item_view x) (mset (pq_contents q'))"
    by (rule heap_pop_spec(2))
  show "pq_invar q \<Longrightarrow> heap_pop q = Inr (x, q') \<Longrightarrow> pq_invar q'"
    using heap_pop_spec(4) by blast
next
  fix q q' :: "'a PriorityQueue" and x :: "'a Item" and y
  assume inv: "pq_invar q" and pop: "heap_pop q = Inr (x, q')" and y: "y \<in> set (pq_contents q)"
  from y obtain i where i: "i < length q" "y = pq_contents q ! i"
    by (metis in_set_conv_nth length_pq_contents)
  have ne: "q \<noteq> []" using i by auto
  have "pq.in_order q i 0"
    using pq.heap_first_minimal [of "length q" q i] inv i by (simp add: pq_invar_def)
  moreover have "item_view x = pq_contents q ! 0"
    using heap_pop_spec(3) [OF pop] ne by (simp add: pq_contents_nth hd_conv_nth)
  ultimately have "\<not> snd y < snd (item_view x)" using i by (simp add: pq.in_order_def)
  moreover have "snd y \<noteq> NaN" "snd (item_view x) \<noteq> NaN"
    using inv y pqueue_view_in [OF pop] by (auto simp: pq_invar_def pq.all_ordered_def)
  ultimately show "snd (item_view x) \<le> snd y" by (simp add: float_not_less)
qed

text \<open>The empty queue and initialisation.\<close>

lemma pq_invar_empty [simp]: "pq_invar []"
  by (simp add: pq_invar_def pq.heap_from_def pq.all_ordered_def pq_contents_def)

lemma heap_init_empty [simp]: "heap_init [] = []"
  by (simp add: heap_init_def Len_def)

lemma heap_init_invar:
  assumes "\<forall>it \<in> set q. priority it \<noteq> NaN"
  shows "pq_invar (heap_init q) \<and> mset (pq_contents (heap_init q)) = mset (pq_contents q)"
proof -
  have ord: "pq.all_ordered q" using assms by (auto simp: pq.all_ordered_def pq_contents_def)
  have vacuous: "pq.heap_from (length q div 2) (length q) q"
    by (auto simp: pq.heap_from_def parent_def)
  have h: "pq.heap_from 0 (length q) (heap_init q)"
    and m: "mset (pq_contents (heap_init q)) = mset (pq_contents q)"
    using pq.heap_init_heap [of "length q" q "length q div 2"] ord vacuous
    by (simp_all add: heap_init_def Len_def)
  with ord pq.all_ordered_mset [OF m] mset_eq_length [OF m] show ?thesis
    by (simp add: pq_invar_def)
qed

section \<open>Every item knows its slot\<close>

definition index_ok :: "'a PriorityQueue \<Rightarrow> bool" where
  "index_ok q \<longleftrightarrow> (\<forall>i < length q. index (q ! i) = int i)"

lemma index_ok_Swap: "i < length q \<Longrightarrow> j < length q \<Longrightarrow> index_ok q \<Longrightarrow> index_ok (Swap q i j)"
  by (auto simp: index_ok_def Swap_def Let_def nth_list_update)

lemma index_ok_push: "index_ok q \<Longrightarrow> index_ok (heap_push q x)"
  unfolding heap_push_def Let_def
proof (rule pq.up_preserves [where P = index_ok])
  show "index_ok q \<Longrightarrow> index_ok (Push q x)"
    by (auto simp: index_ok_def Push_def nth_append)
qed (auto simp: index_ok_Swap Len_def)

lemma index_ok_pop:
  assumes "index_ok q" and "heap_pop q = Inr (x, q')"
  shows "index_ok q' \<and> index x = - 1"
proof -
  have ne: "q \<noteq> []" using heap_pop_spec(1) [OF assms(2)] .
  define n where "n = length q - 1"
  define r where "r = heap_down Less Swap (Swap q 0 n) 0 n"
  have x: "x = (last r)\<lparr>index := - 1\<rparr>" and q': "q' = butlast r"
    using heap_pop_cases(1) [OF ne] assms(2) by (simp_all add: n_def r_def)
  have bounds: "0 < length (pq_contents q)" "n < length (pq_contents q)"
    using ne by (auto simp: n_def)
  have "index_ok r" unfolding r_def
  proof (rule pq.down_preserves [where P = index_ok])
    show "n \<le> length (pq_contents (Swap q 0 n))"
      unfolding pq.length_sw [OF bounds] using bounds(2) by simp
  qed (use assms(1) bounds in \<open>auto simp: index_ok_Swap\<close>)
  then show ?thesis by (auto simp: q' x index_ok_def nth_butlast)
qed

text \<open>The queues of at most two items, for evaluation.\<close>

lemma heap_push_Nil: "heap_push [] x = [x\<lparr>index := 0\<rparr>]"
  by (simp add: heap_push_def Push_def Len_def heap_up.simps [of _ _ _ 0])

lemma heap_push_single:
  "heap_push [a] x =
     (if priority x < priority a then [x\<lparr>index := 0\<rparr>, a\<lparr>index := 1\<rparr>] else [a, x\<lparr>index := 1\<rparr>])"
  by (simp add: heap_push_def Push_def Len_def Less_def Swap_def Let_def heap_up.simps [of _ _ _ 0]
      heap_up.simps [of _ _ _ 1] heap_up.simps [of _ _ _ "Suc 0"])

lemma heap_pop_single: "heap_pop [a] = Inr (a\<lparr>index := - 1\<rparr>, [])"
  by (simp add: heap_pop_def Pop_def Len_def Swap_def Let_def heap_down.simps [of _ _ _ 0 0])

lemma heap_pop_two: "heap_pop [a, b] = Inr (a\<lparr>index := - 1\<rparr>, [b\<lparr>index := 0\<rparr>])"
  by (simp add: heap_pop_def Pop_def Len_def Swap_def Let_def heap_down.simps [of _ _ _ 0 1]
      heap_down.simps [of _ _ _ 0 "Suc 0"])

lemmas small_queues = heap_push_Nil heap_push_single heap_pop_single heap_pop_two

section \<open>The properties of the queue\<close>

text \<open>
  C10. The queue sorts: whatever items are pushed, popping all of them returns the same items with their
  priorities in ascending order and leaves the queue empty, as long as no priority is NaN.
\<close>
theorem queue_sorts:
  assumes "\<forall>it \<in> set items. priority it \<noteq> NaN"
    and "drain heap_pop (length items) (fold (\<lambda>it q. heap_push q it) items (heap_init [])) = (xs, rest)"
  shows "rest = [] \<and> mset (map item_view xs) = mset (map item_view items) \<and>
    sorted_wrt (\<lambda>x y. priority x \<le> priority y) xs"
proof -
  let ?push = "\<lambda>its q. fold (\<lambda>it q. heap_push q it) its q"
  have "(pq_invar q \<longrightarrow> (\<forall>it \<in> set its. priority it \<noteq> NaN) \<longrightarrow> pq_invar (?push its q)) \<and>
      mset (pq_contents (?push its q)) = mset (pq_contents q) + mset (map item_view its)"
    for its and q :: "'a PriorityQueue"
  proof (induction its arbitrary: q)
    case Nil
    then show ?case by simp
  next
    case (Cons it its)
    have "pq_invar q \<longrightarrow> priority it \<noteq> NaN \<longrightarrow> pq_invar (heap_push q it)"
      by (simp add: heap_push_invar)
    with Cons [of "heap_push q it"] show ?case by (simp add: pqueue.push_mset)
  qed
  note push = this [of "heap_init []" items]
  define q where "q = ?push items (heap_init [])"
  have inv: "pq_invar q" and m: "mset (pq_contents q) = mset (map item_view items)"
    using push assms(1) by (simp_all add: q_def pq_contents_def)
  have d: "drain heap_pop (length items) q = (xs, rest)" using assms(2) by (simp add: q_def)
  have "length (pq_contents q) = length items" using mset_eq_length [OF m] by simp
  then have lxs: "length xs = length items" using pqueue.drain_length [OF d] by simp
  have sum: "mset (map item_view items) = mset (map item_view xs) + mset (pq_contents rest)"
    using pqueue.drain_mset [OF d] m by simp
  have "length items = length xs + length rest"
    using arg_cong [OF sum, of size] by (simp only: size_union size_mset length_map length_pq_contents)
  then have "rest = []" using lxs by simp
  moreover from this sum have "mset (map item_view xs) = mset (map item_view items)"
    by (simp add: pq_contents_def)
  moreover have "sorted_wrt (\<lambda>x y. priority x \<le> priority y) xs"
    using pqueue.drain_sorted [OF inv d] by (simp add: item_view_def)
  ultimately show ?thesis by simp
qed

theorem queue_sorts_witness:
  "map item_value (fst (drain heap_pop 2 (fold (\<lambda>it q. heap_push q it)
     [\<lparr>item_value = 1 :: nat, priority = 7, index = 0\<rparr>, \<lparr>item_value = 2, priority = 3, index = 0\<rparr>]
     (heap_init [])))) = [2, 1] \<and>
   sorted_wrt (\<lambda>x y. priority x \<le> priority y) (fst (drain heap_pop 2 (fold (\<lambda>it q. heap_push q it)
     [\<lparr>item_value = 1 :: nat, priority = 7, index = 0\<rparr>, \<lparr>item_value = 2, priority = 3, index = 0\<rparr>]
     (heap_init []))))"
proof -
  let ?items = "[\<lparr>item_value = 1 :: nat, priority = 7, index = 0\<rparr>,
    \<lparr>item_value = 2, priority = 3, index = 0\<rparr>]"
  obtain xs rest where d: "drain heap_pop (length ?items)
      (fold (\<lambda>it q. heap_push q it) ?items (heap_init [])) = (xs, rest)"
    by (cases "drain heap_pop (length ?items) (fold (\<lambda>it q. heap_push q it) ?items (heap_init []))")
  have "\<forall>it \<in> set ?items. priority it \<noteq> NaN" by simp
  then have "sorted_wrt (\<lambda>x y. priority x \<le> priority y) xs" using queue_sorts [OF _ d] by blast
  moreover have "map item_value xs = [2, 1]"
    using d by (auto simp: small_queues numeral_2_eq_2)
  ultimately show ?thesis using d by (simp add: numeral_2_eq_2)
qed

text \<open>
  Every item knows its slot: \<open>Push\<close>, \<open>Swap\<close> and \<open>Pop\<close> keep the field \<open>index\<close> equal to the
  position of the item through every heap operation, and an item that leaves the queue has index -1.
\<close>
theorem queue_indices:
  assumes "index_ok q"
  shows "index_ok (heap_push q x) \<and>
    (\<forall>y q'. heap_pop q = Inr (y, q') \<longrightarrow> index_ok q' \<and> index y = - 1)"
  using index_ok_push [OF assms] index_ok_pop [OF assms] by blast

theorem queue_indices_witness:
  "index_ok (heap_push [\<lparr>item_value = 1 :: nat, priority = 7, index = 0\<rparr>]
     \<lparr>item_value = 2, priority = 3, index = 9\<rparr>)"
  using queue_indices [of "[\<lparr>item_value = 1 :: nat, priority = 7, index = 0\<rparr>]"]
  by (simp add: index_ok_def)

end
