(* ===== verification/State_Graph.thy ===== *)
theory State_Graph
  imports Common_Types Priority_Queue
begin

text \<open>
  \<^verbatim>\<open>pkg/planner/interface.go\<close> (actions) and \<^verbatim>\<open>pkg/planner/astar/state_graph.go\<close>
  (nodes, edges and the graph).  A \<open>Node\<close> holds a pointer to a state and Go
  compares nodes by that pointer, so a node is an address; the states it points
  to are kept beside the graph by the planner.  Address 0 is the node with the
  nil value, the zero value of the type.
\<close>

section \<open>Actions\<close>

datatype properties =
    NilProps
  | IntProps "(string, int64) gomap"
  | StrProps "(string, string) gomap"
  | OtherProps

record Action =
  ActionName :: string
  Properties :: properties

definition zero_Action :: Action where
  "zero_Action = \<lparr>ActionName = '''', Properties = NilProps\<rparr>"

section \<open>The graph\<close>

type_synonym node = nat

definition nil_node :: node where
  "nil_node = 0"

record edge =
  edge_node :: node
  utility :: float64
  edge_action :: Action

record stateGraph =
  nodes :: "node list"
  successors :: "(node \<times> edge list) list"

definition newStateGraph :: stateGraph where
  "newStateGraph = \<lparr>nodes = [], successors = []\<rparr>"

definition addNode :: "node \<Rightarrow> stateGraph \<Rightarrow> stateGraph" where
  "addNode n sg = sg\<lparr>nodes := nodes sg @ [n]\<rparr>"

definition succ_of :: "stateGraph \<Rightarrow> node \<Rightarrow> edge list" where
  \<comment> \<open>the read \<open>sg.successors[n]\<close>, the nil slice where there is no entry\<close>
  "succ_of sg n = (case map_of (successors sg) n of None \<Rightarrow> [] | Some es \<Rightarrow> es)"

definition addEdge :: "node \<Rightarrow> node \<Rightarrow> float64 \<Rightarrow> Action \<Rightarrow> stateGraph \<Rightarrow> stateGraph" where
  "addEdge src trg u a sg =
     sg\<lparr>successors :=
          AList.update src (succ_of sg src @ [\<lparr>edge_node = trg, utility = u, edge_action = a\<rparr>])
            (successors sg)\<rparr>"

lemma newStateGraph_simps [simp]: "nodes newStateGraph = []" "successors newStateGraph = []"
    "succ_of newStateGraph n = []"
  by (simp_all add: newStateGraph_def succ_of_def)

lemma addNode_simps [simp]:
  "nodes (addNode n sg) = nodes sg @ [n]" "successors (addNode n sg) = successors sg"
  "succ_of (addNode n sg) = succ_of sg"
  by (auto simp: addNode_def succ_of_def)

lemma addEdge_nodes [simp]: "nodes (addEdge a b u x sg) = nodes sg"
  by (simp add: addEdge_def)

lemma succ_of_addEdge:
  "succ_of (addEdge a b u x sg) n =
     (if n = a then succ_of sg a @ [\<lparr>edge_node = b, utility = u, edge_action = x\<rparr>] else succ_of sg n)"
  by (simp add: addEdge_def succ_of_def update_conv')

lemma addEdge_successors_ne [simp]: "successors (addEdge a b u x sg) \<noteq> []"
  by (cases "successors sg") (auto simp: addEdge_def)

section \<open>Walks\<close>

fun walk :: "stateGraph \<Rightarrow> node \<Rightarrow> edge list \<Rightarrow> node \<Rightarrow> bool" where
  \<comment> \<open>a sequence of edges leading from one node to another\<close>
  "walk sg u [] v = (u = v)"
| "walk sg u (e # es) v = (e \<in> set (succ_of sg u) \<and> walk sg (edge_node e) es v)"

definition walk_nodes :: "node \<Rightarrow> edge list \<Rightarrow> node list" where
  "walk_nodes u es = u # map edge_node es"

definition weight :: "bool \<Rightarrow> edge \<Rightarrow> float64" where
  \<comment> \<open>the cost of an edge: its utility, or 1 when utilities are not used\<close>
  "weight useUtility e = (if useUtility then utility e else 1)"

definition cost :: "bool \<Rightarrow> edge list \<Rightarrow> real" where
  "cost useUtility es = (\<Sum>e \<leftarrow> es. real_of (weight useUtility e))"

definition reaches :: "stateGraph \<Rightarrow> node \<Rightarrow> node \<Rightarrow> bool" where
  "reaches sg u v \<longleftrightarrow> (\<exists>es. walk sg u es v)"

definition nonneg_weights :: "bool \<Rightarrow> stateGraph \<Rightarrow> bool" where
  \<comment> \<open>no edge has a negative, infinite or NaN cost\<close>
  "nonneg_weights useUtility sg \<longleftrightarrow>
     (\<forall>n. \<forall>e \<in> set (succ_of sg n). \<exists>w. 0 \<le> w \<and> weight useUtility e = Fin w)"

lemma walk_append: "walk sg u (es @ fs) v \<longleftrightarrow> (\<exists>m. walk sg u es m \<and> walk sg m fs v)"
  by (induction sg u es v rule: walk.induct) auto

lemma walk_snoc: "walk sg u (es @ [e]) v \<longleftrightarrow> (\<exists>m. walk sg u es m \<and> e \<in> set (succ_of sg m) \<and> edge_node e = v)"
  by (auto simp: walk_append)

lemma walk_nodes_snoc [simp]: "walk_nodes u (es @ [e]) = walk_nodes u es @ [edge_node e]"
  by (simp add: walk_nodes_def)

lemma walk_last: "walk sg u es v \<Longrightarrow> last (walk_nodes u es) = v"
  by (induction sg u es v rule: walk.induct) (auto simp: walk_nodes_def split: if_splits)

lemma walk_end_in: "walk sg u es v \<Longrightarrow> v \<in> set (walk_nodes u es)"
  by (metis walk_last walk_nodes_def last_in_set list.distinct(1))

lemma cost_simps [simp]:
  "cost uu [] = 0" "cost uu (e # es) = real_of (weight uu e) + cost uu es"
  "cost uu (es @ fs) = cost uu es + cost uu fs"
  by (simp_all add: cost_def)

lemma weight_nonneg:
  "nonneg_weights uu sg \<Longrightarrow> e \<in> set (succ_of sg n) \<Longrightarrow>
     0 \<le> real_of (weight uu e) \<and> weight uu e = Fin (real_of (weight uu e))"
  by (fastforce simp: nonneg_weights_def)

lemma cost_nonneg: "nonneg_weights uu sg \<Longrightarrow> walk sg u es v \<Longrightarrow> 0 \<le> cost uu es"
  by (induction sg u es v rule: walk.induct) (auto dest: weight_nonneg)

lemma unit_weights: "nonneg_weights False sg"
  by (auto simp: nonneg_weights_def weight_def float_consts)

lemma unit_cost: "cost False es = real (length es)"
  by (induction es) (simp_all add: weight_def float_consts)

lemma reaches_refl [simp]: "reaches sg u u"
  unfolding reaches_def by (rule exI [of _ "[]"]) simp

lemma reaches_step: "reaches sg u m \<Longrightarrow> e \<in> set (succ_of sg m) \<Longrightarrow> reaches sg u (edge_node e)"
  unfolding reaches_def using walk_snoc by blast

lemma reaches_trans: "reaches sg u m \<Longrightarrow> reaches sg m v \<Longrightarrow> reaches sg u v"
  unfolding reaches_def using walk_append by blast

lemma walk_mono:
  "walk sg u es v \<Longrightarrow> (\<And>n. set (succ_of sg n) \<subseteq> set (succ_of sg' n)) \<Longrightarrow> walk sg' u es v"
  by (induction sg u es v rule: walk.induct) auto

end
