(* ===== verification/Kpi.thy ===== *)
theory Kpi
  imports Common_Types
begin

text \<open>
  \<^verbatim>\<open>pkg/controller/kpi.go\<close> and \<^verbatim>\<open>pkg/controller/telemetry.go\<close>: the
  measurements of the current state.  The Prometheus service is the argument
  \<open>http\<close>, a function from the URL to the reply; decoding the body is part of the
  reply.  A panic inside \<open>doQuery\<close> is recovered, and the function then returns
  the zero value of its result.  Of \<open>fmt.Sprintf\<close> the verbs \<open>%s\<close>, \<open>%[n]s\<close> and \<open>%%\<close> are
  modelled, of \<open>strconv.ParseFloat\<close> the decimal syntax.
\<close>

section \<open>Strings\<close>

definition indexed_arg :: "string list \<Rightarrow> string \<Rightarrow> string" where
  "indexed_arg args ds =
     (case parse_nat ds of
        None \<Rightarrow> ''%!s(BADINDEX)''
      | Some i \<Rightarrow> if 0 < i \<and> i \<le> length args then args ! (i - 1) else ''%!s(BADINDEX)'')"

definition extra_args :: "string list \<Rightarrow> string" where
  "extra_args args =
     (if args = [] then []
      else ''%!(EXTRA '' @ foldr (\<lambda>a s. ''string='' @ a @ (if s = '')'' then s else '', '' @ s)) args '')'')"

function sprintf_loop :: "string list \<Rightarrow> nat \<Rightarrow> bool \<Rightarrow> string \<Rightarrow> string" where
  \<comment> \<open>\<open>reordered\<close>: an explicit index was seen, so unused arguments are not reported\<close>
  "sprintf_loop args n reordered [] = (if reordered then [] else extra_args (drop n args))"
| "sprintf_loop args n reordered (c # cs) =
     (if c \<noteq> CHR ''%'' then c # sprintf_loop args n reordered cs
      else (case cs of
          [] \<Rightarrow> ''%!(NOVERB)'' @ sprintf_loop args n reordered []
        | v # rest \<Rightarrow>
            if v = CHR ''%'' then CHR ''%'' # sprintf_loop args n reordered rest
            else if v = CHR ''s'' then
              (if n < length args then args ! n else ''%!s(MISSING)'') @
              sprintf_loop args (n + 1) reordered rest
            else if v = CHR ''['' then
              indexed_arg args (takeWhile is_digit rest) @
              sprintf_loop args n True (drop 2 (dropWhile is_digit rest))
            else ''%!'' @ [v] @ sprintf_loop args (n + 1) reordered rest))"
  by pat_completeness auto
termination
proof (relation "measure (\<lambda>(_, _, _, cs). length cs)", goal_cases)
  case (6 args n reordered c cs v rest)
  then show ?case
    using length_dropWhile_le [of is_digit rest] by simp
qed auto

definition Sprintf :: "string \<Rightarrow> string list \<Rightarrow> string" where
  "Sprintf fmt args = sprintf_loop args 0 False fmt"

definition hex_digit :: "nat \<Rightarrow> char" where
  "hex_digit n = (if n < 10 then digit_char n else char_of (55 + n))"

definition unreserved :: "char \<Rightarrow> bool" where
  "unreserved c \<longleftrightarrow>
     is_digit c \<or> (let n = of_char c :: nat in 65 \<le> n \<and> n \<le> 90 \<or> 97 \<le> n \<and> n \<le> 122) \<or> c \<in> set ''-_.~''"

definition QueryEscape :: "string \<Rightarrow> string" where
  \<comment> \<open>\<open>url.QueryEscape\<close>\<close>
  "QueryEscape s = concat (map (\<lambda>c.
     if unreserved c then [c] else if c = CHR '' '' then ''+''
     else [CHR ''%'', hex_digit (of_char c div 16), hex_digit (of_char c mod 16)]) s)"

definition split_sign :: "string \<Rightarrow> bool \<times> bool \<times> string" where
  \<comment> \<open>is there a sign, is it a minus, and what follows\<close>
  "split_sign s =
     (case s of
        [] \<Rightarrow> (False, False, [])
      | c # cs \<Rightarrow> if c = CHR ''-'' then (True, True, cs) else if c = CHR ''+'' then (True, False, cs)
          else (False, False, s))"

definition parse_exponent :: "string \<Rightarrow> int option" where
  "parse_exponent s =
     (case s of
        [] \<Rightarrow> Some 0
      | c # cs \<Rightarrow>
          if c \<in> set ''eE'' then
            (let (_, neg, ds) = split_sign cs in
             map_option (\<lambda>n. if neg then - int n else int n) (parse_nat ds))
          else None)"

definition scale10 :: "nat \<Rightarrow> int \<Rightarrow> real" where
  "scale10 m e = (if e < 0 then real m / 10 ^ nat (- e) else real m * 10 ^ nat e)"

definition ParseFloat :: "string \<Rightarrow> float64 option" where
  "ParseFloat s =
     (let (signed, neg, body) = split_sign s; low = to_lower body in
      if low = ''inf'' \<or> low = ''infinity'' then Some (if neg then NegInf else PosInf)
      else if low = ''nan'' \<and> \<not> signed then Some NaN
      else
        (let ip = takeWhile is_digit body; r = dropWhile is_digit body;
             (fp, r') = (case r of
               c # cs \<Rightarrow> if c = CHR ''.'' then (takeWhile is_digit cs, dropWhile is_digit cs) else ([], r)
             | [] \<Rightarrow> ([], []))
         in if ip @ fp = [] then None
            else (case parse_exponent r' of
                None \<Rightarrow> None
              | Some e \<Rightarrow>
                  (let x = scale10 (digits_value 0 (ip @ fp)) (e - int (length fp))
                   in Some (Fin (if neg then - x else x))))))"

section \<open>Prometheus\<close>

datatype json = JNull | JBool bool | JNum float64 | JStr string | JArr | JObj

type_synonym prometheusResponse = "((string, string) gomap \<times> json list) list"

datatype http_reply =
    BadRequest                     \<comment> \<open>\<open>http.NewRequest\<close> fails\<close>
  | NoResponse                     \<comment> \<open>\<open>Client.Do\<close> fails\<close>
  | Reply int "string + prometheusResponse"   \<comment> \<open>the status code and the body or the failure to read it\<close>

definition getFloat :: "json \<Rightarrow> float64 go" where
  \<comment> \<open>only a string converts; the reflection panics on the nil interface\<close>
  "getFloat unk =
     (case unk of
        JNull \<Rightarrow> Inl InvalidArgument
      | JStr s \<Rightarrow> (case ParseFloat s of None \<Rightarrow> Inr (- 1) | Some val \<Rightarrow> Inr val)
      | _ \<Rightarrow> Inr (- 1))"

definition round_factor :: float64 where
  "round_factor = 1000"

definition build_query :: "Profile \<Rightarrow> Intent \<Rightarrow> string option go" where
  \<comment> \<open>the query, or None for the early return\<close>
  "build_query profile objective =
     (if External profile then Inr (Some (Query profile))
      else if CHR ''/'' \<notin> set (TargetKey objective) \<and> count_list (TargetKey objective) (CHR ''/'') \<noteq> 1
      then Inr None
      else
        (let tmp = split_on (CHR ''/'') (TargetKey objective); kind = to_lower (TargetKind objective) in
         bindG (nthG tmp 0) (\<lambda>t0. bindG (nthG tmp 1) (\<lambda>t1.
           Inr (Some (Sprintf (Query profile) [t0, kind, t1, kind]))))))"

definition query_result :: "prometheusResponse \<Rightarrow> float64 option go" where
  \<comment> \<open>the rounded value of the first result, if there is one\<close>
  "query_result result =
     (case result of
        [] \<Rightarrow> Inr None
      | (_, vals) # _ \<Rightarrow>
          bindG (nthG vals 1) (\<lambda>v. bindG (getFloat v) (\<lambda>val.
            let val' = (if is_nan val then - 1 else val)
            in Inr (Some (fround (val' * round_factor) / round_factor)))))"

definition reply_value :: "http_reply \<Rightarrow> float64 go" where
  "reply_value reply =
     (case reply of
        Reply status body \<Rightarrow>
          if status = 200 then
            (case body of
               Inl _ \<Rightarrow> Inr (- 1)
             | Inr result \<Rightarrow>
                 bindG (query_result result) (\<lambda>r. case r of None \<Rightarrow> Inr (- 1) | Some val \<Rightarrow> Inr val))
          else Inr (- 1)
      | _ \<Rightarrow> Inr (- 1))"

definition query_body :: "(string \<Rightarrow> http_reply) \<Rightarrow> Profile \<Rightarrow> Intent \<Rightarrow> float64 go" where
  "query_body http profile objective =
     bindG (build_query profile objective) (\<lambda>q.
       case q of
         None \<Rightarrow> Inr (- 1)
       | Some query \<Rightarrow> reply_value (http (Address profile @ ''?query='' @ QueryEscape query)))"

definition doQuery :: "(string \<Rightarrow> http_reply) \<Rightarrow> Profile \<Rightarrow> Intent \<Rightarrow> float64" where
  \<comment> \<open>the deferred \<open>recover\<close> turns a panic into the zero value\<close>
  "doQuery http profile objective =
     (case query_body http profile objective of Inl _ \<Rightarrow> 0 | Inr val \<Rightarrow> val)"

definition telemetry_entry ::
  "string \<Rightarrow> (string, string) gomap \<times> json list \<Rightarrow> (string, float64) gomap \<Rightarrow> (string, float64) gomap go" where
  "telemetry_entry hostLabel = (\<lambda>(metric, vals) ret.
     bindG (nthG vals 1) (\<lambda>val. bindG (getFloat val) (\<lambda>v. mput ret (mget '''' metric hostLabel) v)))"

definition getHostTelemetry ::
  "(string \<Rightarrow> http_reply) \<Rightarrow> string \<Rightarrow> string \<Rightarrow> string list \<Rightarrow> string \<Rightarrow> (string, float64) gomap go" where
  \<comment> \<open>no recovery here: a panic reaches the worker\<close>
  "getHostTelemetry http endpoint query hosts hostLabel =
     (let queryString = Sprintf query [join_with (CHR ''|'') hosts] in
      case http (endpoint @ ''?query='' @ QueryEscape queryString) of
        Reply status body \<Rightarrow>
          if status = 200 then
            (case body of Inl _ \<Rightarrow> Inr mmake | Inr result \<Rightarrow> foldG (telemetry_entry hostLabel) result mmake)
          else Inr mmake
      | _ \<Rightarrow> Inr mmake)"

section \<open>Availability\<close>

definition Sub :: "int \<Rightarrow> int \<Rightarrow> int" where
  \<comment> \<open>\<open>time.Time.Sub\<close> saturates\<close>
  "Sub t u = max (- (2 ^ 63)) (min (2 ^ 63 - 1) (t - u))"

definition Seconds :: "int \<Rightarrow> float64" where
  "Seconds d = Fin (real_of_int d / 10 ^ 9)"

definition average :: "float64 list \<Rightarrow> float64" where
  "average numbs = fold (\<lambda>item total. total + item) numbs 0 / float_of_nat (length numbs)"

fun failure_times :: "PodError list \<Rightarrow> int \<Rightarrow> float64 list \<times> float64 list \<Rightarrow> int \<times> float64 list \<times> float64 list" where
  \<comment> \<open>the loop of \<open>podAvailability\<close>: the end of the last failure, and \<open>tbf\<close> and \<open>ttr\<close> so far\<close>
  "failure_times [] lastFailure (tbf, ttr) = (lastFailure, tbf, ttr)"
| "failure_times (failure # rest) lastFailure (tbf, ttr) =
     failure_times rest (End failure)
       (tbf @ [Seconds (Sub (Start failure) lastFailure)], ttr @ [Seconds (Sub (End failure) (Start failure))])"

definition podAvailability :: "PodError list \<Rightarrow> int \<Rightarrow> float64" where
  "podAvailability podErrors now =
     (case podErrors of
        [] \<Rightarrow> 1
      | first # _ \<Rightarrow>
          (let (lastFailure, tbf, ttr) = failure_times podErrors (Created first) ([], []);
               tbf = tbf @ [Seconds (Sub now lastFailure)];
               meanTimeToRepair = average ttr;
               meanTimeBetweenFailure = average tbf
           in meanTimeBetweenFailure / (meanTimeBetweenFailure + meanTimeToRepair)))"

definition PodSetAvailability :: "(string, PodState) gomap \<Rightarrow> float64" where
  "PodSetAvailability pods =
     (if mlen pods < 1 then 1
      else 1 - fold (\<lambda>(_, v) res. res * (1 - PodAvailability v)) (entries pods) 1)"

section \<open>Availability of one pod\<close>

fun ordered_failures :: "int \<Rightarrow> PodError list \<Rightarrow> int \<Rightarrow> bool" where
  \<comment> \<open>the failures follow each other between a first point in time and now\<close>
  "ordered_failures t [] now = (t \<le> now)"
| "ordered_failures t (f # fs) now = (t \<le> Start f \<and> Start f \<le> End f \<and> ordered_failures (End f) fs now)"

fun uptime :: "int \<Rightarrow> PodError list \<Rightarrow> int \<Rightarrow> int" where
  "uptime t [] now = now - t"
| "uptime t (f # fs) now = Start f - t + uptime (End f) fs now"

definition downtime :: "PodError list \<Rightarrow> int" where
  "downtime fs = (\<Sum>f \<leftarrow> fs. End f - Start f)"

lemma uptime_downtime: "uptime t fs now + downtime fs = now - t"
  by (induction t fs now rule: uptime.induct) (auto simp: downtime_def)

lemma ordered_bounds: "ordered_failures t fs now \<Longrightarrow> t \<le> now \<and> 0 \<le> uptime t fs now \<and> 0 \<le> downtime fs"
  by (induction t fs now rule: ordered_failures.induct) (auto simp: downtime_def)

definition secs :: "int \<Rightarrow> real" where
  "secs d = real_of_int d / 10 ^ 9"

lemma Seconds_Sub: "0 \<le> t - u \<Longrightarrow> t - u < 2 ^ 63 \<Longrightarrow> Seconds (Sub t u) = Fin (secs (t - u))"
  by (simp add: Seconds_def Sub_def secs_def)

lemma secs_add: "secs (a + b) = secs a + secs b"
  by (simp add: secs_def add_divide_distrib)

lemma secs_nonneg: "0 \<le> a \<Longrightarrow> 0 \<le> secs a"
  by (simp add: secs_def)

lemma failure_times_sums:
  assumes "ordered_failures t fs now" and "now - t < 2 ^ 63"
  shows "\<exists>last xs ys. failure_times fs t (tbf, ttr) = (last, tbf @ map Fin xs, ttr @ map Fin ys) \<and>
    length xs = length fs \<and> length ys = length fs \<and> last \<le> now \<and> now - last < 2 ^ 63 \<and>
    sum_list xs + secs (now - last) = secs (uptime t fs now) \<and> sum_list ys = secs (downtime fs)"
  using assms
proof (induction t fs now arbitrary: tbf ttr rule: ordered_failures.induct)
  case (1 t now)
  then show ?case by (intro exI [of _ t] exI [of _ "[]"]) (simp add: downtime_def secs_def)
next
  case (2 t f fs now)
  then have o: "t \<le> Start f" "Start f \<le> End f" "ordered_failures (End f) fs now" by auto
  have now: "End f \<le> now" using ordered_bounds [OF o(3)] by blast
  then have "now - End f < 2 ^ 63" using o 2(3) by linarith
  from "2.IH" [OF o(3) this] obtain last xs ys where ih:
    "failure_times fs (End f) (tbf @ [Seconds (Sub (Start f) t)], ttr @ [Seconds (Sub (End f) (Start f))]) =
      (last, (tbf @ [Seconds (Sub (Start f) t)]) @ map Fin xs, (ttr @ [Seconds (Sub (End f) (Start f))]) @ map Fin ys)"
    "length xs = length fs" "length ys = length fs" "last \<le> now" "now - last < 2 ^ 63"
    "sum_list xs + secs (now - last) = secs (uptime (End f) fs now)" "sum_list ys = secs (downtime fs)"
    by blast
  have "Seconds (Sub (Start f) t) = Fin (secs (Start f - t))"
    "Seconds (Sub (End f) (Start f)) = Fin (secs (End f - Start f))"
    using o now 2(3) by (auto intro!: Seconds_Sub)
  with ih show ?case
    by (intro exI [of _ last] exI [of _ "secs (Start f - t) # xs"] exI [of _ "secs (End f - Start f) # ys"])
      (simp add: secs_add downtime_def)
qed

lemma average_Fin: "xs \<noteq> [] \<Longrightarrow> average (map Fin xs) = Fin (sum_list xs / real (length xs))"
  using fold_plus_sum_list [of "\<lambda>x. x" "map Fin xs" 0] sum_list_Fin [of "\<lambda>x. x" xs]
  by (simp add: average_def float_of_nat_def add.commute)

lemma podAvailability_real:
  assumes fs: "ordered_failures (Created (hd fs)) fs now" "now - Created (hd fs) < 2 ^ 63"
    and ne: "fs \<noteq> []" and pos: "Created (hd fs) < now"
  defines "u \<equiv> secs (uptime (Created (hd fs)) fs now) / real (length fs + 1)"
    and "d \<equiv> secs (downtime fs) / real (length fs)"
  shows "podAvailability fs now = Fin (u / (u + d))" and "0 \<le> u" and "0 \<le> d" and "0 < u + d"
proof -
  obtain last xs ys where ft: "failure_times fs (Created (hd fs)) ([], []) = (last, map Fin xs, map Fin ys)"
    "length xs = length fs" "length ys = length fs" "last \<le> now" "now - last < 2 ^ 63"
    "sum_list xs + secs (now - last) = secs (uptime (Created (hd fs)) fs now)"
    "sum_list ys = secs (downtime fs)"
    using failure_times_sums [OF fs, of "[]" "[]"] by auto
  have b: "0 \<le> uptime (Created (hd fs)) fs now" "0 \<le> downtime fs"
    using ordered_bounds [OF fs(1)] by auto
  then show nn: "0 \<le> u" "0 \<le> d" by (simp_all add: u_def d_def secs_nonneg)
  have "0 < uptime (Created (hd fs)) fs now + downtime fs" using uptime_downtime pos by simp
  then have "0 < uptime (Created (hd fs)) fs now \<or> 0 < downtime fs" using b by linarith
  then have "0 < u \<or> 0 < d" using ne by (auto simp: u_def d_def secs_def)
  with nn show sum: "0 < u + d" by linarith
  have tbf: "average (map Fin (xs @ [secs (now - last)])) = Fin u"
    using ft by (subst average_Fin) (simp_all add: u_def)
  have ttr: "average (map Fin ys) = Fin d"
    using ft ne by (subst average_Fin) (auto simp: d_def)
  have "podAvailability fs now = Fin u / (Fin u + Fin d)"
    using ne ft tbf ttr Seconds_Sub [of now last] by (cases fs) (auto simp: podAvailability_def)
  with sum show "podAvailability fs now = Fin (u / (u + d))" by simp
qed

text \<open>
  C26. The availability of a pod is the mean time between failures over its sum with the mean time to
  repair: for failures in order, it is computed from the time the pod was up and down since its
  creation, and it lies between 0 and 1; a pod without failures has availability 1.
\<close>
theorem podAvailability_meaning:
  assumes "fs \<noteq> []" and "ordered_failures (Created (hd fs)) fs now" and "Created (hd fs) < now"
    and "now - Created (hd fs) < 2 ^ 63"
  shows "podAvailability fs now =
      (let mtbf = secs (uptime (Created (hd fs)) fs now) / real (length fs + 1);
           mttr = secs (downtime fs) / real (length fs)
       in Fin (mtbf / (mtbf + mttr))) \<and>
    0 \<le> podAvailability fs now \<and> podAvailability fs now \<le> 1 \<and>
    uptime (Created (hd fs)) fs now + downtime fs = now - Created (hd fs) \<and>
    podAvailability [] now = 1"
proof -
  define u where "u = secs (uptime (Created (hd fs)) fs now) / real (length fs + 1)"
  define d where "d = secs (downtime fs) / real (length fs)"
  have p: "podAvailability fs now = Fin (u / (u + d))" "0 \<le> u" "0 \<le> d" "0 < u + d"
    using podAvailability_real [OF assms(2,4,1,3)] by (simp_all add: u_def d_def)
  have "podAvailability [] now = 1" by (simp add: podAvailability_def)
  then show ?thesis
    using p uptime_downtime unfolding u_def [symmetric] d_def [symmetric]
    by (simp add: Let_def float_consts)
qed

theorem podAvailability_meaning_witness:
  "podAvailability [\<lparr>ErrorKey = ''ns/pod'', Start = 3000000000, End = 4000000000, Created = 1000000000\<rparr>] 6000000000
     = Fin (2 / 3)"
  using podAvailability_meaning [of "[\<lparr>ErrorKey = ''ns/pod'', Start = 3000000000, End = 4000000000,
      Created = 1000000000\<rparr>]" 6000000000]
  by (simp add: secs_def downtime_def)

section \<open>Availability of a set of pods\<close>

definition availabilities_ok :: "(string, PodState) gomap \<Rightarrow> bool" where
  "availabilities_ok pods \<longleftrightarrow>
     list_all (\<lambda>(_, v). finite_float (PodAvailability v) \<and> 0 \<le> PodAvailability v \<and> PodAvailability v \<le> 1)
       (entries pods)"

definition unavailability :: "(string \<times> PodState) list \<Rightarrow> real" where
  \<comment> \<open>the probability that no pod is available\<close>
  "unavailability kvs = (\<Prod>(_, v) \<leftarrow> kvs. 1 - real_of (PodAvailability v))"

lemma unavailability_Cons: "unavailability (kv # kvs) = (1 - real_of (PodAvailability (snd kv))) * unavailability kvs"
  by (simp add: unavailability_def split_beta)

lemma PodSetAvailability_fold:
  assumes "\<forall>(_, v) \<in> set kvs. finite_float (PodAvailability v)"
  shows "fold (\<lambda>(_, v) res. res * (1 - PodAvailability v)) kvs (Fin r) = Fin (r * unavailability kvs)"
  using assms
  by (induction kvs arbitrary: r)
    (auto simp: unavailability_def finite_float_def float_consts mult.assoc)

lemma unavailability_bounds:
  assumes "\<forall>(_, v) \<in> set kvs. finite_float (PodAvailability v) \<and> 0 \<le> PodAvailability v \<and> PodAvailability v \<le> 1"
  shows "0 \<le> unavailability kvs \<and> unavailability kvs \<le> 1 \<and>
    (\<forall>(_, v) \<in> set kvs. unavailability kvs \<le> 1 - real_of (PodAvailability v))"
  using assms
proof (induction kvs)
  case Nil
  then show ?case by (simp add: unavailability_def)
next
  case (Cons kv kvs)
  obtain k v where kv: "kv = (k, v)" by (cases kv)
  obtain a where a: "PodAvailability v = Fin a" "0 \<le> a" "a \<le> 1"
    using Cons.prems kv by (auto simp: finite_float_def float_consts)
  have ih: "0 \<le> unavailability kvs" "unavailability kvs \<le> 1"
    "\<forall>(_, v) \<in> set kvs. unavailability kvs \<le> 1 - real_of (PodAvailability v)"
    using Cons by auto
  have step: "unavailability (kv # kvs) = (1 - a) * unavailability kvs"
    using a by (simp add: unavailability_Cons kv)
  have "(1 - a) * unavailability kvs \<le> 1 - a"
    using a ih by (simp add: mult_left_le)
  moreover have le: "(1 - a) * unavailability kvs \<le> unavailability kvs"
    using a ih by (simp add: mult_left_le_one_le)
  ultimately show ?case using ih a step kv by (fastforce simp: mult_nonneg_nonneg)
qed

lemma PodSetAvailability_real:
  assumes "availabilities_ok pods" and "mlen pods \<noteq> 0"
  shows "PodSetAvailability pods = Fin (1 - unavailability (entries pods))"
  using PodSetAvailability_fold [of "entries pods" 1] assms
  by (auto simp: PodSetAvailability_def availabilities_ok_def list_all_iff float_consts split_beta)

text \<open>
  The availability of a set of pods is the probability that at least one of them is available: it
  lies between 0 and 1, no pod of the set is more available than the set, a further pod never makes
  it smaller, and an empty set counts as available.
\<close>
theorem PodSetAvailability_meaning:
  assumes "availabilities_ok (Some (kv # kvs))"
  shows "PodSetAvailability (Some (kv # kvs)) = Fin (1 - unavailability (kv # kvs)) \<and>
    0 \<le> PodSetAvailability (Some (kv # kvs)) \<and> PodSetAvailability (Some (kv # kvs)) \<le> 1 \<and>
    (\<forall>(_, v) \<in> set (kv # kvs). PodAvailability v \<le> PodSetAvailability (Some (kv # kvs))) \<and>
    (kvs \<noteq> [] \<longrightarrow> PodSetAvailability (Some kvs) \<le> PodSetAvailability (Some (kv # kvs))) \<and>
    PodSetAvailability None = 1"
proof -
  have ok: "\<forall>(_, v) \<in> set (kv # kvs). finite_float (PodAvailability v) \<and> 0 \<le> PodAvailability v \<and> PodAvailability v \<le> 1"
    using assms by (auto simp: availabilities_ok_def list_all_iff)
  note b = unavailability_bounds [OF ok]
  have real: "PodSetAvailability (Some (kv # kvs)) = Fin (1 - unavailability (kv # kvs))"
    using PodSetAvailability_real [OF assms] by simp
  have each: "PodAvailability v \<le> Fin (1 - unavailability (kv # kvs))" if "(k, v) \<in> set (kv # kvs)" for k v
    using b ok that by (fastforce simp: finite_float_def)
  have more: "PodSetAvailability (Some kvs) \<le> Fin (1 - unavailability (kv # kvs))" if "kvs \<noteq> []"
  proof -
    have ok': "\<forall>(_, v) \<in> set kvs. finite_float (PodAvailability v) \<and> 0 \<le> PodAvailability v \<and> PodAvailability v \<le> 1"
      using ok by auto
    obtain a where "PodAvailability (snd kv) = Fin a" "0 \<le> a" "a \<le> 1"
      using ok by (cases kv) (auto simp: finite_float_def float_consts)
    then have "unavailability (kv # kvs) \<le> unavailability kvs"
      using unavailability_bounds [OF ok'] by (simp add: unavailability_Cons mult_left_le_one_le)
    moreover have "PodSetAvailability (Some kvs) = Fin (1 - unavailability kvs)"
      using PodSetAvailability_real [of "Some kvs"] ok' that
      by (simp add: availabilities_ok_def list_all_iff)
    ultimately show ?thesis by simp
  qed
  show ?thesis
    unfolding real using b each more by (auto simp: PodSetAvailability_def float_consts)
qed

theorem PodSetAvailability_meaning_witness:
  "PodSetAvailability (Some [(''a'', zero_PodState\<lparr>PodAvailability := Fin (1 / 2)\<rparr>),
     (''b'', zero_PodState\<lparr>PodAvailability := Fin (1 / 2)\<rparr>)]) = Fin (3 / 4)"
proof -
  have "availabilities_ok (Some [(''a'', zero_PodState\<lparr>PodAvailability := Fin (1 / 2)\<rparr>),
     (''b'', zero_PodState\<lparr>PodAvailability := Fin (1 / 2)\<rparr>)])"
    by (simp add: availabilities_ok_def float_consts)
  from PodSetAvailability_meaning [OF this] show ?thesis
    by (simp add: unavailability_def)
qed

section \<open>Queries\<close>

lemma fround_error: "\<exists>b. fround (Fin a) = Fin b \<and> \<bar>b - a\<bar> \<le> 1 / 2"
proof -
  have "\<bar>of_int \<lfloor>x + 1 / 2\<rfloor> - x\<bar> \<le> 1 / 2" for x :: real by linarith
  note this [of a] this [of "- a"]
  then have "\<bar>- of_int \<lfloor>- a + 1 / 2\<rfloor> - a\<bar> \<le> 1 / 2" "\<bar>of_int \<lfloor>a + 1 / 2\<rfloor> - a\<bar> \<le> 1 / 2" by linarith+
  then show ?thesis by simp
qed

lemma fround_not_nan: "fround x = NaN \<longleftrightarrow> x = NaN"
  by (cases x) auto

text \<open>
  A measured value is rounded to three decimals and changed by nothing else: when Prometheus
  answers with a number, \<open>doQuery\<close> returns a number at most half a thousandth away from it.
\<close>
theorem doQuery_rounds:
  assumes "build_query profile objective = Inr (Some query)"
    and "http (Address profile @ ''?query='' @ QueryEscape query) = Reply 200 (Inr ((metric, time # JStr s # vals) # rest))"
    and "ParseFloat s = Some (Fin r)"
  shows "\<exists>y. doQuery http profile objective = Fin y \<and> \<bar>y - r\<bar> \<le> 1 / 2000"
proof -
  obtain b where b: "fround (Fin (r * 1000)) = Fin b" "\<bar>b - r * 1000\<bar> \<le> 1 / 2"
    using fround_error by blast
  have "doQuery http profile objective = Fin (b / 1000)"
    using assms b(1)
    by (simp add: doQuery_def query_body_def reply_value_def query_result_def getFloat_def nthG_def Let_def
        round_factor_def is_nan_def del: fround.simps)
  moreover have "\<bar>b / 1000 - r\<bar> \<le> 1 / 2000" using b(2) by (simp add: abs_le_iff field_simps)
  ultimately show ?thesis by blast
qed

theorem doQuery_rounds_witness:
  "\<exists>y. doQuery (\<lambda>_. Reply 200 (Inr [(None, [JNum 1, JStr ''1.2344''])]))
      (zero_Profile\<lparr>External := True, Query := ''up''\<rparr>) zero_Intent = Fin y \<and> \<bar>y - 12344 / 10000\<bar> \<le> 1 / 2000"
proof -
  have "ParseFloat ''1.2344'' = Some (Fin (12344 / 10000))"
    by (simp add: ParseFloat_def split_sign_def to_lower_def lower_char_def is_digit_def Let_def
        parse_exponent_def scale10_def digit_value_def)
  moreover have "build_query (zero_Profile\<lparr>External := True, Query := ''up''\<rparr>) zero_Intent = Inr (Some ''up'')"
    by (simp add: build_query_def)
  ultimately show ?thesis by (intro doQuery_rounds) auto
qed

text \<open>
  No failure of a measurement yields NaN: \<open>doQuery\<close> never returns NaN, returns -1 whenever the
  service cannot be reached or does not answer with status 200, and 0 exactly where the code panics and
  recovers.
\<close>
theorem doQuery_failures:
  "doQuery http profile objective \<noteq> NaN \<and>
   (\<forall>query. build_query profile objective = Inr (Some query) \<longrightarrow>
      (case http (Address profile @ ''?query='' @ QueryEscape query) of
         Reply status _ \<Rightarrow> status \<noteq> 200 | _ \<Rightarrow> True) \<longrightarrow> doQuery http profile objective = - 1) \<and>
   (\<forall>p. query_body http profile objective = Inl p \<longrightarrow> doQuery http profile objective = 0)"
proof -
  have m1: "(- 1 :: float64) \<noteq> NaN" "(0 :: float64) \<noteq> NaN" by (simp_all add: float_consts)
  have "query_result result = Inr (Some v) \<Longrightarrow> v \<noteq> NaN" for result v
  proof (cases result)
    case (Cons entry rest)
    obtain metric vals where "entry = (metric, vals)" by (cases entry)
    moreover assume "query_result result = Inr (Some v)"
    ultimately obtain val where v: "v = fround ((if is_nan val then - 1 else val) * round_factor) / round_factor"
      using Cons by (auto simp: query_result_def bindG_eq_Inr Let_def)
    define w where "w = (if is_nan val then - 1 else val)"
    have "w \<noteq> NaN" by (simp add: w_def is_nan_def float_consts)
    then have "fround (w * round_factor) / round_factor \<noteq> NaN"
      by (cases w) (auto simp: round_factor_def signed_inf_def)
    then show ?thesis by (simp add: v w_def)
  qed (simp add: query_result_def)
  then have "reply_value reply = Inr v \<Longrightarrow> v \<noteq> NaN" for reply v
    using m1 by (auto simp: reply_value_def bindG_eq_Inr split: option.splits http_reply.splits sum.splits if_splits)
  then have "query_body http profile objective = Inr v \<Longrightarrow> v \<noteq> NaN" for v
    using m1 by (auto simp: query_body_def bindG_eq_Inr split: option.splits simp del: append_Cons append.simps)
  then have "doQuery http profile objective \<noteq> NaN" using m1 by (simp add: doQuery_def split: sum.splits)
  moreover have "doQuery http profile objective = - 1"
    if "build_query profile objective = Inr (Some query)"
      "case http (Address profile @ ''?query='' @ QueryEscape query) of
         Reply status _ \<Rightarrow> status \<noteq> 200 | _ \<Rightarrow> True" for query
    using that
    by (cases "http (Address profile @ ''?query='' @ QueryEscape query)")
      (simp_all add: doQuery_def query_body_def reply_value_def)
  moreover have "doQuery http profile objective = 0" if "query_body http profile objective = Inl p" for p
    using that by (simp add: doQuery_def)
  ultimately show ?thesis by blast
qed

theorem doQuery_failures_witness:
  "doQuery (\<lambda>_. NoResponse) (zero_Profile\<lparr>External := True, Query := ''up''\<rparr>) zero_Intent = - 1"
proof -
  have "build_query (zero_Profile\<lparr>External := True, Query := ''up''\<rparr>) zero_Intent = Inr (Some ''up'')"
    by (simp add: build_query_def)
  then show ?thesis
    using doQuery_failures [of "\<lambda>_. NoResponse" "zero_Profile\<lparr>External := True, Query := ''up''\<rparr>" zero_Intent]
    by simp
qed

end
