(* ===== verification/Kubernetes.thy ===== *)
theory Kubernetes
  imports Common_Types
begin

text \<open>
  What the program sees of Kubernetes: the fields it reads and writes of pods and
  of the two kinds of workloads, and the API calls \<open>Get\<close>, \<open>Update\<close> and
  \<open>Delete\<close>.  An \<open>Update\<close> can be refused, or fail with a conflict because
  another client changed the object first; \<open>outcomes\<close> says what happens to the
  next calls, so a statement about all outcomes is one about all behaviours of
  the server and of the other clients.  \<open>retry_on_conflict\<close> is
  \<open>retry.RetryOnConflict\<close> with \<open>DefaultRetry\<close>, which makes five attempts.
\<close>

section \<open>Objects\<close>

record container =
  requests :: "(string, int64) gomap"   \<comment> \<open>in thousandths, by the name of the resource\<close>
  limits :: "(string, int64) gomap"

record pod =
  pod_name :: string
  pod_annotations :: "(string, string) gomap"
  pod_containers :: "container list"
  pod_node :: string
  pod_phase :: string
  pod_qos :: string

record workload =
  replicas :: "int32 option"            \<comment> \<open>a pointer\<close>
  selector :: "(string, string) gomap"
  template_annotations :: "(string, string) gomap"
  template_containers :: "container list"

datatype kind = Deployment | ReplicaSet

datatype outcome = Accepted | Conflict "workload \<Rightarrow> workload" | Refused

datatype api_error = NotFound | IsConflict | OtherError

record cluster =
  workloads :: "kind \<Rightarrow> string \<times> string \<Rightarrow> workload option"
  deleted_pods :: "(string \<times> string) list"
  outcomes :: "outcome list"

section \<open>Calls\<close>

definition Get :: "kind \<Rightarrow> string \<times> string \<Rightarrow> cluster \<Rightarrow> workload option" where
  "Get knd key c = workloads c knd key"

definition store :: "kind \<Rightarrow> string \<times> string \<Rightarrow> workload \<Rightarrow> cluster \<Rightarrow> cluster" where
  "store knd key w c = c\<lparr>workloads := (workloads c)(knd := (workloads c knd)(key \<mapsto> w))\<rparr>"

definition Update :: "kind \<Rightarrow> string \<times> string \<Rightarrow> workload \<Rightarrow> cluster \<Rightarrow> cluster \<times> api_error option" where
  "Update knd key w c =
     (let c' = c\<lparr>outcomes := tl (outcomes c)\<rparr>;
          next = (if outcomes c = [] then Accepted else hd (outcomes c)) in
      case next of
        Accepted \<Rightarrow> (store knd key w c', None)
      | Refused \<Rightarrow> (c', Some OtherError)
      | Conflict f \<Rightarrow>
          ((case workloads c knd key of None \<Rightarrow> c' | Some old \<Rightarrow> store knd key (f old) c'), Some IsConflict))"

definition DeletePod :: "string \<Rightarrow> string \<Rightarrow> cluster \<Rightarrow> cluster \<times> api_error option" where
  "DeletePod namespace name c =
     (let c' = c\<lparr>outcomes := tl (outcomes c)\<rparr>;
          next = (if outcomes c = [] then Accepted else hd (outcomes c)) in
      case next of
        Accepted \<Rightarrow> (c'\<lparr>deleted_pods := deleted_pods c @ [(namespace, name)]\<rparr>, None)
      | Refused \<Rightarrow> (c', Some OtherError)
      | Conflict _ \<Rightarrow> (c', Some IsConflict))"

fun retry_on_conflict ::
  "nat \<Rightarrow> (cluster \<Rightarrow> (cluster \<times> api_error option) go) \<Rightarrow> cluster \<Rightarrow> (cluster \<times> api_error option) go" where
  "retry_on_conflict 0 fn c = Inr (c, Some IsConflict)"
| "retry_on_conflict (Suc n) fn c =
     bindG (fn c) (\<lambda>(c', err).
       if err = Some IsConflict then retry_on_conflict n fn c' else Inr (c', err))"

definition DefaultRetry :: nat where
  "DefaultRetry = 5"

definition kind_of :: "string \<Rightarrow> kind option" where
  "kind_of s = (if s = ''Deployment'' then Some Deployment else if s = ''ReplicaSet'' then Some ReplicaSet else None)"

section \<open>Facts\<close>

lemma Get_store [simp]:
  "Get knd' key' (store knd key w c) = (if knd' = knd \<and> key' = key then Some w else Get knd' key' c)"
  by (auto simp: Get_def store_def)

lemma store_fields [simp]:
  "outcomes (store knd key w c) = outcomes c" "deleted_pods (store knd key w c) = deleted_pods c"
  by (simp_all add: store_def)

lemma Get_outcomes [simp]: "Get knd key (c\<lparr>outcomes := os\<rparr>) = Get knd key c"
  by (simp add: Get_def)

lemma Update_accepted:
  "outcomes c = [] \<or> hd (outcomes c) = Accepted \<Longrightarrow>
     Update knd key w c = (store knd key w (c\<lparr>outcomes := tl (outcomes c)\<rparr>), None)"
  by (auto simp: Update_def Let_def)

lemma DeletePod_quiet:
  "outcomes c = [] \<Longrightarrow> DeletePod namespace name c = (c\<lparr>deleted_pods := deleted_pods c @ [(namespace, name)]\<rparr>, None)"
  by (cases c) (simp add: DeletePod_def Let_def)

lemma Update_others:
  "(knd', key') \<noteq> (knd, key) \<Longrightarrow> Get knd' key' (fst (Update knd key w c)) = Get knd' key' c"
  by (auto simp: Update_def Let_def split: outcome.splits option.splits)

lemma Update_deleted [simp]: "deleted_pods (fst (Update knd key w c)) = deleted_pods c"
  by (auto simp: Update_def Let_def split: outcome.splits option.splits)

definition interferences :: "outcome list \<Rightarrow> (workload \<Rightarrow> workload) list \<Rightarrow> outcome list \<Rightarrow> bool" where
  \<comment> \<open>the outcomes start with conflicts, caused by these changes of other clients, and an acceptance\<close>
  "interferences os fs rest \<longleftrightarrow> os = map Conflict fs @ Accepted # rest"

lemma retry_read_modify_write_on:
  \<comment> \<open>\<open>fn\<close> updates what it reads with \<open>m\<close>, as long as it reads a workload with \<open>Q\<close>, which the others keep\<close>
  assumes "interferences (outcomes c) fs rest" and "length fs < n"
    and "Get knd key c = Some w" and "Q w" and keep: "\<And>f v. f \<in> set fs \<Longrightarrow> Q v \<Longrightarrow> Q (f v)"
    and fn: "\<And>d v. Get knd key d = Some v \<Longrightarrow> Q v \<Longrightarrow> fn d = Inr (Update knd key (m v) d)"
  shows "\<exists>c'. retry_on_conflict n fn c = Inr (c', None) \<and>
    Get knd key c' = Some (m (fold (\<lambda>f. f) fs w)) \<and> outcomes c' = rest \<and> deleted_pods c' = deleted_pods c \<and>
    (\<forall>knd' key'. (knd', key') \<noteq> (knd, key) \<longrightarrow> Get knd' key' c' = Get knd' key' c)"
  using assms(1-5)
proof (induction fs arbitrary: n c w)
  case Nil
  then obtain n' where n: "n = Suc n'" by (cases n) auto
  have "Update knd key (m w) c = (store knd key (m w) (c\<lparr>outcomes := rest\<rparr>), None)"
    using Nil by (simp add: interferences_def Update_accepted)
  with fn [OF Nil(3,4)] n show ?case by (auto simp: bindG_def)
next
  case (Cons f fs)
  then obtain n' where n: "n = Suc n'" by (cases n) auto
  let ?d = "store knd key (f w) (c\<lparr>outcomes := map Conflict fs @ Accepted # rest\<rparr>)"
  have "Update knd key (m w) c = (?d, Some IsConflict)"
    using Cons.prems by (simp add: interferences_def Update_def Get_def)
  then have "retry_on_conflict n fn c = retry_on_conflict n' fn ?d"
    using fn [OF Cons.prems(3,4)] n by simp
  moreover have "interferences (outcomes ?d) fs rest" by (simp add: interferences_def)
  moreover have "Q (f w)" using Cons.prems(4,5) by simp
  ultimately show ?case
    using Cons.IH [of ?d n' "f w"] Cons.prems(2,5) n by auto
qed

lemmas retry_read_modify_write = retry_read_modify_write_on [where Q = "\<lambda>_. True", simplified]

end
