(* ===== verification/Actuators.thy ===== *)
theory Actuators
  imports State_Graph Kpi Kubernetes
begin

text \<open>
  \<^verbatim>\<open>pkg/planner/actuators/types.go\<close>: the interface of the actuators.  The
  planner calls \<open>NextState\<close>, which proposes follow-up states with a utility and
  an action for each, and later \<open>Perform\<close>, which changes the cluster.  The locale
  \<open>actuator\<close> is the contract the planner relies on, relative to an invariant of
  the states it plans with and to an assumption on the goal and the profiles; it
  is interpreted on the actuators of the repository.
\<close>

section \<open>The interface\<close>

type_synonym proposal = "State list \<times> float64 list \<times> Action list"

type_synonym next_state = "State \<Rightarrow> State \<Rightarrow> profiles \<Rightarrow> proposal go"

definition no_proposal :: proposal where
  "no_proposal = ([], [], [])"

definition is_latency :: "profiles \<Rightarrow> string \<Rightarrow> bool" where
  "is_latency profiles k \<longleftrightarrow> type_of profiles k = ProfileTypeFromText ''latency''"

definition is_availability :: "profiles \<Rightarrow> string \<Rightarrow> bool" where
  "is_availability profiles k \<longleftrightarrow> type_of profiles k = ProfileTypeFromText ''availability''"

definition is_throughput :: "profiles \<Rightarrow> string \<Rightarrow> bool" where
  "is_throughput profiles k \<longleftrightarrow> type_of profiles k = ProfileTypeFromText ''throughput''"

definition is_power :: "profiles \<Rightarrow> string \<Rightarrow> bool" where
  "is_power profiles k \<longleftrightarrow> type_of profiles k = ProfileTypeFromText ''power''"

definition set_objective :: "string \<Rightarrow> float64 \<Rightarrow> State \<Rightarrow> State go" where
  \<comment> \<open>\<open>s.Intent.Objectives[k] = v\<close>\<close>
  "set_objective k v s =
     bindG (mput (objectives s) k v) (\<lambda>m. Inr (s\<lparr>IntentOf := (IntentOf s)\<lparr>Objectives := m\<rparr>\<rparr>))"

definition set_pod :: "string \<Rightarrow> PodState \<Rightarrow> State \<Rightarrow> State go" where
  \<comment> \<open>\<open>s.CurrentPods[k] = v\<close>\<close>
  "set_pod k v s = bindG (mput (CurrentPods s) k v) (\<lambda>m. Inr (s\<lparr>CurrentPods := m\<rparr>))"

definition set_data :: "string \<Rightarrow> (string, float64) gomap \<Rightarrow> State \<Rightarrow> State go" where
  \<comment> \<open>\<open>s.CurrentData[k] = v\<close>\<close>
  "set_data k v s = bindG (mput (CurrentData s) k v) (\<lambda>m. Inr (s\<lparr>CurrentData := m\<rparr>))"

definition set_resource :: "string \<Rightarrow> int64 \<Rightarrow> State \<Rightarrow> State go" where
  \<comment> \<open>\<open>s.Resources[k] = v\<close>\<close>
  "set_resource k v s = bindG (mput (Resources s) k v) (\<lambda>m. Inr (s\<lparr>Resources := m\<rparr>))"

section \<open>The contract\<close>

definition proposal_ok :: "(State \<Rightarrow> bool) \<Rightarrow> proposal go \<Rightarrow> bool" where
  \<comment> \<open>no panic, one utility and one action for each state, no utility negative or infinite\<close>
  "proposal_ok ok r \<longleftrightarrow>
     (case r of
        Inl _ \<Rightarrow> False
      | Inr (cs, us, as) \<Rightarrow>
          length us = length cs \<and> length as = length cs \<and>
          list_all (\<lambda>u. finite_float u \<and> 0 \<le> u) us \<and> list_all ok cs)"

definition well_behaved :: "(State \<Rightarrow> bool) \<Rightarrow> State \<Rightarrow> profiles \<Rightarrow> next_state \<Rightarrow> bool" where
  "well_behaved ok goal profiles act \<longleftrightarrow> (\<forall>s. ok s \<longrightarrow> proposal_ok ok (act s goal profiles))"

lemma proposal_okI:
  "r = Inr (cs, us, as) \<Longrightarrow> length us = length cs \<Longrightarrow> length as = length cs \<Longrightarrow>
     (\<And>u. u \<in> set us \<Longrightarrow> finite_float u \<and> 0 \<le> u) \<Longrightarrow> (\<And>c. c \<in> set cs \<Longrightarrow> ok c) \<Longrightarrow> proposal_ok ok r"
  by (simp add: proposal_ok_def list_all_iff)

lemma no_proposal_ok [simp]: "proposal_ok ok (Inr no_proposal)"
  by (simp add: proposal_ok_def no_proposal_def)

locale actuator =
  fixes next_state :: next_state and ok :: "State \<Rightarrow> bool" and planning_for :: "State \<Rightarrow> profiles \<Rightarrow> bool"
  assumes no_panic: "ok s \<Longrightarrow> planning_for goal profiles \<Longrightarrow>
      \<exists>cs us as. next_state s goal profiles = Inr (cs, us, as)"
    and same_length: "ok s \<Longrightarrow> planning_for goal profiles \<Longrightarrow> next_state s goal profiles = Inr (cs, us, as) \<Longrightarrow>
      length us = length cs \<and> length as = length cs"
    and utility_ok: "ok s \<Longrightarrow> planning_for goal profiles \<Longrightarrow> next_state s goal profiles = Inr (cs, us, as) \<Longrightarrow>
      u \<in> set us \<Longrightarrow> finite_float u \<and> 0 \<le> u"
    and keeps_inv: "ok s \<Longrightarrow> planning_for goal profiles \<Longrightarrow> next_state s goal profiles = Inr (cs, us, as) \<Longrightarrow>
      c \<in> set cs \<Longrightarrow> ok c"
begin

lemma proposes: "ok s \<Longrightarrow> planning_for goal profiles \<Longrightarrow> proposal_ok ok (next_state s goal profiles)"
  using no_panic [of s goal profiles]
  by (auto intro!: proposal_okI dest: same_length utility_ok keeps_inv)

lemma behaves: "planning_for goal profiles \<Longrightarrow> well_behaved ok goal profiles next_state"
  by (simp add: well_behaved_def proposes)

end

lemma actuatorI:
  \<comment> \<open>the contract from the single predicate on proposals\<close>
  assumes "\<And>s goal profiles. ok s \<Longrightarrow> env goal profiles \<Longrightarrow> proposal_ok ok (act s goal profiles)"
  shows "actuator act ok env"
proof
  fix s goal profiles
  assume a: "ok s" "env goal profiles"
  note contract = assms [OF a, unfolded proposal_ok_def]
  show "\<exists>cs us as. act s goal profiles = Inr (cs, us, as)"
    using contract by (cases "act s goal profiles") auto
  fix cs us as
  assume r: "act s goal profiles = Inr (cs, us, as)"
  show "length us = length cs \<and> length as = length cs" using contract r by simp
  show "finite_float u \<and> 0 \<le> u" if "u \<in> set us" for u using contract r that by (simp add: list_all_iff)
  show "ok c" if "c \<in> set cs" for c using contract r that by (simp add: list_all_iff)
qed

lemma well_behavedE:
  assumes "well_behaved ok goal ps act" and "ok s"
  obtains cs us as where "act s goal ps = Inr (cs, us, as)" "length us = length cs" "length as = length cs"
    "\<And>u. u \<in> set us \<Longrightarrow> \<exists>w. 0 \<le> w \<and> u = Fin w" "\<And>c. c \<in> set cs \<Longrightarrow> ok c"
proof -
  have "proposal_ok ok (act s goal ps)" using assms by (simp add: well_behaved_def)
  then obtain cs us as where r: "act s goal ps = Inr (cs, us, as)" "length us = length cs"
      "length as = length cs" "\<forall>u \<in> set us. finite_float u \<and> 0 \<le> u" "\<forall>c \<in> set cs. ok c"
    by (auto simp: proposal_ok_def list_all_iff split: sum.splits)
  have "\<exists>w. 0 \<le> w \<and> u = Fin w" if "u \<in> set us" for u
    using r(4) that by (cases u) (auto simp: finite_float_def float_consts)
  with r show thesis using that by blast
qed

section \<open>Writing to a copy of a state\<close>

lemma text_types [simp]:
  "ProfileTypeFromText ''latency'' = Latency" "ProfileTypeFromText ''availability'' = Availability"
  "ProfileTypeFromText ''throughput'' = Throughput" "ProfileTypeFromText ''power'' = Power"
  by (simp_all add: ProfileTypeFromText_def to_lower_def lower_char_def)

lemma set_objective_Inr:
  "objectives s = Some kvs \<Longrightarrow>
     set_objective k v s = Inr (s\<lparr>IntentOf := (IntentOf s)\<lparr>Objectives := Some (AList.update k v kvs)\<rparr>\<rparr>)"
  by (simp add: set_objective_def)

lemma set_pod_Inr:
  "CurrentPods s = Some kvs \<Longrightarrow> set_pod k v s = Inr (s\<lparr>CurrentPods := Some (AList.update k v kvs)\<rparr>)"
  by (simp add: set_pod_def)

lemma set_data_Inr:
  "CurrentData s = Some kvs \<Longrightarrow> set_data k v s = Inr (s\<lparr>CurrentData := Some (AList.update k v kvs)\<rparr>)"
  by (simp add: set_data_def)

lemma set_resource_Inr:
  "Resources s = Some kvs \<Longrightarrow> set_resource k v s = Inr (s\<lparr>Resources := Some (AList.update k v kvs)\<rparr>)"
  by (simp add: set_resource_def)

definition writable :: "State \<Rightarrow> bool" where
  \<comment> \<open>the maps that the actuators write to are allocated\<close>
  "writable s \<longleftrightarrow> objectives s \<noteq> None \<and> CurrentPods s \<noteq> None \<and> CurrentData s \<noteq> None"

lemma writable_DeepCopy [simp]: "writable (DeepCopy s)"
  by (simp add: writable_def DeepCopy_def copy_map_def)

lemma set_objective_writable:
  assumes "writable s"
  shows "\<exists>s'. set_objective k v s = Inr s' \<and> writable s' \<and> CurrentPods s' = CurrentPods s \<and>
    CurrentData s' = CurrentData s \<and> Resources s' = Resources s \<and> Annotations s' = Annotations s \<and>
    (\<forall>j. mlookup (objectives s') j = (if j = k then Some v else mlookup (objectives s) j))"
proof -
  obtain kvs where "objectives s = Some kvs" using assms by (auto simp: writable_def)
  with assms show ?thesis by (auto simp: set_objective_Inr writable_def update_conv')
qed

lemma set_pod_writable:
  assumes "writable s"
  shows "\<exists>s'. set_pod k v s = Inr s' \<and> writable s' \<and> IntentOf s' = IntentOf s \<and>
    CurrentData s' = CurrentData s \<and> mput (CurrentPods s) k v = Inr (CurrentPods s')"
proof -
  obtain kvs where "CurrentPods s = Some kvs" using assms by (auto simp: writable_def)
  with assms show ?thesis by (auto simp: set_pod_Inr writable_def)
qed

lemma set_data_writable:
  assumes "writable s"
  shows "\<exists>s'. set_data k v s = Inr s' \<and> writable s' \<and> IntentOf s' = IntentOf s \<and>
    CurrentPods s' = CurrentPods s \<and> Resources s' = Resources s \<and> Annotations s' = Annotations s"
proof -
  obtain kvs where "CurrentData s = Some kvs" using assms by (auto simp: writable_def)
  with assms show ?thesis by (auto simp: set_data_Inr writable_def)
qed

lemmas text_kinds = is_latency_def is_availability_def is_throughput_def is_power_def

section \<open>An invariant of the pods\<close>

definition availability_ok :: "PodState \<Rightarrow> bool" where
  "availability_ok v \<longleftrightarrow> finite_float (PodAvailability v) \<and> 0 \<le> PodAvailability v \<and> PodAvailability v \<le> 1"

definition pods_ok :: "State \<Rightarrow> bool" where
  \<comment> \<open>all availabilities are probabilities, or no pod is running\<close>
  "pods_ok s \<longleftrightarrow>
     (\<forall>(_, v) \<in> set (entries (CurrentPods s)). availability_ok v) \<or>
     (\<forall>(_, v) \<in> set (entries (CurrentPods s)). Phase v \<noteq> ''Running'')"

lemma pods_ok_cong: "CurrentPods s' = CurrentPods s \<Longrightarrow> pods_ok s' = pods_ok s"
  by (simp add: pods_ok_def)

lemma pods_ok_DeepCopy [simp]: "pods_ok (DeepCopy s) = pods_ok s"
  by (simp add: pods_ok_def)

lemma availability_ok_cases:
  assumes "availability_ok v"
  obtains a where "PodAvailability v = Fin a" "0 \<le> a" "a \<le> 1"
  using assms by (auto simp: availability_ok_def finite_float_def float_consts)

lemma set_availability_ok:
  assumes "\<forall>(_, v) \<in> set (entries pods). availability_ok v"
  shows "\<exists>a. PodSetAvailability pods = Fin a \<and> 0 \<le> a \<and> a \<le> 1"
proof (cases "mlen pods = 0")
  case True
  then show ?thesis by (simp add: PodSetAvailability_def float_consts)
next
  case False
  have ok: "availabilities_ok pods" and
    ok': "\<forall>(_, v) \<in> set (entries pods). finite_float (PodAvailability v) \<and> 0 \<le> PodAvailability v \<and> PodAvailability v \<le> 1"
    using assms by (auto simp: availabilities_ok_def availability_ok_def list_all_iff)
  show ?thesis
    using PodSetAvailability_real [OF ok False] unavailability_bounds [OF ok'] by simp
qed

definition positive_priority :: "State \<Rightarrow> profiles \<Rightarrow> bool" where
  "positive_priority goal profiles \<longleftrightarrow> (\<exists>p. Priority (IntentOf goal) = Fin p \<and> 0 < p)"

section \<open>Lists of proposals\<close>

definition each_proposal :: "(State \<Rightarrow> float64 \<Rightarrow> Action \<Rightarrow> bool) \<Rightarrow> proposal \<Rightarrow> bool" where
  "each_proposal Q = (\<lambda>(cs, us, as). length us = length cs \<and> length as = length cs \<and>
     (\<forall>(c, u, a) \<in> set (zip cs (zip us as)). Q c u a))"

lemma each_proposal_none [simp]: "each_proposal Q no_proposal" "each_proposal Q ([], [], [])"
  by (simp_all add: each_proposal_def no_proposal_def)

lemma each_proposal_one [simp]: "each_proposal Q ([c], [u], [a]) \<longleftrightarrow> Q c u a"
  by (simp add: each_proposal_def)

lemma each_proposal_snoc:
  "each_proposal Q (cs, us, as) \<Longrightarrow> Q c u a \<Longrightarrow> each_proposal Q (cs @ [c], us @ [u], as @ [a])"
  by (auto simp: each_proposal_def)

lemma each_proposal_mono:
  "each_proposal Q p \<Longrightarrow> (\<And>c u a. Q c u a \<Longrightarrow> R c u a) \<Longrightarrow> each_proposal R p"
  by (auto simp: each_proposal_def)

lemma each_proposal_nth:
  "each_proposal Q (cs, us, as) \<Longrightarrow> i < length cs \<Longrightarrow> Q (cs ! i) (us ! i) (as ! i)"
  by (force simp: each_proposal_def set_zip)

lemma each_proposal_in:
  assumes "each_proposal Q (cs, us, as)"
  shows "c \<in> set cs \<Longrightarrow> \<exists>u a. Q c u a" and "u \<in> set us \<Longrightarrow> \<exists>c a. Q c u a" and "a \<in> set as \<Longrightarrow> \<exists>c u. Q c u a"
  using each_proposal_nth [OF assms] assms by (auto simp: each_proposal_def in_set_conv_nth)

lemma each_proposal_ok:
  assumes "each_proposal (\<lambda>c u a. ok c \<and> finite_float u \<and> 0 \<le> u) p"
  shows "proposal_ok ok (Inr p)"
proof (cases p)
  case (fields cs us as)
  have e: "each_proposal (\<lambda>c u a. ok c \<and> finite_float u \<and> 0 \<le> u) (cs, us, as)" using assms fields by simp
  show ?thesis
    unfolding fields
    by (rule proposal_okI [OF refl])
      (use e each_proposal_in [OF e] in \<open>auto simp: each_proposal_def\<close>)
qed

end
