(* ===== verification/Scale_Out.thy ===== *)
theory Scale_Out
  imports Actuators
begin

text \<open>
  \<^verbatim>\<open>pkg/planner/actuators/scaling/scale_out.go\<close>: the actuator that scales a
  workload out, and what the other scaling actuators share with it.  The
  knowledge base is the argument \<open>effects\<close>: what the tracer's \<open>GetEffect\<close>
  returns for an intent, a group, an objective and a look back, with None for an
  error.  The commands that \<open>Effect\<close> starts are a list of argument vectors.
\<close>

section \<open>Data\<close>

type_synonym 'e knowledge = "string \<Rightarrow> string \<Rightarrow> string \<Rightarrow> int \<Rightarrow> 'e option"

record PluginConfig =
  \<comment> \<open>the fields every actuator's configuration has\<close>
  PluginEndpoint :: string
  PluginPort :: int
  ManagerEndpoint :: string
  ManagerPort :: int
  Mongo :: string

record ScaleOutConfig = PluginConfig +
  so_PythonInterpreter :: string
  so_Script :: string
  MaxPods :: int
  so_LookBack :: int
  MaxProActiveScaleOut :: int
  ProActiveLatencyFactor :: float64

record ScaleOutEffect =
  ThroughputRange :: "float64 \<times> float64"
  ThroughputScale :: "float64 \<times> float64"
  ReplicaRange :: "int \<times> int"
  Popt :: "float64 \<times> float64 \<times> float64 \<times> float64"
  so_TrainingFeatures :: "string \<times> string"
  so_TargetFeature :: string
  so_Image :: string

definition scaleOutActionName :: string where
  "scaleOutActionName = ''scaleOut''"

definition rmPodActionName :: string where
  "rmPodActionName = ''rmPod''"

definition scalingGroupName :: string where
  "scalingGroupName = ''scaling''"

section \<open>Prediction\<close>

definition averageAvailability :: "(string, PodState) gomap \<Rightarrow> float64" where
  "averageAvailability pods =
     fold (\<lambda>(_, v) res. res + PodAvailability v) (entries pods) 0 / float_of_nat (length (entries pods))"

definition predictLatency :: "float64 \<times> float64 \<times> float64 \<times> float64 \<Rightarrow> float64 \<Rightarrow> int \<Rightarrow> float64" where
  "predictLatency popt throughput numPods =
     (if numPods = 0 \<or> feq throughput 0 then 0
      else (case popt of (p0, p1, p2, p3) \<Rightarrow>
        (p0 * fexp (p1 * throughput)) / (p2 * fexp (p3 * throughput * float_of_int numPods))))"

definition predicted_latency :: "ScaleOutEffect \<Rightarrow> State \<Rightarrow> string \<Rightarrow> State \<Rightarrow> float64" where
  \<comment> \<open>the forecast for the pods of the new state, at the throughput of the old one\<close>
  "predicted_latency res state throughputObjective newState =
     predictLatency (Popt res)
       ((mget 0 (objectives state) throughputObjective * fst (ThroughputScale res)) + snd (ThroughputScale res))
       (int (mlen (CurrentPods newState)))"

definition throughput_objective :: "State \<Rightarrow> profiles \<Rightarrow> string" where
  \<comment> \<open>the loop that looks for an objective of type throughput: the last one visited\<close>
  "throughput_objective state profiles =
     fold (\<lambda>k found. if is_throughput profiles k then k else found) (mkeys (objectives state)) ''''"

section \<open>Follow-up states\<close>

fun predict_objectives ::
  "ScaleOutConfig \<Rightarrow> ScaleOutEffect knowledge \<Rightarrow> State \<Rightarrow> State \<Rightarrow> string \<Rightarrow> profiles \<Rightarrow> string list \<Rightarrow>
   State \<times> bool \<Rightarrow> (State \<times> bool) option go" where
  \<comment> \<open>the loop over the objectives in \<open>findStates\<close>; None is the error return\<close>
  "predict_objectives cfg effects state goal tput profiles [] acc = Inr (Some acc)"
| "predict_objectives cfg effects state goal tput profiles (k # ks) (newState, found) =
     (if is_latency profiles k then
        (case effects (IntentKey (IntentOf state)) scalingGroupName k (so_LookBack cfg) of
           None \<Rightarrow> Inr None
         | Some res \<Rightarrow>
             if int (mlen (CurrentPods newState)) > snd (ReplicaRange res) then Inr None
             else bindG (set_objective k (predicted_latency res state tput newState) newState) (\<lambda>newState.
               predict_objectives cfg effects state goal tput profiles ks
                 (newState, found \<or> mget 0 (objectives newState) k \<le> mget 0 (objectives goal) k)))
      else if is_availability profiles k then
        bindG (set_objective k (PodSetAvailability (CurrentPods newState)) newState) (\<lambda>newState.
          predict_objectives cfg effects state goal tput profiles ks
            (newState, found \<or> mget 0 (objectives goal) k \<le> mget 0 (objectives newState) k))
      else predict_objectives cfg effects state goal tput profiles ks (newState, found))"

definition scale_utility :: "ScaleOutConfig \<Rightarrow> State \<Rightarrow> State \<Rightarrow> float64" where
  "scale_utility cfg goal newState =
     Fin (9 / 10) + (float_of_nat (mlen (CurrentPods newState)) / float_of_int (MaxPods cfg)) *
       (1 / Priority (IntentOf goal))"

definition scale_action :: "State \<Rightarrow> State \<Rightarrow> Action" where
  "scale_action state newState =
     \<lparr>ActionName = scaleOutActionName,
      Properties = IntProps (Some [(''factor'',
        word_of_int (int (mlen (CurrentPods newState)) - int (mlen (CurrentPods state))))])\<rparr>"

definition add_dummy :: "string \<Rightarrow> State \<Rightarrow> State go" where
  "add_dummy name s =
     set_pod name (zero_PodState\<lparr>PodAvailability := averageAvailability (CurrentPods s)\<rparr>) s"

function scale_loop ::
  "ScaleOutConfig \<Rightarrow> ScaleOutEffect knowledge \<Rightarrow> State \<Rightarrow> State \<Rightarrow> string \<Rightarrow> profiles \<Rightarrow> int \<Rightarrow> State \<Rightarrow>
   proposal \<Rightarrow> proposal option go" where
  \<comment> \<open>the loop of \<open>findStates\<close>\<close>
  "scale_loop cfg effects state goal tput profiles i lastState (candidates, utilities, actions) =
     (if i < MaxPods cfg then
        bindG (add_dummy (''dummy@'' @ itoa i) (DeepCopy lastState)) (\<lambda>newState.
        bindG (predict_objectives cfg effects state goal tput profiles (mkeys (objectives state))
                 (newState, False)) (\<lambda>r.
          case r of
            None \<Rightarrow> Inr None
          | Some (newState, found) \<Rightarrow>
              let found_so_far =
                (if found then (candidates @ [newState], utilities @ [scale_utility cfg goal newState],
                   actions @ [scale_action state newState])
                 else (candidates, utilities, actions))
              in if IsBetter newState goal profiles then Inr (Some found_so_far)
                 else scale_loop cfg effects state goal tput profiles (i + 1) newState found_so_far))
      else Inr (Some (candidates, utilities, actions)))"
  by pat_completeness auto
termination
  by (relation "measure (\<lambda>(cfg, _, _, _, _, _, i, _, _). nat (MaxPods cfg - i))") auto

declare scale_loop.simps [simp del]

definition scaleOut_findStates ::
  "ScaleOutConfig \<Rightarrow> ScaleOutEffect knowledge \<Rightarrow> State \<Rightarrow> State \<Rightarrow> string \<Rightarrow> profiles \<Rightarrow> proposal option go" where
  "scaleOut_findStates cfg effects state goal tput profiles =
     bindG (scale_loop cfg effects state goal tput profiles (int (mlen (CurrentPods state)) - 1) state
              no_proposal) (\<lambda>r.
       case r of
         None \<Rightarrow> Inr None
       | Some (candidates, utilities, actions) \<Rightarrow>
           if length candidates = 0 then Inr None else Inr (Some (candidates, utilities, actions)))"

definition proactive_latency :: "ScaleOutConfig \<Rightarrow> profiles \<Rightarrow> string \<Rightarrow> State \<Rightarrow> State go" where
  "proactive_latency cfg profiles name s =
     (if is_latency profiles name
      then set_objective name (mget 0 (objectives s) name * ProActiveLatencyFactor cfg) s
      else Inr s)"

definition proactive_scale_out :: "ScaleOutConfig \<Rightarrow> State \<Rightarrow> profiles \<Rightarrow> proposal go" where
  "proactive_scale_out cfg state profiles =
     (if mlookup (CurrentPods state) ''proactiveTemp'' = None \<and>
         int (mlen (CurrentPods state)) < MaxProActiveScaleOut cfg then
        bindG (add_dummy ''proactiveTemp'' (DeepCopy state)) (\<lambda>tempState.
        bindG (foldG (proactive_latency cfg profiles) (mkeys (objectives tempState)) tempState) (\<lambda>tempState.
          Inr ([tempState], [Fin (1 / 10)],
            [\<lparr>ActionName = scaleOutActionName,
              Properties = IntProps (Some [(''factor'', 1), (''proactive'', 1)])\<rparr>])))
      else Inr no_proposal)"

definition scaleOut_NextState :: "ScaleOutConfig \<Rightarrow> ScaleOutEffect knowledge \<Rightarrow> next_state" where
  "scaleOut_NextState cfg effects state goal profiles =
     (if IsBetter state goal profiles then Inr no_proposal
      else
        (let throughputObjective = throughput_objective state profiles in
         if length throughputObjective = 0 then Inr no_proposal
         else bindG (scaleOut_findStates cfg effects state goal throughputObjective profiles) (\<lambda>r.
           case r of
             None \<Rightarrow> proactive_scale_out cfg state profiles
           | Some proposed \<Rightarrow> Inr proposed)))"

section \<open>Performing a plan\<close>

definition scale_factor :: "Action list \<Rightarrow> int64 go" where
  "scale_factor plan =
     foldG (\<lambda>item factor.
       if ActionName item = rmPodActionName then Inr (factor - 1)
       else if ActionName item = scaleOutActionName then
         (case Properties item of
            IntProps m \<Rightarrow> Inr (factor + mget 0 m ''factor'')
          | _ \<Rightarrow> Inl TypeAssertion)
       else Inr factor) plan 0"

definition update_replicas :: "kind \<Rightarrow> string \<times> string \<Rightarrow> int64 \<Rightarrow> cluster \<Rightarrow> (cluster \<times> api_error option) go" where
  \<comment> \<open>the function retried on a conflict\<close>
  "update_replicas knd key factor c =
     (case Get knd key c of
        None \<Rightarrow> Inr (c, Some NotFound)
      | Some res \<Rightarrow>
          (case replicas res of
             None \<Rightarrow> Inl NilDereference
           | Some r \<Rightarrow>
               let r' = r + ucast factor in
               if less_s 0 r' then Inr (Update knd key (res\<lparr>replicas := Some r'\<rparr>) c) else Inr (c, None)))"

definition scaleOut_Perform :: "State \<Rightarrow> Action list \<Rightarrow> cluster \<Rightarrow> cluster go" where
  "scaleOut_Perform state plan c =
     bindG (scale_factor plan) (\<lambda>factor.
       let target = TargetKey (IntentOf state) in
       if CHR ''/'' \<notin> set target \<and> count_list target (CHR ''/'') \<noteq> 1 then Inr c
       else
         (let tmp = split_on (CHR ''/'') target in
          bindG (nthG tmp 0) (\<lambda>namespace. bindG (nthG tmp 1) (\<lambda>name.
            case kind_of (TargetKind (IntentOf state)) of
              None \<Rightarrow> Inr c
            | Some knd \<Rightarrow>
                bindG (retry_on_conflict DefaultRetry (update_replicas knd (namespace, name) factor) c)
                  (\<lambda>(c', retryErr). Inr c')))))"

definition scaleOut_Effect :: "ScaleOutConfig \<Rightarrow> State \<Rightarrow> profiles \<Rightarrow> string list list" where
  "scaleOut_Effect cfg state profiles =
     (if so_Script cfg = ''None'' then []
      else
        (let latencyObjectives = filter (is_latency profiles) (mkeys (objectives state));
             throughputObjective = throughput_objective state profiles
         in if throughputObjective \<noteq> '''' then
              map (\<lambda>objective. [so_PythonInterpreter cfg, so_Script cfg, IntentKey (IntentOf state),
                objective, throughputObjective]) latencyObjectives
            else []))"

section \<open>What the proposals are\<close>

lemma average_bounds:
  assumes "\<forall>(_, v) \<in> set kvs. availability_ok v" and "kvs \<noteq> []"
  shows "\<exists>a. averageAvailability (Some kvs) = Fin a \<and> 0 \<le> a \<and> a \<le> 1"
proof -
  have "\<exists>s. fold (\<lambda>(_, v) res. res + PodAvailability v) kvs (Fin r) = Fin s \<and> r \<le> s \<and> s \<le> r + real (length kvs)" for r
    using assms(1)
  proof (induction kvs arbitrary: r)
    case (Cons kv kvs)
    obtain k v where kv: "kv = (k, v)" by (cases kv)
    obtain a where a: "PodAvailability v = Fin a" "0 \<le> a" "a \<le> 1"
      using Cons.prems kv by (auto elim: availability_ok_cases)
    have "\<forall>(_, v) \<in> set kvs. availability_ok v" using Cons.prems by auto
    from Cons.IH [OF this, of "r + a"] a kv show ?case by auto
  qed simp
  from this [of 0] obtain s where "fold (\<lambda>(_, v) res. res + PodAvailability v) kvs (Fin 0) = Fin s"
    "0 \<le> s" "s \<le> real (length kvs)" by auto
  with assms(2) show ?thesis by (simp add: averageAvailability_def float_of_nat_def float_consts)
qed

lemma add_dummy_spec:
  assumes "writable s"
  shows "\<exists>s'. add_dummy name s = Inr s' \<and> writable s' \<and> (pods_ok s \<longrightarrow> pods_ok s') \<and> IntentOf s' = IntentOf s \<and>
    CurrentData s' = CurrentData s \<and>
    mlen (CurrentPods s) \<le> mlen (CurrentPods s') \<and> mlen (CurrentPods s') \<le> Suc (mlen (CurrentPods s)) \<and>
    (mlookup (CurrentPods s) name = None \<longrightarrow> mlen (CurrentPods s') = Suc (mlen (CurrentPods s)))"
proof -
  obtain kvs where kvs: "CurrentPods s = Some kvs" using assms by (auto simp: writable_def)
  let ?v = "zero_PodState\<lparr>PodAvailability := averageAvailability (CurrentPods s)\<rparr>"
  obtain s' where s': "set_pod name ?v s = Inr s'" "writable s'" "IntentOf s' = IntentOf s"
    "CurrentData s' = CurrentData s" and m: "mput (CurrentPods s) name ?v = Inr (CurrentPods s')"
    using set_pod_writable [OF assms] by blast
  have sub: "set (entries (CurrentPods s')) \<subseteq> insert (name, ?v) (set kvs)"
    using mput_entries [OF m] kvs by simp
  have "pods_ok s'" if "pods_ok s"
  proof (cases "kvs = [] \<or> (\<forall>(_, v) \<in> set kvs. Phase v \<noteq> ''Running'')")
    case True
    then have "\<forall>(_, v) \<in> set (entries (CurrentPods s')). Phase v \<noteq> ''Running''"
      using sub by (auto simp: zero_PodState_def)
    then show ?thesis by (simp add: pods_ok_def)
  next
    case False
    then have ok: "\<forall>(_, v) \<in> set kvs. availability_ok v" "kvs \<noteq> []"
      using that kvs by (auto simp: pods_ok_def)
    from average_bounds [OF this] have "availability_ok ?v"
      by (auto simp: availability_ok_def kvs float_consts)
    with ok(1) sub have "\<forall>(_, v) \<in> set (entries (CurrentPods s')). availability_ok v" by auto
    then show ?thesis by (simp add: pods_ok_def)
  qed
  with s' show ?thesis using mlen_mput [OF m] by (simp add: add_dummy_def)
qed

lemma predict_objectives_total:
  assumes "writable ns"
  shows "\<exists>r. predict_objectives cfg effects state goal tput ps ks (ns, found) = Inr r \<and>
    (\<forall>ns' found'. r = Some (ns', found') \<longrightarrow> writable ns' \<and> CurrentPods ns' = CurrentPods ns)"
  using assms
proof (induction ks arbitrary: ns found)
  case (Cons k ks)
  have set: "\<exists>s'. set_objective k v ns = Inr s' \<and> writable s' \<and> CurrentPods s' = CurrentPods ns" for v
    using set_objective_writable [OF Cons.prems] by blast
  obtain f where f: "\<And>v. set_objective k v ns = Inr (f v)" "\<And>v. writable (f v)"
    "\<And>v. CurrentPods (f v) = CurrentPods ns" using set by metis
  have step: "\<exists>r. predict_objectives cfg effects state goal tput ps ks (f v, b) = Inr r \<and>
    (\<forall>ns' found'. r = Some (ns', found') \<longrightarrow> writable ns' \<and> CurrentPods ns' = CurrentPods ns)" for v b
    using Cons.IH [OF f(2), of v b] f(3) by simp
  show ?case
    using step Cons.IH [OF Cons.prems, of found] f(1)
    by (cases "effects (IntentKey (IntentOf state)) scalingGroupName k (so_LookBack cfg)") simp_all
qed simp

definition scale_candidate ::
  "ScaleOutConfig \<Rightarrow> State \<Rightarrow> State \<Rightarrow> State \<Rightarrow> float64 \<Rightarrow> Action \<Rightarrow> bool" where
  "scale_candidate cfg state goal c u a \<longleftrightarrow>
     (pods_ok state \<longrightarrow> pods_ok c) \<and> mlen (CurrentPods state) \<le> mlen (CurrentPods c) \<and>
     int (mlen (CurrentPods c)) \<le> MaxPods cfg + 1 \<and> u = scale_utility cfg goal c \<and> a = scale_action state c"

lemma scale_loop_spec:
  assumes "pods_ok state \<longrightarrow> pods_ok lastState" and "mlen (CurrentPods state) \<le> mlen (CurrentPods lastState)"
    and "int (mlen (CurrentPods lastState)) \<le> i + 1" and "each_proposal (scale_candidate cfg state goal) p"
  shows "\<exists>r. scale_loop cfg effects state goal tput ps i lastState p = Inr r \<and>
    (\<forall>q. r = Some q \<longrightarrow> each_proposal (scale_candidate cfg state goal) q)"
  using assms
proof (induction cfg effects state goal tput ps i lastState p rule: scale_loop.induct)
  case (1 cfg effects state goal tput ps i lastState cs us as)
  show ?case
  proof (cases "i < MaxPods cfg")
    case False
    with "1.prems" show ?thesis by (simp add: scale_loop.simps)
  next
    case True
    obtain n1 where n1: "add_dummy (''dummy@'' @ itoa i) (DeepCopy lastState) = Inr n1" "writable n1"
      "pods_ok lastState \<longrightarrow> pods_ok n1" "mlen (CurrentPods lastState) \<le> mlen (CurrentPods n1)"
      "mlen (CurrentPods n1) \<le> Suc (mlen (CurrentPods lastState))"
      using add_dummy_spec [OF writable_DeepCopy, of "''dummy@'' @ itoa i" lastState] by auto
    obtain r where r: "predict_objectives cfg effects state goal tput ps (mkeys (objectives state))
        (n1, False) = Inr r"
      "\<And>n2 b. r = Some (n2, b) \<Longrightarrow> CurrentPods n2 = CurrentPods n1"
      using predict_objectives_total [OF n1(2)] by blast
    show ?thesis
    proof (cases r)
      case None
      with r(1) n1(1) True show ?thesis by (simp add: scale_loop.simps)
    next
      case (Some nb)
      obtain n2 b where nb: "nb = (n2, b)" by (cases nb)
      have pods: "CurrentPods n2 = CurrentPods n1" using r(2) Some nb by simp
      define q where "q = (if b then (cs @ [n2], us @ [scale_utility cfg goal n2], as @ [scale_action state n2])
        else (cs, us, as))"
      have ok2: "pods_ok state \<longrightarrow> pods_ok n2" using n1(3) pods_ok_cong [OF pods] "1.prems"(1) by simp
      have "scale_candidate cfg state goal n2 (scale_utility cfg goal n2) (scale_action state n2)"
        using ok2 pods n1(4,5) "1.prems"(2,3) True by (simp add: scale_candidate_def)
      then have q: "each_proposal (scale_candidate cfg state goal) q"
        using each_proposal_snoc [OF "1.prems"(4)] "1.prems"(4) by (simp add: q_def)
      have step: "scale_loop cfg effects state goal tput ps i lastState (cs, us, as) =
        (if IsBetter n2 goal ps then Inr (Some q) else scale_loop cfg effects state goal tput ps (i + 1) n2 q)"
        using True n1(1) r(1) Some nb by (subst scale_loop.simps) (simp add: Let_def q_def)
      show ?thesis
      proof (cases "IsBetter n2 goal ps")
        case True
        with step q show ?thesis by auto
      next
        case False
        from "1.IH" [OF \<open>i < MaxPods cfg\<close> n1(1) r(1) Some nb [symmetric] q_def False ok2 _ _ q] pods n1(4,5) "1.prems"(2,3)
        show ?thesis unfolding step using False by simp
      qed
    qed
  qed
qed

definition proactive_scale_action :: Action where
  "proactive_scale_action = \<lparr>ActionName = scaleOutActionName,
     Properties = IntProps (Some [(''factor'', 1), (''proactive'', 1)])\<rparr>"

definition proactive_candidate :: "ScaleOutConfig \<Rightarrow> State \<Rightarrow> State \<Rightarrow> float64 \<Rightarrow> Action \<Rightarrow> bool" where
  "proactive_candidate cfg state c u a \<longleftrightarrow>
     (pods_ok state \<longrightarrow> pods_ok c) \<and> mlen (CurrentPods c) = Suc (mlen (CurrentPods state)) \<and>
     int (mlen (CurrentPods c)) \<le> MaxProActiveScaleOut cfg \<and> u = Fin (1 / 10) \<and> a = proactive_scale_action"

lemma proactive_scale_out_spec:
  "\<exists>p. proactive_scale_out cfg state ps = Inr p \<and> each_proposal (proactive_candidate cfg state) p"
proof (cases "mlookup (CurrentPods state) ''proactiveTemp'' = None \<and>
    int (mlen (CurrentPods state)) < MaxProActiveScaleOut cfg")
  case True
  obtain s where s: "add_dummy ''proactiveTemp'' (DeepCopy state) = Inr s" "writable s"
    "pods_ok state \<longrightarrow> pods_ok s" "mlen (CurrentPods s) = Suc (mlen (CurrentPods state))"
    using add_dummy_spec [OF writable_DeepCopy, of "''proactiveTemp''" state] True by auto
  have "\<exists>t. foldG (proactive_latency cfg ps) (mkeys (objectives s)) s = Inr t \<and>
      writable t \<and> CurrentPods t = CurrentPods s"
  proof (rule foldG_total [where P = "\<lambda>t. writable t \<and> CurrentPods t = CurrentPods s"])
    fix name t
    assume t: "writable t \<and> CurrentPods t = CurrentPods s"
    then show "\<exists>t'. proactive_latency cfg ps name t = Inr t' \<and> writable t' \<and> CurrentPods t' = CurrentPods s"
      using set_objective_writable [of t name "mget 0 (objectives t) name * ProActiveLatencyFactor cfg"]
      by (auto simp: proactive_latency_def)
  qed (use s in simp)
  then obtain t where t: "foldG (proactive_latency cfg ps) (mkeys (objectives s)) s = Inr t"
    "CurrentPods t = CurrentPods s" by blast
  have "proactive_scale_out cfg state ps = Inr ([t], [Fin (1 / 10)], [proactive_scale_action])"
    using True s(1) t(1) by (simp add: proactive_scale_out_def proactive_scale_action_def)
  moreover have "proactive_candidate cfg state t (Fin (1 / 10)) proactive_scale_action"
    using True s t(2) pods_ok_cong [OF t(2)] by (simp add: proactive_candidate_def)
  ultimately show ?thesis by simp
next
  case False
  then show ?thesis by (intro exI [of _ no_proposal]) (auto simp: proactive_scale_out_def)
qed

definition scaling_proposal :: "ScaleOutConfig \<Rightarrow> State \<Rightarrow> State \<Rightarrow> State \<Rightarrow> float64 \<Rightarrow> Action \<Rightarrow> bool" where
  "scaling_proposal cfg state goal c u a \<longleftrightarrow>
     scale_candidate cfg state goal c u a \<or> proactive_candidate cfg state c u a"

lemma scaling_mono:
  "each_proposal (scale_candidate cfg state goal) p \<Longrightarrow> each_proposal (scaling_proposal cfg state goal) p"
  "each_proposal (proactive_candidate cfg state) p \<Longrightarrow> each_proposal (scaling_proposal cfg state goal) p"
  by (auto simp: scaling_proposal_def elim!: each_proposal_mono)

lemma scaleOut_NextState_spec:
  "\<exists>p. scaleOut_NextState cfg effects state goal ps = Inr p \<and>
     each_proposal (scaling_proposal cfg state goal) p"
proof -
  let ?tput = "throughput_objective state ps"
  have loop: "\<exists>r. scale_loop cfg effects state goal ?tput ps (int (mlen (CurrentPods state)) - 1) state
      no_proposal = Inr r \<and> (\<forall>q. r = Some q \<longrightarrow> each_proposal (scale_candidate cfg state goal) q)"
    by (rule scale_loop_spec) simp_all
  then obtain r where r: "scale_loop cfg effects state goal ?tput ps (int (mlen (CurrentPods state)) - 1) state
      no_proposal = Inr r" "\<And>q. r = Some q \<Longrightarrow> each_proposal (scale_candidate cfg state goal) q" by blast
  have "\<exists>r. scaleOut_findStates cfg effects state goal ?tput ps = Inr r \<and>
      (\<forall>q. r = Some q \<longrightarrow> each_proposal (scaling_proposal cfg state goal) q)"
  proof (cases r)
    case None
    with r(1) show ?thesis by (auto simp: scaleOut_findStates_def)
  next
    case (Some q)
    obtain cs us as where q: "q = (cs, us, as)" by (cases q)
    have "each_proposal (scaling_proposal cfg state goal) (cs, us, as)"
      using r(2) [OF Some] q scaling_mono(1) by simp
    with r(1) Some q show ?thesis by (auto simp: scaleOut_findStates_def)
  qed
  moreover have "\<exists>p. proactive_scale_out cfg state ps = Inr p \<and> each_proposal (scaling_proposal cfg state goal) p"
    using proactive_scale_out_spec [of cfg state ps] scaling_mono(2) by blast
  moreover have "\<exists>p. Inr no_proposal = (Inr p :: proposal go) \<and> each_proposal (scaling_proposal cfg state goal) p"
    by (intro exI [of _ no_proposal]) simp
  ultimately show ?thesis
    unfolding scaleOut_NextState_def Let_def by (auto split: if_splits option.split simp del: split_paired_Ex)
qed

lemma scale_utility_ok:
  assumes "positive_priority goal ps" and "0 < MaxPods cfg"
  shows "finite_float (scale_utility cfg goal c) \<and> 0 \<le> scale_utility cfg goal c"
  using assms
  by (auto simp: positive_priority_def scale_utility_def float_of_nat_def float_of_int_def float_consts
      intro!: add_nonneg_nonneg)

lemma scaling_proposal_ok:
  assumes "pods_ok state" and "positive_priority goal ps" and "0 < MaxPods cfg"
  shows "proposal_ok pods_ok (scaleOut_NextState cfg effects state goal ps)"
proof -
  obtain p where p: "scaleOut_NextState cfg effects state goal ps = Inr p"
    "each_proposal (scaling_proposal cfg state goal) p"
    using scaleOut_NextState_spec by blast
  have "each_proposal (\<lambda>c u a. pods_ok c \<and> finite_float u \<and> 0 \<le> u) p"
    using p(2)
  proof (rule each_proposal_mono)
    fix c u a
    assume "scaling_proposal cfg state goal c u a"
    then show "pods_ok c \<and> finite_float u \<and> 0 \<le> u"
      using assms(1) scale_utility_ok [OF assms(2,3)]
      by (auto simp: scaling_proposal_def scale_candidate_def proactive_candidate_def float_consts)
  qed
  with p(1) show ?thesis by (simp add: each_proposal_ok)
qed

section \<open>What performing a plan does\<close>

text \<open>
  The contract of \<open>Perform\<close>: the number of replicas changes by the net effect of the plan, one down
  for each pod removed and the factor up for each scale out.
\<close>

definition net_effect :: "Action \<Rightarrow> int" where
  "net_effect a =
     (if ActionName a = rmPodActionName then - 1
      else if ActionName a = scaleOutActionName then
        (case Properties a of IntProps m \<Rightarrow> sint (mget 0 m ''factor'') | _ \<Rightarrow> 0)
      else 0)"

definition net_replicas :: "Action list \<Rightarrow> int" where
  "net_replicas plan = (\<Sum>a \<leftarrow> plan. net_effect a)"

definition int_properties :: "string \<Rightarrow> Action \<Rightarrow> bool" where
  "int_properties name a \<longleftrightarrow> (ActionName a = name \<longrightarrow> (\<exists>m. Properties a = IntProps m))"

lemma scale_factor_net:
  assumes "\<forall>a \<in> set plan. int_properties scaleOutActionName a"
  shows "scale_factor plan = Inr (word_of_int (net_replicas plan))"
proof -
  have "foldG (\<lambda>item factor.
       if ActionName item = rmPodActionName then Inr (factor - 1)
       else if ActionName item = scaleOutActionName then
         (case Properties item of IntProps m \<Rightarrow> Inr (factor + mget 0 m ''factor'') | _ \<Rightarrow> Inl TypeAssertion)
       else Inr factor) plan f = Inr (f + word_of_int (net_replicas plan))" for f
    using assms
  proof (induction plan arbitrary: f)
    case (Cons a plan)
    then show ?case
      by (auto simp: net_replicas_def net_effect_def int_properties_def)
  qed (simp add: net_replicas_def)
  from this [of 0] show ?thesis by (simp add: scale_factor_def)
qed

definition scalable :: "int \<Rightarrow> workload \<Rightarrow> bool" where
  \<comment> \<open>the workload has replicas, and enough to be scaled by this number\<close>
  "scalable n w \<longleftrightarrow> (\<exists>r. replicas w = Some r \<and> 0 < sint r + n \<and> sint r + n < 2 ^ 31)"

definition scaled :: "int \<Rightarrow> workload \<Rightarrow> workload" where
  "scaled n w = w\<lparr>replicas := map_option (\<lambda>r. r + word_of_int n) (replicas w)\<rparr>"

lemma update_replicas_scalable:
  assumes "Get knd key c = Some w" and "scalable n w"
  shows "update_replicas knd key (word_of_int n) c = Inr (Update knd key (scaled n w) c)"
proof -
  obtain r where r: "replicas w = Some r" "0 < sint r + n" "sint r + n < 2 ^ 31"
    using assms(2) by (auto simp: scalable_def)
  then have "sint (r + word_of_int n) = sint r + n" by (intro sint_add_int) simp_all
  with r assms(1) show ?thesis
    by (simp add: update_replicas_def less_s_def ucast_of_int scaled_def)
qed

lemma update_replicas_down:
  assumes "Get knd key c = Some w" and "replicas w = Some r" and "sint r + n \<le> 0" and "- (2 ^ 31) \<le> sint r + n"
  shows "update_replicas knd key (word_of_int n) c = Inr (c, None)"
proof -
  have "sint (r + word_of_int n) = sint r + n" using assms(3,4) by (intro sint_add_int) simp_all
  with assms show ?thesis by (simp add: update_replicas_def less_s_def ucast_of_int)
qed

definition target_of :: "Intent \<Rightarrow> string \<Rightarrow> string \<Rightarrow> kind \<Rightarrow> bool" where
  "target_of i namespace name knd \<longleftrightarrow>
     TargetKey i = namespace @ CHR ''/'' # name \<and> CHR ''/'' \<notin> set namespace \<and> CHR ''/'' \<notin> set name \<and>
     kind_of (TargetKind i) = Some knd"

lemma split_target:
  assumes "target_of i namespace name knd"
  shows "split_on (CHR ''/'') (TargetKey i) = [namespace, name]" and "CHR ''/'' \<in> set (TargetKey i)"
  using assms by (simp_all add: target_of_def split_on_append split_on_no_sep)

lemma scaleOut_Perform_target:
  assumes "\<forall>a \<in> set plan. int_properties scaleOutActionName a" and "target_of (IntentOf state) namespace name knd"
  shows "scaleOut_Perform state plan c =
    bindG (retry_on_conflict DefaultRetry (update_replicas knd (namespace, name) (word_of_int (net_replicas plan))) c)
      (\<lambda>(c', retryErr). Inr c')"
proof -
  have "kind_of (TargetKind (IntentOf state)) = Some knd" using assms(2) by (simp add: target_of_def)
  then show ?thesis
    using scale_factor_net [OF assms(1)] split_target [OF assms(2)]
    by (simp add: scaleOut_Perform_def nthG_def Let_def)
qed

text \<open>
  C27. Performing a plan changes the number of replicas by the plan's net effect, even when other clients
  change the workload at the same time: up to four conflicts, what the others wrote is kept and the
  replicas they left are scaled; nothing else in the cluster changes.  A plan that would leave no replica
  changes nothing.
\<close>
theorem scale_out_performs:
  assumes "\<forall>a \<in> set plan. int_properties scaleOutActionName a"
    and "target_of (IntentOf state) namespace name knd"
    and "Get knd (namespace, name) c = Some w"
  shows "(interferences (outcomes c) fs rest \<and> length fs < 5 \<and> scalable (net_replicas plan) w \<and>
      (\<forall>f \<in> set fs. \<forall>v. scalable (net_replicas plan) v \<longrightarrow> scalable (net_replicas plan) (f v)) \<longrightarrow>
      (\<exists>c'. scaleOut_Perform state plan c = Inr c' \<and>
         Get knd (namespace, name) c' = Some (scaled (net_replicas plan) (fold (\<lambda>f. f) fs w)) \<and>
         deleted_pods c' = deleted_pods c \<and>
         (\<forall>knd' key'. (knd', key') \<noteq> (knd, (namespace, name)) \<longrightarrow> Get knd' key' c' = Get knd' key' c))) \<and>
    (\<forall>r. replicas w = Some r \<and> - (2 ^ 31) \<le> sint r + net_replicas plan \<and> sint r + net_replicas plan \<le> 0 \<longrightarrow>
      scaleOut_Perform state plan c = Inr c)"
proof (intro conjI allI impI)
  let ?n = "net_replicas plan" and ?key = "(namespace, name)"
  note perform = scaleOut_Perform_target [OF assms(1,2), of c]
  show "scaleOut_Perform state plan c = Inr c"
    if "replicas w = Some r \<and> - (2 ^ 31) \<le> sint r + ?n \<and> sint r + ?n \<le> 0" for r
    using update_replicas_down [OF assms(3)] that perform by (simp add: DefaultRetry_def numeral_eq_Suc)
  assume fs: "interferences (outcomes c) fs rest \<and> length fs < 5 \<and> scalable ?n w \<and>
      (\<forall>f \<in> set fs. \<forall>v. scalable ?n v \<longrightarrow> scalable ?n (f v))"
  have "\<exists>c'. retry_on_conflict DefaultRetry (update_replicas knd ?key (word_of_int ?n)) c = Inr (c', None) \<and>
    Get knd ?key c' = Some (scaled ?n (fold (\<lambda>f. f) fs w)) \<and> outcomes c' = rest \<and>
    deleted_pods c' = deleted_pods c \<and>
    (\<forall>knd' key'. (knd', key') \<noteq> (knd, ?key) \<longrightarrow> Get knd' key' c' = Get knd' key' c)"
    by (rule retry_read_modify_write_on [where Q = "scalable ?n"])
      (use fs assms(3) update_replicas_scalable in \<open>auto simp: DefaultRetry_def\<close>)
  with perform show "\<exists>c'. scaleOut_Perform state plan c = Inr c' \<and>
         Get knd ?key c' = Some (scaled ?n (fold (\<lambda>f. f) fs w)) \<and>
         deleted_pods c' = deleted_pods c \<and>
         (\<forall>knd' key'. (knd', key') \<noteq> (knd, ?key) \<longrightarrow> Get knd' key' c' = Get knd' key' c)" by auto
qed

section \<open>The candidates\<close>

definition busy_state :: "real \<Rightarrow> State" where
  \<comment> \<open>two pods, a throughput of 100 and the given latency\<close>
  "busy_state v = zero_State\<lparr>
     IntentOf := zero_Intent\<lparr>Priority := 1, TargetKey := ''ns/app'', TargetKind := ''Deployment'',
       Objectives := Some [(''p99'', Fin v), (''rps'', 100)]\<rparr>,
     CurrentPods := Some [(''a'', zero_PodState\<lparr>Phase := ''Running'', PodAvailability := 1\<rparr>),
       (''b'', zero_PodState\<lparr>Phase := ''Running'', PodAvailability := 1\<rparr>)]\<rparr>"

definition busy_profiles :: profiles where
  "busy_profiles = Some [(''p99'', zero_Profile\<lparr>TypeOf := Latency, Minimize := True\<rparr>),
     (''rps'', zero_Profile\<lparr>TypeOf := Throughput\<rparr>)]"

definition flat_effect :: ScaleOutEffect where
  \<comment> \<open>a model that forecasts a latency of 5, whatever the load\<close>
  "flat_effect = \<lparr>ThroughputRange = (0, 1), ThroughputScale = (1, 0), ReplicaRange = (1, 10), Popt = (5, 0, 1, 0),
     so_TrainingFeatures = ('''', ''''), so_TargetFeature = '''', so_Image = ''''\<rparr>"

definition two_pods_cfg :: ScaleOutConfig where
  "two_pods_cfg = \<lparr>PluginEndpoint = ''so'', PluginPort = 33334, ManagerEndpoint = ''ido'', ManagerPort = 33333,
     Mongo = ''mongodb://db'', so_PythonInterpreter = ''python3'', so_Script = ''None'', MaxPods = 2,
     so_LookBack = 20, MaxProActiveScaleOut = 0, ProActiveLatencyFactor = 1\<rparr>"

lemma busy_throughput: "throughput_objective (busy_state v) busy_profiles = ''rps''"
  by (simp add: throughput_objective_def busy_state_def busy_profiles_def is_throughput_def profile_of_def mget_def)

lemma busy_better: "IsBetter s (busy_state 10) busy_profiles \<longleftrightarrow>
    mlen (objectives s) = 2 \<and> (\<forall>(k, v) \<in> set (entries (objectives s)).
      if k = ''p99'' then v \<le> 10 else if k = ''rps'' then 100 \<le> v else 0 \<le> v)"
  by (auto simp: IsBetter_iff better_objective_def busy_state_def busy_profiles_def profile_of_def mget_def zero_Profile_def)

lemma busy_fields [simp]:
  "objectives (busy_state v) = Some [(''p99'', Fin v), (''rps'', 100)]"
  "CurrentPods (busy_state v) = Some [(''a'', zero_PodState\<lparr>Phase := ''Running'', PodAvailability := 1\<rparr>),
     (''b'', zero_PodState\<lparr>Phase := ''Running'', PodAvailability := 1\<rparr>)]"
  by (simp_all add: busy_state_def)

lemma busy_types [simp]:
  "is_latency busy_profiles ''p99''" "\<not> is_latency busy_profiles ''rps''" "\<not> is_availability busy_profiles ''rps''"
  by (simp_all add: text_kinds busy_profiles_def profile_of_def mget_def)

lemma busy_candidate:
  "\<exists>c. scaleOut_NextState two_pods_cfg (\<lambda>_ _ _ _. Some flat_effect) (busy_state 20) (busy_state 10) busy_profiles =
     Inr ([c], [scale_utility two_pods_cfg (busy_state 10) c], [scale_action (busy_state 20) c]) \<and>
   mlen (CurrentPods c) = 3"
proof -
  have nb: "\<not> IsBetter (busy_state 20) (busy_state 10) busy_profiles" by (simp add: busy_better)
  obtain s where s: "add_dummy ''dummy@1'' (DeepCopy (busy_state 20)) = Inr s"
    "objectives s = Some [(''p99'', Fin 20), (''rps'', 100)]" "mlen (CurrentPods s) = 3"
    using add_dummy_spec [OF writable_DeepCopy, of "''dummy@1''" "busy_state 20"]
    by (auto simp: copy_map_def)
  let ?c = "s\<lparr>IntentOf := (IntentOf s)\<lparr>Objectives := Some [(''p99'', 5), (''rps'', 100)]\<rparr>\<rparr>"
  have "predicted_latency flat_effect (busy_state 20) ''rps'' s = 5"
    using s(3) by (simp add: predicted_latency_def predictLatency_def flat_effect_def float_of_int_def
        mget_def float_consts)
  then have "predict_objectives two_pods_cfg (\<lambda>_ _ _ _. Some flat_effect) (busy_state 20) (busy_state 10)
      ''rps'' busy_profiles [''p99'', ''rps''] (s, False) = Inr (Some (?c, True))"
    using s(2,3) by (simp add: set_objective_Inr flat_effect_def mget_def)
  moreover have "IsBetter ?c (busy_state 10) busy_profiles" by (simp add: busy_better)
  moreover have "''dummy@'' @ itoa 1 = ''dummy@1''" by code_simp
  ultimately have "scale_loop two_pods_cfg (\<lambda>_ _ _ _. Some flat_effect) (busy_state 20) (busy_state 10)
      ''rps'' busy_profiles 1 (busy_state 20) no_proposal =
      Inr (Some ([?c], [scale_utility two_pods_cfg (busy_state 10) ?c], [scale_action (busy_state 20) ?c]))"
    using s(1) by (simp add: no_proposal_def scale_loop.simps two_pods_cfg_def Let_def)
  then have "scaleOut_NextState two_pods_cfg (\<lambda>_ _ _ _. Some flat_effect) (busy_state 20) (busy_state 10) busy_profiles =
     Inr ([?c], [scale_utility two_pods_cfg (busy_state 10) ?c], [scale_action (busy_state 20) ?c])"
    using nb by (simp add: scaleOut_NextState_def busy_throughput scaleOut_findStates_def Let_def)
  then show ?thesis using s(3) by (intro exI [of _ ?c]) simp
qed



definition busy_cluster :: cluster where
  \<comment> \<open>a deployment of two replicas; the first update meets a client that makes it three\<close>
  "busy_cluster =
     \<lparr>workloads = (\<lambda>k. if k = Deployment then [(''ns'', ''app'') \<mapsto>
          \<lparr>replicas = Some 2, selector = None, template_annotations = None, template_containers = []\<rparr>]
        else Map.empty),
      deleted_pods = [], outcomes = [Conflict (\<lambda>w. w\<lparr>replicas := Some 3\<rparr>), Accepted]\<rparr>"

theorem scale_out_performs_witness:
  "\<exists>c. scaleOut_Perform (busy_state 20) [\<lparr>ActionName = ''scaleOut'', Properties = IntProps (Some [(''factor'', 2)])\<rparr>,
       \<lparr>ActionName = ''rmPod'', Properties = StrProps (Some [(''name'', ''a'')])\<rparr>] busy_cluster = Inr c \<and>
     map_option replicas (Get Deployment (''ns'', ''app'') c) = Some (Some 4)"
proof -
  let ?plan = "[\<lparr>ActionName = ''scaleOut'', Properties = IntProps (Some [(''factor'', 2)])\<rparr>,
    \<lparr>ActionName = ''rmPod'', Properties = StrProps (Some [(''name'', ''a'')])\<rparr>]"
  let ?w = "\<lparr>replicas = Some 2, selector = None, template_annotations = None, template_containers = []\<rparr>"
  have "net_replicas ?plan = 1"
    by (simp add: net_replicas_def net_effect_def scaleOutActionName_def rmPodActionName_def mget_def)
  moreover have "\<forall>a \<in> set ?plan. int_properties scaleOutActionName a"
    by (simp add: int_properties_def scaleOutActionName_def)
  moreover have "target_of (IntentOf (busy_state 20)) ''ns'' ''app'' Deployment"
    by (simp add: target_of_def busy_state_def kind_of_def)
  moreover have "Get Deployment (''ns'', ''app'') busy_cluster = Some ?w"
    by (simp add: Get_def busy_cluster_def)
  moreover have "interferences (outcomes busy_cluster) [\<lambda>w. w\<lparr>replicas := Some 3\<rparr>] []"
    by (simp add: interferences_def busy_cluster_def)
  ultimately show ?thesis
    using scale_out_performs [of ?plan "busy_state 20" "''ns''" "''app''" Deployment busy_cluster ?w
        "[\<lambda>w. w\<lparr>replicas := Some 3\<rparr>]" "[]"]
    by (auto simp: scalable_def scaled_def)
qed

interpretation scale_out: actuator "scaleOut_NextState cfg effects" pods_ok
    "\<lambda>goal profiles. positive_priority goal profiles \<and> 0 < MaxPods cfg"
  for cfg effects
  by (rule actuatorI) (simp add: scaling_proposal_ok)

end
