(* ===== verification/Configuration.thy ===== *)
theory Configuration
  imports Prelude
begin

text \<open>
  \<^verbatim>\<open>pkg/common/config.go\<close>: the configuration records and their validation.
  Reading the file and decoding its JSON is the argument \<open>load\<close>, the syntax
  check of \<open>url.ParseRequestURI\<close> the argument \<open>valid_uri\<close>, the number of
  cores, the working directory and the existing directories the record
  \<open>host\<close>.  Paths are those of Unix.
\<close>

section \<open>The configuration\<close>

record GenericConfig =
  MongoEndpoint :: string
  LogFile :: string

record ControllerConfig =
  Workers :: int
  TaskChannelLength :: int
  InformerTimeout :: int
  ControllerTimeout :: int
  PlanCacheTTL :: int
  PlanCacheTimeout :: int
  TelemetryEndpoint :: string
  HostField :: string
  Metrics :: "(string \<times> string) list"   \<comment> \<open>name and query\<close>

record MonitorConfig =
  PodWorkers :: int
  ProfileWorkers :: int
  ProfileQueries :: string
  IntentWorkers :: int

record PlannerConfig =
  OpportunisticCandidates :: int
  MaxStates :: int
  MaxCandidates :: int
  PluginManagerEndpoint :: string
  PluginManagerPort :: int

record Config =
  Generic :: GenericConfig
  Controller :: ControllerConfig
  Monitor :: MonitorConfig
  Planner :: PlannerConfig

definition MaxControllerTimeout :: int where "MaxControllerTimeout = 600"
definition MaxInformerTimeout :: int where "MaxInformerTimeout = 300"
definition MaxTaskChannelLen :: int where "MaxTaskChannelLen = 10000"
definition MaxPlanCacheTimeout :: int where "MaxPlanCacheTimeout = 50000"
definition MaxPlanCacheTTL :: int where "MaxPlanCacheTTL = 500000"

lemmas config_limits =
  MaxControllerTimeout_def MaxInformerTimeout_def MaxTaskChannelLen_def
  MaxPlanCacheTimeout_def MaxPlanCacheTTL_def

record host =
  maximumWorkers :: int
  working_directory :: string
  directory_missing :: "string \<Rightarrow> bool"   \<comment> \<open>\<open>os.IsNotExist\<close> of \<open>os.Stat\<close>\<close>

datatype config_error =
    ReadError
  | ParseError
  | InvalidCharacters
  | NoSuchDirectory
  | OutOfLimits
  | InvalidWorkers
  | InvalidPort
  | InvalidURL

section \<open>Paths\<close>

fun clean_elements :: "bool \<Rightarrow> string list \<Rightarrow> string list \<Rightarrow> string list" where
  \<comment> \<open>the elements that \<open>filepath.Clean\<close> keeps; the accumulator holds them last first\<close>
  "clean_elements rooted acc [] = rev acc"
| "clean_elements rooted acc (w # ws) =
     (if w = '''' \<or> w = ''.'' then clean_elements rooted acc ws
      else if w = ''..'' then
        (case acc of
           [] \<Rightarrow> clean_elements rooted (if rooted then [] else [w]) ws
         | v # vs \<Rightarrow> if v = ''..'' then clean_elements rooted (w # acc) ws
             else clean_elements rooted vs ws)
      else clean_elements rooted (w # acc) ws)"

definition is_rooted :: "string \<Rightarrow> bool" where
  "is_rooted p \<longleftrightarrow> p \<noteq> [] \<and> hd p = CHR ''/''"

definition clean_path :: "string \<Rightarrow> string" where
  \<comment> \<open>\<open>filepath.Clean\<close>\<close>
  "clean_path p =
     (let ws = clean_elements (is_rooted p) [] (split_on (CHR ''/'') p) in
      if is_rooted p then CHR ''/'' # join_with (CHR ''/'') ws
      else if ws = [] then ''.'' else join_with (CHR ''/'') ws)"

definition abs_path :: "host \<Rightarrow> string \<Rightarrow> string" where
  \<comment> \<open>\<open>filepath.Abs\<close>\<close>
  "abs_path env p =
     (if is_rooted p then clean_path p
      else clean_path (working_directory env @ CHR ''/'' # p))"

definition dir_path :: "string \<Rightarrow> string" where
  \<comment> \<open>\<open>filepath.Dir\<close>: up to and including the last separator, cleaned\<close>
  "dir_path p = clean_path (rev (dropWhile (\<lambda>c. c \<noteq> CHR ''/'') (rev p)))"

definition sanitizePath :: "host \<Rightarrow> string \<Rightarrow> config_error + string" where
  "sanitizePath env filePath =
     (let path = clean_path (filter (\<lambda>c. c \<noteq> CHR 0x00) (abs_path env filePath)) in
      if \<exists>c \<in> set path. c \<in> set ''<>'' \<or> c = CHR 0x22 \<or> c \<in> set ''|?*''
      then Inl InvalidCharacters
      else if directory_missing env (dir_path path) then Inl NoSuchDirectory
      else Inr path)"

section \<open>Validation\<close>

definition invalidWorkers :: "host \<Rightarrow> int \<Rightarrow> bool" where
  "invalidWorkers env nWorkers = (if nWorkers \<le> 0 \<or> nWorkers > maximumWorkers env then True else False)"

definition limits_ok :: "ControllerConfig \<Rightarrow> bool" where
  \<comment> \<open>the negation of the first guard of \<open>ParseConfig\<close>\<close>
  "limits_ok c \<longleftrightarrow>
     \<not> (TaskChannelLength c \<le> 0 \<or> TaskChannelLength c > MaxTaskChannelLen \<or>
        ControllerTimeout c \<le> 0 \<or> ControllerTimeout c > MaxControllerTimeout \<or>
        InformerTimeout c \<le> 0 \<or> InformerTimeout c > MaxInformerTimeout \<or>
        PlanCacheTimeout c \<le> 0 \<or> PlanCacheTimeout c > MaxPlanCacheTimeout \<or>
        PlanCacheTTL c \<le> 0 \<or> PlanCacheTTL c > MaxPlanCacheTTL)"

definition sanitize_log :: "host \<Rightarrow> Config \<Rightarrow> config_error + Config" where
  "sanitize_log env result =
     (if LogFile (Generic result) \<noteq> '''' then
        (case sanitizePath env (LogFile (Generic result)) of
           Inl e \<Rightarrow> Inl e
         | Inr tmp \<Rightarrow> Inr (result\<lparr>Generic := (Generic result)\<lparr>LogFile := tmp\<rparr>\<rparr>))
      else Inr result)"

definition check_config :: "host \<Rightarrow> (string \<Rightarrow> bool) \<Rightarrow> Config \<Rightarrow> config_error option" where
  \<comment> \<open>the guards of \<open>ParseConfig\<close> after the log file, in their order\<close>
  "check_config env valid_uri result =
     (if \<not> limits_ok (Controller result) then Some OutOfLimits
      else if invalidWorkers env (Workers (Controller result)) \<or>
              invalidWorkers env (ProfileWorkers (Monitor result)) \<or>
              invalidWorkers env (IntentWorkers (Monitor result)) then Some InvalidWorkers
      else if OpportunisticCandidates (Planner result) < 0 \<or>
              OpportunisticCandidates (Planner result) > 1000 then Some OutOfLimits
      else if PluginManagerPort (Planner result) < 1 \<or>
              PluginManagerPort (Planner result) > 65535 then Some InvalidPort
      else if \<not> valid_uri (TelemetryEndpoint (Controller result)) \<or>
              \<not> valid_uri (MongoEndpoint (Generic result)) then Some InvalidURL
      else None)"

definition ParseConfig ::
  "host \<Rightarrow> (string \<Rightarrow> bool) \<Rightarrow> (string \<Rightarrow> config_error + Config) \<Rightarrow> string \<Rightarrow> config_error + Config" where
  \<comment> \<open>the code also returns the rejected configuration with an error; no caller uses it\<close>
  "ParseConfig env valid_uri load filename =
     (case load filename of
        Inl e \<Rightarrow> Inl e
      | Inr cfg \<Rightarrow>
          (case sanitize_log env cfg of
             Inl e \<Rightarrow> Inl e
           | Inr result \<Rightarrow>
               (case check_config env valid_uri result of
                  Some e \<Rightarrow> Inl e
                | None \<Rightarrow> Inr result)))"

definition valid_config :: "host \<Rightarrow> (string \<Rightarrow> bool) \<Rightarrow> Config \<Rightarrow> bool" where
  \<comment> \<open>what every configuration the program runs with satisfies\<close>
  "valid_config env valid_uri c \<longleftrightarrow>
     TaskChannelLength (Controller c) \<in> {1..MaxTaskChannelLen} \<and>
     ControllerTimeout (Controller c) \<in> {1..MaxControllerTimeout} \<and>
     InformerTimeout (Controller c) \<in> {1..MaxInformerTimeout} \<and>
     PlanCacheTimeout (Controller c) \<in> {1..MaxPlanCacheTimeout} \<and>
     PlanCacheTTL (Controller c) \<in> {1..MaxPlanCacheTTL} \<and>
     Workers (Controller c) \<in> {1..maximumWorkers env} \<and>
     ProfileWorkers (Monitor c) \<in> {1..maximumWorkers env} \<and>
     IntentWorkers (Monitor c) \<in> {1..maximumWorkers env} \<and>
     OpportunisticCandidates (Planner c) \<in> {0..1000} \<and>
     PluginManagerPort (Planner c) \<in> {1..65535} \<and>
     valid_uri (TelemetryEndpoint (Controller c)) \<and> valid_uri (MongoEndpoint (Generic c))"

lemma check_config_None: "check_config env uri c = None \<longleftrightarrow> valid_config env uri c"
  by (auto simp: check_config_def valid_config_def limits_ok_def invalidWorkers_def split: if_splits)

lemma sanitize_log_fields:
  "sanitize_log env cfg = Inr c \<Longrightarrow>
     Controller c = Controller cfg \<and> Monitor c = Monitor cfg \<and> Planner c = Planner cfg \<and>
     MongoEndpoint (Generic c) = MongoEndpoint (Generic cfg)"
  by (auto simp: sanitize_log_def split: if_splits sum.splits)

lemma ParseConfig_eq_Inr:
  "ParseConfig env uri load filename = Inr c \<longleftrightarrow>
     (\<exists>cfg. load filename = Inr cfg \<and> sanitize_log env cfg = Inr c \<and> valid_config env uri c)"
  by (auto simp: ParseConfig_def check_config_None [symmetric] split: sum.splits option.splits)

section \<open>Cleaned paths\<close>

definition plain_element :: "string \<Rightarrow> bool" where
  "plain_element w \<longleftrightarrow> w \<noteq> '''' \<and> w \<noteq> ''.'' \<and> w \<noteq> ''..'' \<and> CHR ''/'' \<notin> set w"

definition clean_rooted :: "string \<Rightarrow> bool" where
  \<comment> \<open>an absolute path without empty, dot or dot-dot elements\<close>
  "clean_rooted p \<longleftrightarrow> (\<exists>ws. p = CHR ''/'' # join_with (CHR ''/'') ws \<and> list_all plain_element ws)"

lemma split_on_no_sep_elems: "w \<in> set (split_on c s) \<Longrightarrow> c \<notin> set w"
proof (induction s arbitrary: w)
  case Nil
  then show ?case by simp
next
  case (Cons x xs)
  obtain v vs where "split_on c xs = v # vs" by (cases "split_on c xs") auto
  with Cons show ?case by (cases "x = c") auto
qed

lemma clean_elements_plain:
  "list_all (\<lambda>w. CHR ''/'' \<notin> set w) ws \<Longrightarrow> list_all plain_element acc \<Longrightarrow> rooted \<Longrightarrow>
     list_all plain_element (clean_elements rooted acc ws)"
proof (induction rooted acc ws rule: clean_elements.induct)
  case (1 rooted acc)
  then show ?case by (simp add: list_all_iff)
next
  case (2 rooted acc w ws)
  consider "w = '''' \<or> w = ''.''" | "w = ''..''" | "w \<noteq> ''''" "w \<noteq> ''.''" "w \<noteq> ''..''" by blast
  then show ?case
  proof cases
    case 2
    with "2.prems" "2.IH"(2,4) show ?thesis
      by (cases acc) (simp_all add: plain_element_def)
  qed (use 2 in \<open>auto simp: plain_element_def\<close>)
qed

lemma clean_path_rooted: "is_rooted p \<Longrightarrow> clean_rooted (clean_path p)"
proof -
  assume p: "is_rooted p"
  let ?ws = "clean_elements True [] (split_on (CHR ''/'') p)"
  have "list_all (\<lambda>w. CHR ''/'' \<notin> set w) (split_on (CHR ''/'') p)"
    using split_on_no_sep_elems by (auto simp: list_all_iff)
  then have "list_all plain_element ?ws" by (rule clean_elements_plain) simp_all
  with p show ?thesis by (auto simp: clean_path_def clean_rooted_def Let_def)
qed

lemma clean_rooted_is_rooted: "clean_rooted p \<Longrightarrow> is_rooted p"
  by (auto simp: clean_rooted_def is_rooted_def)

lemma abs_path_rooted:
  "is_rooted (working_directory env) \<Longrightarrow> clean_rooted (abs_path env p)"
  by (auto simp: abs_path_def is_rooted_def intro!: clean_path_rooted)

lemma sanitizePath_clean:
  assumes "is_rooted (working_directory env)" and "sanitizePath env p = Inr q"
  shows "clean_rooted q \<and> \<not> directory_missing env (dir_path q) \<and>
    (\<forall>c \<in> set q. c \<notin> set ''<>|?*'' \<and> c \<noteq> CHR 0x22)"
proof -
  have "is_rooted (abs_path env p)"
    using abs_path_rooted [OF assms(1)] clean_rooted_is_rooted by blast
  then have "is_rooted (filter (\<lambda>c. c \<noteq> CHR 0x00) (abs_path env p))"
    by (cases "abs_path env p") (auto simp: is_rooted_def)
  then have "clean_rooted (clean_path (filter (\<lambda>c. c \<noteq> CHR 0x00) (abs_path env p)))"
    by (rule clean_path_rooted)
  with assms(2) show ?thesis
    by (auto simp: sanitizePath_def Let_def split: if_splits)
qed

section \<open>The properties of the configuration\<close>


text \<open>
  C15. No accepted log path leaves the directory it names: a path \<open>sanitizePath\<close> returns is absolute,
  has no empty, dot or dot-dot element and none of the refused characters, and its directory exists.
\<close>
theorem sanitizePath_safe:
  assumes "is_rooted (working_directory env)" and "sanitizePath env p = Inr q"
  shows "clean_rooted q \<and> \<not> directory_missing env (dir_path q) \<and>
    (\<forall>c \<in> set q. c \<notin> set ''<>|?*'' \<and> c \<noteq> CHR 0x22)"
  by (rule sanitizePath_clean [OF assms])

theorem sanitizePath_safe_witness:
  "clean_rooted ''/var/log''"
proof -
  let ?env = "\<lparr>maximumWorkers = 4, working_directory = ''/var/lib'', directory_missing = (\<lambda>_. False)\<rparr>"
  have "sanitizePath ?env ''./..//log'' = Inr ''/var/log''"
    by (simp add: sanitizePath_def abs_path_def clean_path_def is_rooted_def)
  moreover have "is_rooted (working_directory ?env)" by (simp add: is_rooted_def)
  ultimately show ?thesis using sanitizePath_safe by blast
qed

end
