(* ===== verification/State_Helper.thy ===== *)
theory State_Helper
  imports Kpi Kubernetes Configuration
begin

text \<open>
  \<^verbatim>\<open>pkg/controller/state_helper.go\<close>: the current and the desired state of an
  intent.  The pod informer is the argument \<open>informer\<close>: the pods of a namespace
  that a label selector matches, with \<open>None\<close> for the nil selector.  A pod error
  is stored under the key the pod monitor sends; the lookup here uses the name of
  the pod.
\<close>

section \<open>The pods of a workload\<close>

type_synonym informer = "string \<Rightarrow> (string, string) gomap option \<Rightarrow> pod list"

type_synonym pod_errors = "(string, PodError list) gomap"

definition resourceDelimiter :: char where
  "resourceDelimiter = CHR ''_''"

definition resource_key :: "nat \<Rightarrow> string \<Rightarrow> string \<Rightarrow> string" where
  "resource_key i name suffix = join_with resourceDelimiter [itoa (int i), name, suffix]"

definition add_container :: "nat \<times> container \<Rightarrow> (string, int64) gomap \<Rightarrow> (string, int64) gomap go" where
  "add_container = (\<lambda>(i, c) m.
     bindG (foldG (\<lambda>(name, v) m. mput m (resource_key i name ''requests'') v) (entries (requests c)) m) (\<lambda>m.
       foldG (\<lambda>(name, v) m. mput m (resource_key i name ''limits'') v) (entries (limits c)) m))"

record pod_scan =
  podStates :: "(string, PodState) gomap"
  scan_annotations :: "(string, string) gomap"
  containerResources :: "(string, int64) gomap"
  hosts :: "string list"

definition empty_scan :: pod_scan where
  "empty_scan = \<lparr>podStates = mmake, scan_annotations = None, containerResources = mmake, hosts = []\<rparr>"

definition pod_state :: "pod_errors \<Rightarrow> int \<Rightarrow> pod \<Rightarrow> PodState" where
  "pod_state podErrors now p =
     \<lparr>PodAvailability = podAvailability (mget [] podErrors (pod_name p)) now,
      NodeName = pod_node p, Phase = pod_phase p, QoSClass = pod_qos p\<rparr>"

definition scan_pod :: "pod_errors \<Rightarrow> int \<Rightarrow> pod \<Rightarrow> pod_scan \<Rightarrow> pod_scan go" where
  \<comment> \<open>the body of the loop over the pods\<close>
  "scan_pod podErrors now p s =
     (let annotations = (if mlen (scan_annotations s) \<noteq> mlen (pod_annotations p)
                         then pod_annotations p else scan_annotations s) in
      bindG (if mlen (containerResources s) < 1
             then foldG add_container (enumerate 0 (pod_containers p)) (containerResources s)
             else Inr (containerResources s)) (\<lambda>resources.
      bindG (mput (podStates s) (pod_name p) (pod_state podErrors now p)) (\<lambda>states.
        Inr \<lparr>podStates = states, scan_annotations = annotations,
             containerResources = resources, hosts = hosts s @ [pod_node p]\<rparr>)))"

definition target_labels ::
  "cluster \<Rightarrow> string \<times> string \<Rightarrow> string \<Rightarrow> (string, string) gomap option option" where
  \<comment> \<open>None where the workload is not found; the nil selector for any other kind\<close>
  "target_labels cl key targetKind =
     (case kind_of targetKind of
        None \<Rightarrow> Some None
      | Some knd \<Rightarrow> (case Get knd key cl of None \<Rightarrow> None | Some w \<Rightarrow> Some (Some (selector w))))"

definition nil_scan :: pod_scan where
  "nil_scan = \<lparr>podStates = None, scan_annotations = None, containerResources = None, hosts = []\<rparr>"

definition getPods ::
  "cluster \<Rightarrow> informer \<Rightarrow> int \<Rightarrow> string \<Rightarrow> string \<Rightarrow> pod_errors \<Rightarrow> pod_scan go" where
  "getPods cl informer now targetKey targetKind podErrors =
     (let tmp = split_on (CHR ''/'') targetKey in
      if length tmp \<le> 1 then Inr nil_scan
      else (case target_labels cl (tmp ! 0, tmp ! 1) targetKind of
              None \<Rightarrow> Inr nil_scan
            | Some labels \<Rightarrow> foldG (scan_pod podErrors now) (informer (tmp ! 0) labels) empty_scan))"

section \<open>The states of an intent\<close>

definition measure_objective ::
  "(string \<Rightarrow> http_reply) \<Rightarrow> Intent \<Rightarrow> profiles \<Rightarrow> (string, PodState) gomap \<Rightarrow> string \<Rightarrow>
   (string, float64) gomap \<Rightarrow> (string, float64) gomap go" where
  "measure_objective http objective profiles pods item m =
     (let profile = profile_of profiles item in
      if profile = zero_Profile then Inr m
      else if TypeOf profile = ProfileTypeFromText ''availability'' then mput m item (PodSetAvailability pods)
      else mput m item (doQuery http profile objective))"

definition host_metric ::
  "(string \<Rightarrow> http_reply) \<Rightarrow> ControllerConfig \<Rightarrow> string list \<Rightarrow> string \<times> string \<Rightarrow>
   (string, (string, float64) gomap) gomap \<Rightarrow> (string, (string, float64) gomap) gomap go" where
  "host_metric http cfg hs = (\<lambda>(name, query) data.
     bindG (getHostTelemetry http (TelemetryEndpoint cfg) query hs (HostField cfg)) (\<lambda>tmp. mput data name tmp))"

definition getCurrentState ::
  "(string \<Rightarrow> http_reply) \<Rightarrow> ControllerConfig \<Rightarrow> cluster \<Rightarrow> informer \<Rightarrow> int \<Rightarrow> Intent \<Rightarrow> pod_errors \<Rightarrow>
   profiles \<Rightarrow> State go" where
  "getCurrentState http cfg cl informer now objective podErrors profiles =
     bindG (getPods cl informer now (TargetKey objective) (TargetKind objective) podErrors) (\<lambda>scan.
     bindG (foldG (measure_objective http objective profiles (podStates scan)) (mkeys (Objectives objective)) mmake)
       (\<lambda>currentObjectives.
     bindG (foldG (host_metric http cfg (hosts scan)) (Metrics cfg) mmake) (\<lambda>data.
       Inr \<lparr>IntentOf = \<lparr>IntentKey = IntentKey objective, Priority = Priority objective,
              TargetKey = TargetKey objective, TargetKind = TargetKind objective, ActivelyManaged = False,
              Objectives = currentObjectives, Tolerations = None\<rparr>,
            CurrentPods = podStates scan, CurrentData = data, Resources = containerResources scan,
            Annotations = scan_annotations scan\<rparr>)))"

definition getDesiredState :: "Intent \<Rightarrow> State" where
  "getDesiredState objective = zero_State\<lparr>IntentOf := objective\<rparr>"

section \<open>What a scan of the pods finds\<close>

definition scan_ok :: "pod_errors \<Rightarrow> int \<Rightarrow> pod list \<Rightarrow> pod_scan \<Rightarrow> bool" where
  "scan_ok podErrors now ps s \<longleftrightarrow>
     podStates s \<noteq> None \<and> containerResources s \<noteq> None \<and>
     (\<forall>(k, v) \<in> set (entries (podStates s)). \<exists>p \<in> set ps. k = pod_name p \<and> v = pod_state podErrors now p)"

lemma mputs_total:
  fixes m :: "('k, 'v) gomap" and f :: "'n \<Rightarrow> 'k"
  assumes "m \<noteq> None"
  shows "\<exists>m'. foldG (\<lambda>(k, v) m. mput m (f k) v) kvs m = Inr m' \<and> m' \<noteq> None"
proof (rule foldG_total [where P = "\<lambda>m. m \<noteq> None"])
  fix x and s :: "('k, 'v) gomap"
  assume s: "s \<noteq> None"
  obtain s' where "mput s (f (fst x)) (snd x) = Inr s'"
    using mput_nonnil [OF s, of "f (fst x)" "snd x"] by (elim exE)
  with mput_not_nil [OF this] show "\<exists>s'. (\<lambda>(k, v) m. mput m (f k) v) x s = Inr s' \<and> s' \<noteq> None"
    by (simp add: split_beta)
qed (rule assms)

lemma add_container_total:
  assumes "m \<noteq> None"
  shows "\<exists>m'. add_container ic m = Inr m' \<and> m' \<noteq> None"
proof (cases ic)
  case (Pair i c)
  let ?put = "\<lambda>suffix (name, v) m. mput m (resource_key i name suffix) v"
  obtain m1 where m1: "foldG (?put ''requests'') (entries (requests c)) m = Inr m1" "m1 \<noteq> None"
    using mputs_total [OF assms, of "\<lambda>name. resource_key i name ''requests''" "entries (requests c)"]
    by (elim exE conjE)
  obtain m2 where "foldG (?put ''limits'') (entries (limits c)) m1 = Inr m2" "m2 \<noteq> None"
    using mputs_total [OF m1(2), of "\<lambda>name. resource_key i name ''limits''" "entries (limits c)"]
    by (elim exE conjE)
  with m1 show ?thesis using Pair by (simp add: add_container_def)
qed

lemma scan_pod_total:
  assumes "scan_ok podErrors now ps s" and "p \<in> set ps"
  shows "\<exists>s'. scan_pod podErrors now p s = Inr s' \<and> scan_ok podErrors now ps s'"
proof -
  have nn: "podStates s \<noteq> None" "containerResources s \<noteq> None" using assms(1) by (simp_all add: scan_ok_def)
  have "\<exists>r. foldG add_container (enumerate 0 (pod_containers p)) (containerResources s) = Inr r \<and> r \<noteq> None"
    by (rule foldG_total [where P = "\<lambda>m. m \<noteq> None"]) (use nn(2) add_container_total in blast)+
  then have "\<exists>r. (if mlen (containerResources s) < 1
      then foldG add_container (enumerate 0 (pod_containers p)) (containerResources s)
      else Inr (containerResources s)) = Inr r \<and> r \<noteq> None"
    using nn(2) by (cases "mlen (containerResources s) < 1") (simp_all del: not_None_eq)
  then obtain r where r: "(if mlen (containerResources s) < 1
      then foldG add_container (enumerate 0 (pod_containers p)) (containerResources s)
      else Inr (containerResources s)) = Inr r" "r \<noteq> None" by blast
  from mput_nonnil [OF nn(1)] obtain m
    where m: "mput (podStates s) (pod_name p) (pod_state podErrors now p) = Inr m" by blast
  have "\<forall>(k, v) \<in> set (entries m). \<exists>p \<in> set ps. k = pod_name p \<and> v = pod_state podErrors now p"
    using mput_entries [OF m] assms by (auto simp: scan_ok_def)
  then show ?thesis using r m mput_not_nil [OF m] by (simp add: scan_pod_def scan_ok_def)
qed

lemma getPods_total:
  "\<exists>s. getPods cl informer now key kd podErrors = Inr s \<and>
     (s = nil_scan \<or> scan_ok podErrors now (informer (split_on (CHR ''/'') key ! 0)
        (the (target_labels cl (split_on (CHR ''/'') key ! 0, split_on (CHR ''/'') key ! 1) kd))) s)"
proof -
  have scan: "\<exists>s. foldG (scan_pod podErrors now) ps empty_scan = Inr s \<and> scan_ok podErrors now ps s" for ps
  proof (rule foldG_total)
    show "scan_ok podErrors now ps empty_scan" by (simp add: scan_ok_def empty_scan_def)
  qed (rule scan_pod_total)
  show ?thesis
  proof (cases "length (split_on (CHR ''/'') key) \<le> 1")
    case True
    then show ?thesis by (simp add: getPods_def)
  next
    case False
    obtain s where "foldG (scan_pod podErrors now) (informer (split_on (CHR ''/'') key ! 0)
        (the (target_labels cl (split_on (CHR ''/'') key ! 0, split_on (CHR ''/'') key ! 1) kd))) empty_scan = Inr s"
      "scan_ok podErrors now (informer (split_on (CHR ''/'') key ! 0)
        (the (target_labels cl (split_on (CHR ''/'') key ! 0, split_on (CHR ''/'') key ! 1) kd))) s"
      using scan by blast
    with False show ?thesis
      by (cases "target_labels cl (split_on (CHR ''/'') key ! 0, split_on (CHR ''/'') key ! 1) kd")
        (simp_all add: getPods_def Let_def)
  qed
qed

lemma measure_step:
  assumes "m \<noteq> None"
  shows "\<exists>m'. measure_objective http obj ps pods k m = Inr m' \<and> m' \<noteq> None \<and>
    (\<forall>j. mlookup m' j =
       (if j = k \<and> profile_of ps k \<noteq> zero_Profile
        then Some (if TypeOf (profile_of ps k) = Availability then PodSetAvailability pods
             else doQuery http (profile_of ps k) obj)
        else mlookup m j)) \<and> (wf_map m \<longrightarrow> wf_map m')"
proof -
  have av: "ProfileTypeFromText ''availability'' = Availability"
    by (simp add: ProfileTypeFromText_def to_lower_def lower_char_def)
  obtain m1 where m1: "mput m k (PodSetAvailability pods) = Inr m1" using mput_nonnil [OF assms] by blast
  obtain m2 where m2: "mput m k (doQuery http (profile_of ps k) obj) = Inr m2" using mput_nonnil [OF assms] by blast
  show ?thesis
    using assms m1 m2 mlookup_mput [OF m1] mlookup_mput [OF m2] mput_not_nil [OF m1] mput_not_nil [OF m2]
      wf_map_mput [OF m1] wf_map_mput [OF m2]
    by (simp add: measure_objective_def Let_def av)
qed

lemma measures:
  assumes "m \<noteq> None"
  shows "\<exists>m'. foldG (measure_objective http obj ps pods) ks m = Inr m' \<and> m' \<noteq> None \<and>
    (\<forall>j. mlookup m' j =
       (if j \<in> set ks \<and> profile_of ps j \<noteq> zero_Profile
        then Some (if TypeOf (profile_of ps j) = Availability then PodSetAvailability pods
             else doQuery http (profile_of ps j) obj)
        else mlookup m j)) \<and> (wf_map m \<longrightarrow> wf_map m')"
  using assms
proof (induction ks arbitrary: m)
  case Nil
  then show ?case by simp
next
  case (Cons k ks)
  obtain m1 where m1: "measure_objective http obj ps pods k m = Inr m1" "m1 \<noteq> None"
    "\<And>j. mlookup m1 j =
       (if j = k \<and> profile_of ps k \<noteq> zero_Profile
        then Some (if TypeOf (profile_of ps k) = Availability then PodSetAvailability pods
             else doQuery http (profile_of ps k) obj)
        else mlookup m j)" "wf_map m \<longrightarrow> wf_map m1"
    using measure_step [OF Cons.prems] by metis
  from Cons.IH [OF m1(2)] show ?case using m1(1,3,4) by (auto simp del: not_None_eq)
qed

section \<open>The properties of the measured state\<close>

lemma current_state_parts:
  assumes "getCurrentState http cfg cl informer now obj podErrors ps = Inr s"
  obtains scan m where "getPods cl informer now (TargetKey obj) (TargetKind obj) podErrors = Inr scan"
    "objectives s = m" "CurrentPods s = podStates scan" "Resources s = containerResources scan" "wf_map m"
    "\<forall>j. mlookup m j =
       (if j \<in> set (mkeys (Objectives obj)) \<and> profile_of ps j \<noteq> zero_Profile
        then Some (if TypeOf (profile_of ps j) = Availability then PodSetAvailability (podStates scan)
             else doQuery http (profile_of ps j) obj)
        else None)"
proof -
  obtain scan m data where g: "getPods cl informer now (TargetKey obj) (TargetKind obj) podErrors = Inr scan"
    "foldG (measure_objective http obj ps (podStates scan)) (mkeys (Objectives obj)) mmake = Inr m"
    "s = \<lparr>IntentOf = \<lparr>IntentKey = IntentKey obj, Priority = Priority obj,
              TargetKey = TargetKey obj, TargetKind = TargetKind obj, ActivelyManaged = False,
              Objectives = m, Tolerations = None\<rparr>,
            CurrentPods = podStates scan, CurrentData = data, Resources = containerResources scan,
            Annotations = scan_annotations scan\<rparr>"
    using assms unfolding getCurrentState_def bindG_eq_Inr by auto
  have "wf_map m \<and> (\<forall>j. mlookup m j =
       (if j \<in> set (mkeys (Objectives obj)) \<and> profile_of ps j \<noteq> zero_Profile
        then Some (if TypeOf (profile_of ps j) = Availability then PodSetAvailability (podStates scan)
             else doQuery http (profile_of ps j) obj)
        else None))"
    using measures [OF mmake_simps(5), of http obj ps "podStates scan" "mkeys (Objectives obj)"] g(2)
    by simp
  with g that [of scan m] show thesis by simp
qed

text \<open>
  C25. Exactly the objectives with a known profile are measured: each is looked up in Prometheus or, for
  an availability profile, computed from the pods.  An intent with an objective whose profile is
  unknown is never seen as satisfied.
\<close>
theorem current_objectives:
  assumes "getCurrentState http cfg cl informer now obj podErrors ps = Inr s" and "wf_map (Objectives obj)"
  shows "set (mkeys (objectives s)) = {k \<in> set (mkeys (Objectives obj)). profile_of ps k \<noteq> zero_Profile} \<and>
    ((\<exists>k \<in> set (mkeys (Objectives obj)). profile_of ps k = zero_Profile) \<longrightarrow>
       \<not> IsBetter s (getDesiredState obj) ps)"
proof -
  obtain scan :: pod_scan and m where m: "objectives s = m" "wf_map m"
    "\<forall>j. mlookup m j =
       (if j \<in> set (mkeys (Objectives obj)) \<and> profile_of ps j \<noteq> zero_Profile
        then Some (if TypeOf (profile_of ps j) = Availability then PodSetAvailability (podStates scan)
             else doQuery http (profile_of ps j) obj)
        else None)"
    by (rule current_state_parts [OF assms(1)]) blast
  have keys: "set (mkeys m) = {k \<in> set (mkeys (Objectives obj)). profile_of ps k \<noteq> zero_Profile}"
    using mlookup_dom [of _ m] m(3) by (auto split: if_splits)
  have "\<not> IsBetter s (getDesiredState obj) ps"
    if "k \<in> set (mkeys (Objectives obj))" "profile_of ps k = zero_Profile" for k
  proof -
    have "set (mkeys m) \<subset> set (mkeys (Objectives obj))" using keys that by auto
    then have "mlen m < mlen (Objectives obj)"
      using mlen_mkeys [OF m(2)] mlen_mkeys [OF assms(2)] psubset_card_mono [of "set (mkeys (Objectives obj))"]
      by simp
    then show ?thesis by (simp add: IsBetter_iff m(1) getDesiredState_def)
  qed
  with keys m(1) show ?thesis by blast
qed

lemma unreported_available:
  assumes "getPods cl informer now key kd podErrors = Inr scan"
    and "\<forall>key \<in> set (mkeys podErrors). CHR ''/'' \<in> set key"
    and "\<forall>ns sel. \<forall>p \<in> set (informer ns sel). CHR ''/'' \<notin> set (pod_name p)"
  shows "\<forall>(name, v) \<in> set (entries (podStates scan)). PodAvailability v = 1"
proof -
  have one: "PodAvailability (pod_state podErrors now p) = 1" if "p \<in> set (informer ns sel)" for p ns sel
  proof -
    have "pod_name p \<notin> set (mkeys podErrors)" using assms(2,3) that by blast
    then have "mget [] podErrors (pod_name p) = []" by (simp add: mlookup_dom mget_def)
    then show ?thesis by (simp add: pod_state_def podAvailability_def)
  qed
  then show ?thesis
    using getPods_total [of cl informer now key kd podErrors] assms(1)
    by (fastforce simp: scan_ok_def nil_scan_def)
qed

definition sample_intent :: Intent where
  "sample_intent = zero_Intent\<lparr>IntentKey := ''ns/intent'', TargetKey := ''ns/app'', TargetKind := ''Deployment'',
     Objectives := Some [(''ns/availability'', Fin (99 / 100)), (''ns/p99'', 10)]\<rparr>"

definition sample_profiles :: profiles where
  "sample_profiles = Some [(''ns/availability'', zero_Profile\<lparr>ProfileKey := ''ns/availability'', TypeOf := Availability\<rparr>)]"

definition sample_pod :: pod where
  "sample_pod = \<lparr>pod_name = ''app-0'', pod_annotations = None,
     pod_containers = [\<lparr>requests = Some [(''cpu'', 500)], limits = None\<rparr>],
     pod_node = ''node-a'', pod_phase = ''Running'', pod_qos = ''Burstable''\<rparr>"

definition sample_cluster :: cluster where
  "sample_cluster =
     \<lparr>workloads = (\<lambda>k. if k = Deployment then [(''ns'', ''app'') \<mapsto>
          \<lparr>replicas = Some 1, selector = None, template_annotations = None, template_containers = []\<rparr>]
        else Map.empty),
      deleted_pods = [], outcomes = []\<rparr>"

definition sample_controller :: ControllerConfig where
  "sample_controller = \<lparr>Workers = 1, TaskChannelLength = 10, InformerTimeout = 30, ControllerTimeout = 15,
     PlanCacheTTL = 500, PlanCacheTimeout = 100, TelemetryEndpoint = '''', HostField = '''', Metrics = []\<rparr>"

definition sample_errors :: pod_errors where
  \<comment> \<open>what the pod monitor reported of the pod: down for half of its life\<close>
  "sample_errors = Some [(''ns/app-0'', [\<lparr>ErrorKey = ''ns/app-0'', Start = 1000000000, End = 3000000000, Created = 0\<rparr>])]"

lemma sample_current:
  "\<exists>s. getCurrentState (\<lambda>_. NoResponse) sample_controller sample_cluster (\<lambda>_ _. [sample_pod]) 4000000000
     sample_intent sample_errors sample_profiles = Inr s"
proof -
  obtain scan where "getPods sample_cluster (\<lambda>_ _. [sample_pod]) 4000000000 (TargetKey sample_intent)
      (TargetKind sample_intent) sample_errors = Inr scan"
    using getPods_total by blast
  moreover obtain m where "foldG (measure_objective (\<lambda>_. NoResponse) sample_intent sample_profiles (podStates scan))
      (mkeys (Objectives sample_intent)) mmake = Inr m"
    using measures [OF mmake_simps(5)] by blast
  ultimately show ?thesis by (simp add: getCurrentState_def sample_controller_def)
qed

theorem current_objectives_witness:
  "\<exists>s. getCurrentState (\<lambda>_. NoResponse) sample_controller sample_cluster (\<lambda>_ _. [sample_pod]) 4000000000
     sample_intent sample_errors sample_profiles = Inr s \<and>
     set (mkeys (objectives s)) = {''ns/availability''} \<and>
     \<not> IsBetter s (getDesiredState sample_intent) sample_profiles"
proof -
  obtain s where s: "getCurrentState (\<lambda>_. NoResponse) sample_controller sample_cluster (\<lambda>_ _. [sample_pod])
    4000000000 sample_intent sample_errors sample_profiles = Inr s" using sample_current by blast
  have keys: "mkeys (Objectives sample_intent) = [''ns/availability'', ''ns/p99'']"
    by (simp add: sample_intent_def)
  have profs: "profile_of sample_profiles ''ns/p99'' = zero_Profile"
    "profile_of sample_profiles ''ns/availability'' \<noteq> zero_Profile"
    by (simp_all add: sample_profiles_def profile_of_def mget_def zero_Profile_def)
  have "wf_map (Objectives sample_intent)" by (simp add: sample_intent_def)
  from current_objectives [OF s this] keys profs s show ?thesis by auto
qed

text \<open>
  C22. Failures of pods never reach the objectives: the pod monitor reports a failure under the key
  namespace/name, the measurement looks it up under the name alone, so a pod whose failures are all
  reported that way counts as always available, and an availability objective is measured as 1 no matter
  how often the pods fail.
\<close>
theorem availability_always_one:
  assumes "getCurrentState http cfg cl informer now obj podErrors ps = Inr s"
    and "\<forall>key \<in> set (mkeys podErrors). CHR ''/'' \<in> set key"
    and "\<forall>ns sel. \<forall>p \<in> set (informer ns sel). CHR ''/'' \<notin> set (pod_name p)"
    and "k \<in> set (mkeys (Objectives obj))" and "TypeOf (profile_of ps k) = Availability"
  shows "mlookup (objectives s) k = Some 1 \<and>
    (\<forall>(name, v) \<in> set (entries (CurrentPods s)). PodAvailability v = 1)"
proof -
  obtain scan m where scan: "getPods cl informer now (TargetKey obj) (TargetKind obj) podErrors = Inr scan"
    and m: "objectives s = m" "CurrentPods s = podStates scan"
    "\<forall>j. mlookup m j =
       (if j \<in> set (mkeys (Objectives obj)) \<and> profile_of ps j \<noteq> zero_Profile
        then Some (if TypeOf (profile_of ps j) = Availability then PodSetAvailability (podStates scan)
             else doQuery http (profile_of ps j) obj)
        else None)"
    by (rule current_state_parts [OF assms(1)]) blast
  note ones = unreported_available [OF scan assms(2,3)]
  have "fold (\<lambda>(_, v) res. res * (1 - PodAvailability v)) kvs r = Fin 0"
    if "\<forall>(name, v) \<in> set kvs. PodAvailability v = 1" "kvs \<noteq> [] \<or> r = Fin 0" "finite_float r" for kvs r
    using that
    by (induction kvs arbitrary: r) (auto simp: float_consts finite_float_def)
  from this [OF ones, of "Fin 1"] have "PodSetAvailability (podStates scan) = 1"
    by (simp add: PodSetAvailability_def float_consts mlen_def)
  moreover have "profile_of ps k \<noteq> zero_Profile" using assms(5) by (auto simp: zero_Profile_def)
  ultimately show ?thesis using m ones assms(4,5) by simp
qed

theorem availability_always_one_witness:
  "\<exists>s. getCurrentState (\<lambda>_. NoResponse) sample_controller sample_cluster (\<lambda>_ _. [sample_pod]) 4000000000
     sample_intent sample_errors sample_profiles = Inr s \<and> mlookup (objectives s) ''ns/availability'' = Some 1"
proof -
  obtain s where s: "getCurrentState (\<lambda>_. NoResponse) sample_controller sample_cluster (\<lambda>_ _. [sample_pod])
    4000000000 sample_intent sample_errors sample_profiles = Inr s" using sample_current by blast
  moreover have "mlookup (objectives s) ''ns/availability'' = Some 1"
    using availability_always_one [OF s, of "''ns/availability''"]
    by (simp add: sample_errors_def sample_pod_def sample_intent_def sample_profiles_def profile_of_def mget_def)
  ultimately show ?thesis by blast
qed

end
