(* ===== verification/Cpu_Scale.thy ===== *)
theory Cpu_Scale
  imports Scale_Out State_Helper
begin

text \<open>
  \<^verbatim>\<open>pkg/planner/actuators/scaling/cpu_scale.go\<close>: the actuator that sets the
  CPU requests and limits of the last container of a workload.  Amounts of CPU are
  64 bit integers in thousandths of a core.  The random number the proactive mode
  subtracts is the argument \<open>rnd\<close>: what \<open>rand.Int63n\<close> returns while an objective
  is looked at; it panics unless its bound is positive.
\<close>

section \<open>Data\<close>

definition cpuActionName :: string where
  "cpuActionName = ''scaleCPU''"

definition cpuGroupName :: string where
  "cpuGroupName = ''vertical_scaling''"

record CPUScaleConfig = PluginConfig +
  cs_PythonInterpreter :: string
  cs_Script :: string
  CPUMax :: int64
  CPURounding :: int64
  CPUSafeGuardFactor :: float64
  BoostFactor :: float64
  MaxProActiveCPU :: int64
  ProActiveLatencyPercentage :: float64
  cs_LookBack :: int

record CPUScaleEffect =
  LatencyRange :: "float64 \<times> float64"
  CPURange :: "float64 \<times> float64"
  Popts :: "(float64 \<times> float64 \<times> float64) list"
  cs_TrainingFeatures :: string
  cs_TargetFeature :: string
  cs_Image :: string

definition cpu_increment :: "CPUScaleConfig \<Rightarrow> int64" where
  \<comment> \<open>the field \<open>cpuIncrement\<close> that \<open>NewCPUScaleActuator\<close> sets\<close>
  "cpu_increment cfg = word_of_int (sint (MaxProActiveCPU cfg) sdiv 10)"

definition cpu_predictLatency :: "float64 \<times> float64 \<times> float64 \<Rightarrow> float64 \<Rightarrow> float64" where
  "cpu_predictLatency = (\<lambda>(p0, p1, p2) limCPU. p0 * fexp (- p1 * (limCPU / 1000)) + p2)"

section \<open>The resources of a state\<close>

record cpu_scan =
  cpuRequest :: int64
  cpuLimit :: int64
  lastIndex :: int

definition cpu_entry :: "string \<times> int64 \<Rightarrow> cpu_scan \<Rightarrow> cpu_scan" where
  \<comment> \<open>the body of the loop over the resources\<close>
  "cpu_entry = (\<lambda>(key, value) s.
     (let items = split_on (CHR ''_'') key in
      if length items \<noteq> 3 then s
      else (case atoi (items ! 0) of
          None \<Rightarrow> s
        | Some idx \<Rightarrow>
            if items ! 1 \<noteq> ''cpu'' then s
            else
              (let s = (if idx > lastIndex s then \<lparr>cpuRequest = 0, cpuLimit = 0, lastIndex = idx\<rparr> else s) in
               if idx = lastIndex s then
                 (if items ! 2 = ''requests'' then s\<lparr>cpuRequest := value\<rparr>
                  else if items ! 2 = ''limits'' then s\<lparr>cpuLimit := value\<rparr>
                  else s)
               else s))))"

definition getResourceValues :: "State \<Rightarrow> int64 \<times> int" where
  "getResourceValues state =
     (let s = fold cpu_entry (entries (Resources state)) \<lparr>cpuRequest = 0, cpuLimit = 0, lastIndex = - 1\<rparr> in
      if lastIndex s = - 1 then (0, - 1)
      else if le_s (cpuRequest s) (cpuLimit s) then (cpuLimit s, lastIndex s)
      else (cpuRequest s, lastIndex s))"

definition put_quantity :: "string \<Rightarrow> int64 \<Rightarrow> (string, int64) gomap \<Rightarrow> (string, int64) gomap go" where
  \<comment> \<open>an empty resource list is replaced by a new map first\<close>
  "put_quantity name v m = mput (if mlen m = 0 then mmake else m) name v"

definition boosted :: "CPUScaleConfig \<Rightarrow> int64 \<Rightarrow> int64" where
  "boosted cfg v = int64_of_float (float_of_int64 v * BoostFactor cfg)"

definition set_container_cpu :: "CPUScaleConfig \<Rightarrow> int64 \<Rightarrow> container \<Rightarrow> container go" where
  "set_container_cpu cfg newValue cont =
     bindG (put_quantity ''cpu'' newValue (requests cont)) (\<lambda>reqs.
       let cont = cont\<lparr>requests := reqs\<rparr> in
       if 1 \<le> BoostFactor cfg then
         bindG (put_quantity ''cpu'' (boosted cfg newValue) (limits cont)) (\<lambda>lims. Inr (cont\<lparr>limits := lims\<rparr>))
       else Inr cont)"

definition set_workload_cpu :: "CPUScaleConfig \<Rightarrow> int64 \<Rightarrow> workload \<Rightarrow> workload go" where
  \<comment> \<open>the last container of the template\<close>
  "set_workload_cpu cfg newValue w =
     (let cs = template_containers w; i = length cs - 1 in
      bindG (nthG cs i) (\<lambda>cont. bindG (set_container_cpu cfg newValue cont) (\<lambda>cont'.
        Inr (w\<lparr>template_containers := cs[i := cont']\<rparr>))))"

definition update_cpu ::
  "CPUScaleConfig \<Rightarrow> kind \<Rightarrow> string list \<Rightarrow> int64 \<Rightarrow> cluster \<Rightarrow> (cluster \<times> api_error option) go" where
  \<comment> \<open>the function retried on a conflict; a workload that is not found ends the retries\<close>
  "update_cpu cfg knd tmp newValue c =
     bindG (nthG tmp 0) (\<lambda>namespace. bindG (nthG tmp 1) (\<lambda>name.
       case Get knd (namespace, name) c of
         None \<Rightarrow> Inr (c, None)
       | Some w \<Rightarrow>
           bindG (set_workload_cpu cfg newValue w) (\<lambda>w'. Inr (Update knd (namespace, name) w' c))))"

definition setResourceValues :: "CPUScaleConfig \<Rightarrow> State \<Rightarrow> int64 \<Rightarrow> cluster \<Rightarrow> cluster go" where
  "setResourceValues cfg state newValue c =
     (let tmp = split_on (CHR ''/'') (TargetKey (IntentOf state)) in
      case kind_of (TargetKind (IntentOf state)) of
        None \<Rightarrow> Inr c
      | Some knd \<Rightarrow>
          bindG (retry_on_conflict DefaultRetry (update_cpu cfg knd tmp newValue) c) (\<lambda>(c', retryErr). Inr c'))"

section \<open>Follow-up states\<close>

definition roundUpCores :: "int64 \<Rightarrow> int64 \<Rightarrow> int64 go" where
  "roundUpCores n fraction =
     bindG (div_s n fraction) (\<lambda>q. let a = q * fraction; b = a + fraction in Inr b)"

fun getScalingEffects ::
  "CPUScaleConfig \<Rightarrow> CPUScaleEffect knowledge \<Rightarrow> Intent \<Rightarrow> profiles \<Rightarrow> string list \<Rightarrow>
   (string \<times> CPUScaleEffect) list \<Rightarrow> (string \<times> CPUScaleEffect) list option" where
  \<comment> \<open>over the objectives of the intent; None is the error\<close>
  "getScalingEffects cfg effects i profiles [] result = Some result"
| "getScalingEffects cfg effects i profiles (key # keys) result =
     (if is_latency profiles key then
        (case effects (IntentKey i) cpuGroupName key (cs_LookBack cfg) of
           None \<Rightarrow> None
         | Some res \<Rightarrow> getScalingEffects cfg effects i profiles keys (AList.update key res result))
      else getScalingEffects cfg effects i profiles keys result)"

fun popt_loop ::
  "CPUScaleConfig \<Rightarrow> State \<Rightarrow> string \<Rightarrow> (float64 \<times> float64 \<times> float64) list \<Rightarrow> State \<Rightarrow> (State \<times> int64) go" where
  \<comment> \<open>the loop over the models of one objective: the first that needs CPU at all\<close>
  "popt_loop cfg goal k [] newState = Inr (newState, 0)"
| "popt_loop cfg goal k ((p0, p1, p2) # popts) newState =
     (if mget 0 (objectives goal) k < p2 then popt_loop cfg goal k popts newState
      else
        (let latency = mget 0 (objectives goal) k * CPUSafeGuardFactor cfg in
         bindG (set_objective k latency newState) (\<lambda>newState.
           let cpuValue = int64_of_float (- (1 / p1) * flog ((latency - p2) / p0) * 1000) in
           if less_s 0 cpuValue then
             bindG (roundUpCores cpuValue (CPURounding cfg)) (\<lambda>newCPUValue. Inr (newState, newCPUValue))
           else popt_loop cfg goal k popts newState)))"

definition qos_class :: "CPUScaleConfig \<Rightarrow> string" where
  "qos_class cfg =
     (if feq (BoostFactor cfg) 1 then ''Guaranteed''
      else if 1 < BoostFactor cfg then ''Burstable''
      else ''BestEffort'')"

definition with_qos :: "string \<Rightarrow> (string, PodState) gomap \<Rightarrow> (string, PodState) gomap" where
  \<comment> \<open>each pod is written back under its name\<close>
  "with_qos q pods = map_option (map (\<lambda>(name, pod). (name, pod\<lparr>QoSClass := q\<rparr>))) pods"

definition cpu_key :: "int \<Rightarrow> string \<Rightarrow> string" where
  "cpu_key containerIndex suffix = join_with (CHR ''_'') [itoa containerIndex, ''cpu'', suffix]"

definition write_cpu :: "CPUScaleConfig \<Rightarrow> int \<Rightarrow> int64 \<Rightarrow> State \<Rightarrow> State go" where
  "write_cpu cfg containerIndex newCPUValue newState =
     bindG (set_resource (cpu_key containerIndex ''requests'') newCPUValue newState) (\<lambda>newState.
       if 1 \<le> BoostFactor cfg
       then set_resource (cpu_key containerIndex ''limits'') (boosted cfg newCPUValue) newState
       else Inr newState)"

definition cpu_state ::
  "CPUScaleConfig \<Rightarrow> string list \<Rightarrow> float64 \<Rightarrow> int \<Rightarrow> int64 \<Rightarrow> State \<Rightarrow> State go" where
  \<comment> \<open>the forecast state for a new amount of CPU\<close>
  "cpu_state cfg effectKeys latency containerIndex newCPUValue newState =
     bindG (foldG (\<lambda>objectiveKey. set_objective objectiveKey latency) effectKeys newState) (\<lambda>newState.
       let newState = newState\<lparr>CurrentPods := with_qos (qos_class cfg) (CurrentPods newState)\<rparr>;
           newState = (if Resources newState = None then newState\<lparr>Resources := mmake\<rparr> else newState)
       in bindG (write_cpu cfg containerIndex newCPUValue newState)
            (set_data cpuActionName (Some [(cpuActionName, 1)])))"

definition cpu_utility :: "CPUScaleConfig \<Rightarrow> State \<Rightarrow> int64 \<Rightarrow> int64 \<Rightarrow> float64" where
  "cpu_utility cfg goal currentCPU newCPUValue =
     (let utility = float_of_int64 newCPUValue / float_of_int64 (CPUMax cfg) in
      if less_s currentCPU newCPUValue then utility * (1 / Priority (IntentOf goal)) else utility)"

definition cpu_action :: "int64 \<Rightarrow> Action" where
  "cpu_action newCPUValue =
     \<lparr>ActionName = cpuActionName, Properties = IntProps (Some [(''value'', newCPUValue)])\<rparr>"

definition cpu_objective ::
  "CPUScaleConfig \<Rightarrow> (string \<times> CPUScaleEffect) list \<Rightarrow> State \<Rightarrow> State \<Rightarrow> int64 \<Rightarrow> int \<Rightarrow> profiles \<Rightarrow> string \<Rightarrow>
   proposal \<Rightarrow> proposal go" where
  \<comment> \<open>the body of the loop over the objectives\<close>
  "cpu_objective cfg effects state goal currentCPU containerIndex profiles k = (\<lambda>(candidates, utilities, actions).
     (if \<not> is_latency profiles k then Inr (candidates, utilities, actions)
      else
        (let latency = mget 0 (objectives goal) k * CPUSafeGuardFactor cfg in
         case map_of effects k of
           None \<Rightarrow> Inl NilDereference
         | Some eff \<Rightarrow>
             bindG (popt_loop cfg goal k (Popts eff) (DeepCopy state)) (\<lambda>(newState, newCPUValue).
               if newCPUValue \<noteq> currentCPU \<and> less_s 0 newCPUValue then
                 bindG (cpu_state cfg (map fst effects) latency containerIndex newCPUValue newState) (\<lambda>newState.
                   Inr (candidates @ [newState], utilities @ [cpu_utility cfg goal currentCPU newCPUValue],
                     actions @ [cpu_action newCPUValue]))
               else Inr (candidates, utilities, actions)))))"

definition cpu_findStates ::
  "CPUScaleConfig \<Rightarrow> CPUScaleEffect knowledge \<Rightarrow> State \<Rightarrow> State \<Rightarrow> int64 \<Rightarrow> int \<Rightarrow> profiles \<Rightarrow> proposal option go" where
  "cpu_findStates cfg knowledge state goal currentCPU containerIndex profiles =
     (case getScalingEffects cfg knowledge (IntentOf state) profiles (mkeys (objectives state)) [] of
        None \<Rightarrow> Inr None
      | Some effects \<Rightarrow>
          bindG (foldG (cpu_objective cfg effects state goal currentCPU containerIndex profiles)
                   (mkeys (objectives state)) no_proposal) (\<lambda>p. Inr (Some p)))"

section \<open>Proactive scaling\<close>

definition Int63n :: "(int64 \<Rightarrow> int64) \<Rightarrow> int64 \<Rightarrow> int64 go" where
  \<comment> \<open>\<open>rand.Int63n\<close>\<close>
  "Int63n rnd n = (if less_s 0 n then Inr (rnd n) else Inl InvalidArgument)"

definition cpu_increase :: "CPUScaleConfig \<Rightarrow> (int64 \<Rightarrow> int64) \<Rightarrow> float64 \<Rightarrow> int64 go" where
  \<comment> \<open>the step up, or the randomised step down of an objective that is met\<close>
  "cpu_increase cfg rnd delta =
     (if delta < 0 then
        bindG (Int63n rnd (word_of_int (sint (cpu_increment cfg) sdiv 2))) (\<lambda>r. Inr (- cpu_increment cfg + r))
      else Inr (cpu_increment cfg))"

fun proactive_loop ::
  "CPUScaleConfig \<Rightarrow> (string \<Rightarrow> int64 \<Rightarrow> int64) \<Rightarrow> State \<Rightarrow> int64 \<Rightarrow> profiles \<Rightarrow> (string \<times> float64) list \<Rightarrow>
   State \<times> int64 \<Rightarrow> (State \<times> int64) option go" where
  \<comment> \<open>None is the early return without a proposal\<close>
  "proactive_loop cfg rnd goal currentCPU profiles [] acc = Inr (Some acc)"
| "proactive_loop cfg rnd goal currentCPU profiles ((name, v) # objs) (tempState, newCPULim) =
     (if \<not> is_latency profiles name then proactive_loop cfg rnd goal currentCPU profiles objs (tempState, newCPULim)
      else
        (let delta = v - mget 0 (objectives goal) name in
         bindG (cpu_increase cfg (rnd name) delta) (\<lambda>incr.
           let tmp = currentCPU + incr in
           if less_s (MaxProActiveCPU cfg) tmp \<or> less_s tmp (cpu_increment cfg) then Inr None
           else
             (let newCPULim = (if less_s newCPULim tmp then tmp else newCPULim);
                  old = mget 0 (objectives tempState) name;
                  new = (if 0 < delta then old - old * ProActiveLatencyPercentage cfg
                         else old + old * ProActiveLatencyPercentage cfg)
              in bindG (set_objective name new tempState) (\<lambda>tempState.
                   proactive_loop cfg rnd goal currentCPU profiles objs (tempState, newCPULim))))))"

definition proactive_cpu_action :: "int64 \<Rightarrow> Action" where
  "proactive_cpu_action newCPULim = \<lparr>ActionName = cpuActionName,
     Properties = IntProps (Some [(''value'', newCPULim), (''proactive'', 1)])\<rparr>"

definition proactiveScaling ::
  "CPUScaleConfig \<Rightarrow> (string \<Rightarrow> int64 \<Rightarrow> int64) \<Rightarrow> State \<Rightarrow> State \<Rightarrow> int64 \<Rightarrow> profiles \<Rightarrow> proposal go" where
  "proactiveScaling cfg rnd state goal currentCPU profiles =
     (if mlookup (CurrentPods state) ''proactiveResourceAlloc'' \<noteq> None then Inr no_proposal
      else
        bindG (add_dummy ''proactiveResourceAlloc'' (DeepCopy state)) (\<lambda>tempState.
        bindG (set_data cpuActionName (Some [(cpuActionName, 1)]) tempState) (\<lambda>tempState.
        bindG (proactive_loop cfg rnd goal currentCPU profiles (entries (objectives tempState)) (tempState, 0)) (\<lambda>r.
          case r of
            None \<Rightarrow> Inr no_proposal
          | Some (tempState, newCPULim) \<Rightarrow>
              if newCPULim \<noteq> currentCPU
              then Inr ([tempState], [Fin (1 / 10)], [proactive_cpu_action newCPULim])
              else Inr no_proposal))))"

definition cpu_NextState ::
  "CPUScaleConfig \<Rightarrow> CPUScaleEffect knowledge \<Rightarrow> (string \<Rightarrow> int64 \<Rightarrow> int64) \<Rightarrow> next_state" where
  "cpu_NextState cfg knowledge rnd state goal profiles =
     (if mlookup (CurrentData state) cpuActionName \<noteq> None then Inr no_proposal
      else if mlen (CurrentPods state) = 0 then Inr no_proposal
      else
        (let (currentValue, containerIndex) = getResourceValues state in
         bindG (cpu_findStates cfg knowledge state goal currentValue containerIndex profiles) (\<lambda>r.
           let proactive = (if less_s 0 (MaxProActiveCPU cfg)
                            then proactiveScaling cfg rnd state goal currentValue profiles
                            else Inr no_proposal)
           in case r of
                None \<Rightarrow> proactive
              | Some (newStates, utilities, actions) \<Rightarrow>
                  if length newStates > 0 then Inr (newStates, utilities, actions) else proactive)))"

section \<open>Performing a plan\<close>

definition cpu_Perform :: "CPUScaleConfig \<Rightarrow> State \<Rightarrow> Action list \<Rightarrow> cluster \<Rightarrow> cluster go" where
  \<comment> \<open>only the first action of this actuator counts\<close>
  "cpu_Perform cfg state plan c =
     (case find (\<lambda>item. ActionName item = cpuActionName) plan of
        None \<Rightarrow> Inr c
      | Some item \<Rightarrow>
          (case Properties item of
             IntProps a \<Rightarrow>
               (case mlookup a ''value'' of
                  None \<Rightarrow> Inr c
                | Some val \<Rightarrow> setResourceValues cfg state val c)
           | _ \<Rightarrow> Inl TypeAssertion))"

definition cpu_Effect :: "CPUScaleConfig \<Rightarrow> State \<Rightarrow> profiles \<Rightarrow> string list list" where
  "cpu_Effect cfg state profiles =
     (if cs_Script cfg = ''None'' then []
      else map (\<lambda>objective. [cs_PythonInterpreter cfg, cs_Script cfg, IntentKey (IntentOf state), objective])
             (filter (is_latency profiles) (mkeys (objectives state))))"

section \<open>The proposals\<close>

lemma roundUpCores_total: "fraction \<noteq> 0 \<Longrightarrow> \<exists>v. roundUpCores n fraction = Inr v"
  by (simp add: roundUpCores_def div_s_def Let_def)

lemma popt_loop_total:
  assumes "writable s" and "CPURounding cfg \<noteq> 0"
  shows "\<exists>s' v. popt_loop cfg goal k popts s = Inr (s', v) \<and> writable s' \<and> CurrentPods s' = CurrentPods s"
  using assms(1)
proof (induction popts arbitrary: s)
  case (Cons p popts)
  obtain p0 p1 p2 where p: "p = (p0, p1, p2)" by (cases p)
  let ?latency = "mget 0 (objectives goal) k * CPUSafeGuardFactor cfg"
  let ?cpu = "int64_of_float (- (1 / p1) * flog ((?latency - p2) / p0) * 1000)"
  obtain s1 where s1: "set_objective k ?latency s = Inr s1" "writable s1" "CurrentPods s1 = CurrentPods s"
    using set_objective_writable [OF Cons.prems] by blast
  obtain v where v: "roundUpCores ?cpu (CPURounding cfg) = Inr v"
    using roundUpCores_total [OF assms(2)] by blast
  show ?case
    using Cons.IH [OF Cons.prems] Cons.IH [OF s1(2)] s1 v p
    by (cases "mget 0 (objectives goal) k < p2"; cases "less_s 0 ?cpu") (auto simp: Let_def)
qed simp

lemma set_objectives_total:
  "writable s \<Longrightarrow> \<exists>s'. foldG (\<lambda>k. set_objective k v) ks s = Inr s' \<and> writable s' \<and> CurrentPods s' = CurrentPods s"
  by (rule foldG_total [where P = "\<lambda>t. writable t \<and> CurrentPods t = CurrentPods s"])
    (use set_objective_writable in fastforce)+

lemma with_qos_writable: "writable s \<Longrightarrow> writable (s\<lparr>CurrentPods := with_qos q (CurrentPods s)\<rparr>)"
  by (auto simp: writable_def with_qos_def)

lemma pods_ok_qos:
  assumes "CurrentPods t = with_qos q (CurrentPods s)"
  shows "pods_ok t \<longleftrightarrow> pods_ok s"
proof -
  have e: "entries (CurrentPods t) = map (\<lambda>(n, p). (n, p\<lparr>QoSClass := q\<rparr>)) (entries (CurrentPods s))"
    using assms by (cases "CurrentPods s") (simp_all add: with_qos_def)
  show ?thesis unfolding pods_ok_def e by (auto simp: availability_ok_def)
qed

lemma set_resource_writable:
  assumes "writable s" and "Resources s \<noteq> None"
  shows "\<exists>s'. set_resource k v s = Inr s' \<and> writable s' \<and> Resources s' \<noteq> None \<and>
    CurrentPods s' = CurrentPods s \<and> mput (Resources s) k v = Inr (Resources s')"
proof -
  obtain kvs where "Resources s = Some kvs" using assms(2) by blast
  with assms show ?thesis by (auto simp: set_resource_Inr writable_def)
qed

lemma write_cpu_total:
  assumes "writable s" and "Resources s \<noteq> None"
  shows "\<exists>s'. write_cpu cfg i v s = Inr s' \<and> writable s' \<and> CurrentPods s' = CurrentPods s"
proof -
  obtain s1 where s1: "set_resource (cpu_key i ''requests'') v s = Inr s1" "writable s1" "Resources s1 \<noteq> None"
    "CurrentPods s1 = CurrentPods s" using set_resource_writable [OF assms] by blast
  obtain s2 where s2: "set_resource (cpu_key i ''limits'') (boosted cfg v) s1 = Inr s2" "writable s2"
    "CurrentPods s2 = CurrentPods s1" using set_resource_writable [OF s1(2,3)] by blast
  show ?thesis using s1(1,2,4) s2 by (cases "1 \<le> BoostFactor cfg") (simp_all add: write_cpu_def)
qed

lemma cpu_state_total:
  assumes "writable s"
  shows "\<exists>s'. cpu_state cfg ks latency i v s = Inr s' \<and> CurrentPods s' = with_qos (qos_class cfg) (CurrentPods s)"
proof -
  obtain s1 where s1: "foldG (\<lambda>k. set_objective k latency) ks s = Inr s1" "writable s1" "CurrentPods s1 = CurrentPods s"
    using set_objectives_total [OF assms] by blast
  define s2 where "s2 = s1\<lparr>CurrentPods := with_qos (qos_class cfg) (CurrentPods s1)\<rparr>"
  define s3 where "s3 = (if Resources s2 = None then s2\<lparr>Resources := mmake\<rparr> else s2)"
  have "writable s2" using with_qos_writable [OF s1(2)] by (simp add: s2_def)
  then have s3: "writable s3" "Resources s3 \<noteq> None" "CurrentPods s3 = with_qos (qos_class cfg) (CurrentPods s)"
    using s1(3) by (auto simp: s3_def s2_def writable_def mmake_def)
  obtain s4 where s4: "write_cpu cfg i v s3 = Inr s4" "writable s4" "CurrentPods s4 = CurrentPods s3"
    using write_cpu_total [OF s3(1,2)] by blast
  obtain s5 where s5: "set_data cpuActionName (Some [(cpuActionName, 1)]) s4 = Inr s5" "CurrentPods s5 = CurrentPods s4"
    using set_data_writable [OF s4(2)] by blast
  have "cpu_state cfg ks latency i v s = Inr s5"
    unfolding cpu_state_def s1(1) bindG_Inr Let_def s2_def [symmetric] s3_def [symmetric] s4(1) by (rule s5(1))
  then show ?thesis using s3(3) s4(3) s5(2) by simp
qed

lemma getScalingEffects_keys:
  assumes "getScalingEffects cfg effects i ps keys result = Some effs"
    and "k \<in> set keys \<and> is_latency ps k \<or> map_of result k \<noteq> None"
  shows "map_of effs k \<noteq> None"
  using assms
proof (induction keys arbitrary: result)
  case (Cons key keys)
  show ?case
  proof (cases "is_latency ps key")
    case False
    with Cons show ?thesis by auto
  next
    case True
    then obtain e where e: "effects (IntentKey i) cpuGroupName key (cs_LookBack cfg) = Some e"
      using Cons.prems(1) by (cases "effects (IntentKey i) cpuGroupName key (cs_LookBack cfg)") auto
    then have "getScalingEffects cfg effects i ps keys (AList.update key e result) = Some effs"
      using Cons.prems(1) True by simp
    moreover have "k \<in> set keys \<and> is_latency ps k \<or> map_of (AList.update key e result) k \<noteq> None"
      using Cons.prems(2) by (auto simp: update_conv')
    ultimately show ?thesis by (rule Cons.IH)
  qed
qed simp

definition cpu_candidate :: "CPUScaleConfig \<Rightarrow> State \<Rightarrow> State \<Rightarrow> int64 \<Rightarrow> State \<Rightarrow> float64 \<Rightarrow> Action \<Rightarrow> bool" where
  "cpu_candidate cfg state goal currentCPU c u a \<longleftrightarrow>
     (pods_ok state \<longrightarrow> pods_ok c) \<and>
     (\<exists>v. less_s 0 v \<and> v \<noteq> currentCPU \<and> u = cpu_utility cfg goal currentCPU v \<and> a = cpu_action v)"

lemma cpu_objective_step:
  assumes effs: "is_latency ps k \<Longrightarrow> map_of effs k \<noteq> None" and "CPURounding cfg \<noteq> 0"
    and p: "each_proposal (cpu_candidate cfg state goal cur) p"
  shows "\<exists>q. cpu_objective cfg effs state goal cur i ps k p = Inr q \<and>
    each_proposal (cpu_candidate cfg state goal cur) q"
proof -
  obtain cs us as where pp: "p = (cs, us, as)" by (cases p)
  show ?thesis
  proof (cases "is_latency ps k")
    case False
    with p pp show ?thesis by (simp add: cpu_objective_def)
  next
    case True
    then obtain eff where eff: "map_of effs k = Some eff" using effs by blast
    obtain s v where s: "popt_loop cfg goal k (Popts eff) (DeepCopy state) = Inr (s, v)" "writable s"
      "CurrentPods s = CurrentPods (DeepCopy state)"
      using popt_loop_total [OF writable_DeepCopy assms(2)] by blast
    obtain c where c: "cpu_state cfg (map fst effs) (mget 0 (objectives goal) k * CPUSafeGuardFactor cfg) i v s = Inr c"
      "CurrentPods c = with_qos (qos_class cfg) (CurrentPods s)"
      using cpu_state_total [OF s(2)] by blast
    have ok: "pods_ok state \<longrightarrow> pods_ok c"
      using pods_ok_qos [OF c(2)] pods_ok_cong [OF s(3)] by simp
    show ?thesis
    proof (cases "v \<noteq> cur \<and> less_s 0 v")
      case upd: True
      have "cpu_candidate cfg state goal cur c (cpu_utility cfg goal cur v) (cpu_action v)"
        using ok upd by (auto simp: cpu_candidate_def)
      then have "each_proposal (cpu_candidate cfg state goal cur)
          (cs @ [c], us @ [cpu_utility cfg goal cur v], as @ [cpu_action v])"
        using each_proposal_snoc p pp by blast
      moreover have "cpu_objective cfg effs state goal cur i ps k p =
          Inr (cs @ [c], us @ [cpu_utility cfg goal cur v], as @ [cpu_action v])"
        using True eff s(1) c(1) upd pp by (simp add: cpu_objective_def Let_def)
      ultimately show ?thesis by blast
    next
      case False
      then have "cpu_objective cfg effs state goal cur i ps k p = Inr p"
        using True eff s(1) pp by (auto simp: cpu_objective_def Let_def)
      with p show ?thesis by blast
    qed
  qed
qed

lemma cpu_findStates_spec:
  assumes "CPURounding cfg \<noteq> 0"
  shows "\<exists>r. cpu_findStates cfg knowledge state goal cur i ps = Inr r \<and>
    (\<forall>p. r = Some p \<longrightarrow> each_proposal (cpu_candidate cfg state goal cur) p)"
proof (cases "getScalingEffects cfg knowledge (IntentOf state) ps (mkeys (objectives state)) []")
  case None
  then show ?thesis by (simp add: cpu_findStates_def)
next
  case (Some effs)
  have "\<exists>q. foldG (cpu_objective cfg effs state goal cur i ps) (mkeys (objectives state)) no_proposal = Inr q \<and>
      each_proposal (cpu_candidate cfg state goal cur) q"
    by (rule foldG_total [where P = "each_proposal (cpu_candidate cfg state goal cur)"])
      (use getScalingEffects_keys [OF Some] assms in \<open>auto intro!: cpu_objective_step simp del: split_paired_Ex\<close>)
  then obtain q where q: "foldG (cpu_objective cfg effs state goal cur i ps) (mkeys (objectives state)) no_proposal = Inr q"
    "each_proposal (cpu_candidate cfg state goal cur) q" by blast
  with Some show ?thesis by (intro exI [of _ "Some q"]) (simp add: cpu_findStates_def)
qed

section \<open>Configurations that keep the contract\<close>

definition cpu_cfg_ok :: "CPUScaleConfig \<Rightarrow> bool" where
  \<comment> \<open>the proactive step can be halved and randomised\<close>
  "cpu_cfg_ok cfg \<longleftrightarrow>
     less_s 0 (CPUMax cfg) \<and> CPURounding cfg \<noteq> 0 \<and> (less_s 0 (MaxProActiveCPU cfg) \<longrightarrow> 20 \<le> sint (MaxProActiveCPU cfg))"

lemma sdiv_nonneg: "0 \<le> a \<Longrightarrow> 0 < b \<Longrightarrow> a sdiv b = (a :: int) div b"
  by (cases "a = 0") (simp_all add: signed_divide_int_def)

lemma sint_below: "sint (w :: int64) < 2 ^ 63" "- (2 ^ 63) \<le> sint (w :: int64)"
  using sint_lt [of w] sint_ge [of w] by simp_all

lemma increment_value:
  assumes "0 \<le> sint (MaxProActiveCPU cfg)"
  shows "sint (cpu_increment cfg) = sint (MaxProActiveCPU cfg) div 10"
proof -
  have "0 \<le> sint (MaxProActiveCPU cfg) div 10" "sint (MaxProActiveCPU cfg) div 10 < 2 ^ 63"
    using assms sint_below(1) [of "MaxProActiveCPU cfg"] by linarith+
  then show ?thesis
    unfolding cpu_increment_def sdiv_nonneg [OF assms, of 10, simplified]
    by (intro sint_word_of_int) simp_all
qed

lemma half_increment:
  assumes "0 \<le> sint (MaxProActiveCPU cfg)"
  shows "sint (word_of_int (sint (cpu_increment cfg) sdiv 2) :: int64) = sint (MaxProActiveCPU cfg) div 20"
proof -
  have "0 \<le> sint (MaxProActiveCPU cfg) div 10 div 2" "sint (MaxProActiveCPU cfg) div 10 div 2 < 2 ^ 63"
    using assms sint_below(1) [of "MaxProActiveCPU cfg"] by linarith+
  moreover have "sint (cpu_increment cfg) sdiv 2 = sint (MaxProActiveCPU cfg) div 10 div 2"
    using increment_value [OF assms] assms by (simp add: sdiv_nonneg)
  ultimately have "sint (word_of_int (sint (cpu_increment cfg) sdiv 2) :: int64) = sint (MaxProActiveCPU cfg) div 10 div 2"
    by (simp add: sint_word_of_int)
  also have "\<dots> = sint (MaxProActiveCPU cfg) div 20" by (simp add: zdiv_zmult2_eq [symmetric])
  finally show ?thesis .
qed

lemma cpu_increase_total:
  assumes "20 \<le> sint (MaxProActiveCPU cfg)"
  shows "\<exists>v. cpu_increase cfg rnd delta = Inr v"
proof -
  have "0 < sint (MaxProActiveCPU cfg) div 20" using assms by linarith
  then have "less_s 0 (word_of_int (sint (cpu_increment cfg) sdiv 2) :: int64)"
    using half_increment [of cfg] assms by (simp add: less_s_def)
  then show ?thesis by (simp add: cpu_increase_def Int63n_def)
qed

lemma proactive_loop_total:
  assumes "20 \<le> sint (MaxProActiveCPU cfg)" and "writable s"
  shows "\<exists>r. proactive_loop cfg rnd goal cur ps kvs (s, cap) = Inr r \<and>
    (\<forall>s' cap'. r = Some (s', cap') \<longrightarrow> CurrentPods s' = CurrentPods s)"
  using assms(2)
proof (induction kvs arbitrary: s cap)
  case (Cons kv kvs)
  obtain name v where kv: "kv = (name, v)" by (cases kv)
  obtain incr where incr: "cpu_increase cfg (rnd name) (v - mget 0 (objectives goal) name) = Inr incr"
    using cpu_increase_total [OF assms(1)] by blast
  have "\<exists>s'. set_objective name x s = Inr s' \<and> writable s' \<and> CurrentPods s' = CurrentPods s" for x
    using set_objective_writable [OF Cons.prems] by blast
  then obtain f where f: "\<And>x. set_objective name x s = Inr (f x)" "\<And>x. writable (f x)"
    "\<And>x. CurrentPods (f x) = CurrentPods s" by metis
  have step: "\<exists>r. proactive_loop cfg rnd goal cur ps kvs (f x, l) = Inr r \<and>
    (\<forall>s' cap'. r = Some (s', cap') \<longrightarrow> CurrentPods s' = CurrentPods s)" for x l
    using Cons.IH [OF f(2), of x l] f(3) by simp
  show ?case
    using step Cons.IH [OF Cons.prems, of cap] incr f(1) kv
    by (cases "is_latency ps name") (simp_all add: Let_def)
qed simp

definition cpu_proposal :: "CPUScaleConfig \<Rightarrow> State \<Rightarrow> State \<Rightarrow> State \<Rightarrow> float64 \<Rightarrow> Action \<Rightarrow> bool" where
  "cpu_proposal cfg state goal c u a \<longleftrightarrow>
     (\<exists>cur. cpu_candidate cfg state goal cur c u a) \<or>
     (pods_ok state \<longrightarrow> pods_ok c) \<and> u = Fin (1 / 10) \<and> (\<exists>v. a = proactive_cpu_action v)"

lemma proactiveScaling_spec:
  assumes "20 \<le> sint (MaxProActiveCPU cfg)"
  shows "\<exists>p. proactiveScaling cfg rnd state goal cur ps = Inr p \<and> each_proposal (cpu_proposal cfg state goal) p"
proof (cases "mlookup (CurrentPods state) ''proactiveResourceAlloc'' = None")
  case False
  then show ?thesis by (intro exI [of _ no_proposal]) (auto simp: proactiveScaling_def)
next
  case True
  obtain s where s: "add_dummy ''proactiveResourceAlloc'' (DeepCopy state) = Inr s" "writable s"
    "pods_ok state \<longrightarrow> pods_ok s"
    using add_dummy_spec [OF writable_DeepCopy, of "''proactiveResourceAlloc''" state] by auto
  obtain t where t: "set_data cpuActionName (Some [(cpuActionName, 1)]) s = Inr t" "writable t"
    "CurrentPods t = CurrentPods s"
    using set_data_writable [OF s(2)] by blast
  obtain r where r: "proactive_loop cfg rnd goal cur ps (entries (objectives t)) (t, 0) = Inr r"
    "\<And>s' cap'. r = Some (s', cap') \<Longrightarrow> CurrentPods s' = CurrentPods t"
    using proactive_loop_total [OF assms t(2)] by blast
  have eq: "proactiveScaling cfg rnd state goal cur ps =
    (case r of None \<Rightarrow> Inr no_proposal
     | Some (tempState, newCPULim) \<Rightarrow>
         if newCPULim \<noteq> cur then Inr ([tempState], [Fin (1 / 10)], [proactive_cpu_action newCPULim])
         else Inr no_proposal)"
    using True s(1) t(1) r(1) by (simp add: proactiveScaling_def)
  show ?thesis
  proof (cases r)
    case None
    then show ?thesis unfolding eq by (intro exI [of _ no_proposal]) simp
  next
    case (Some sl)
    obtain u cap where sl: "sl = (u, cap)" by (cases sl)
    have pods: "CurrentPods u = CurrentPods s" using r(2) [of u cap] Some sl t(3) by simp
    then have "pods_ok state \<longrightarrow> pods_ok u" using s(3) pods_ok_cong [OF pods] by simp
    then have p: "each_proposal (cpu_proposal cfg state goal) ([u], [Fin (1 / 10)], [proactive_cpu_action cap])"
      by (auto simp: cpu_proposal_def)
    show ?thesis
    proof (cases "cap = cur")
      case True
      then show ?thesis unfolding eq Some sl by (intro exI [of _ no_proposal]) simp
    next
      case False
      with p show ?thesis
        unfolding eq Some sl by (intro exI [of _ "([u], [Fin (1 / 10)], [proactive_cpu_action cap])"]) simp
    qed
  qed
qed

lemma cpu_NextState_spec:
  assumes "cpu_cfg_ok cfg"
  shows "\<exists>p. cpu_NextState cfg knowledge rnd state goal ps = Inr p \<and> each_proposal (cpu_proposal cfg state goal) p"
proof -
  obtain cur i where vals: "getResourceValues state = (cur, i)" by (cases "getResourceValues state")
  obtain r where r: "cpu_findStates cfg knowledge state goal cur i ps = Inr r"
    "\<And>p. r = Some p \<Longrightarrow> each_proposal (cpu_candidate cfg state goal cur) p"
    using cpu_findStates_spec [of cfg knowledge state goal cur i ps] assms by (auto simp: cpu_cfg_ok_def)
  define pro where "pro = (if less_s 0 (MaxProActiveCPU cfg)
    then proactiveScaling cfg rnd state goal cur ps else Inr no_proposal)"
  have none: "\<exists>p. Inr no_proposal = (Inr p :: proposal go) \<and> each_proposal (cpu_proposal cfg state goal) p"
    by (intro exI [of _ no_proposal]) simp
  have pro: "\<exists>p. pro = Inr p \<and> each_proposal (cpu_proposal cfg state goal) p"
    using proactiveScaling_spec [of cfg rnd state goal cur ps] none assms
    unfolding pro_def cpu_cfg_ok_def by (cases "less_s 0 (MaxProActiveCPU cfg)") simp_all
  have eq: "cpu_NextState cfg knowledge rnd state goal ps =
    (if mlookup (CurrentData state) cpuActionName \<noteq> None then Inr no_proposal
     else if mlen (CurrentPods state) = 0 then Inr no_proposal
     else case r of None \<Rightarrow> pro
       | Some (newStates, utilities, actions) \<Rightarrow>
           if length newStates > 0 then Inr (newStates, utilities, actions) else pro)"
    by (simp only: cpu_NextState_def vals prod.case Let_def r(1) bindG_Inr pro_def)
  have found: "\<exists>q. (case r of None \<Rightarrow> pro
       | Some (newStates, utilities, actions) \<Rightarrow>
           if length newStates > 0 then Inr (newStates, utilities, actions) else pro) = Inr q \<and>
     each_proposal (cpu_proposal cfg state goal) q"
  proof (cases r)
    case None
    with pro show ?thesis by simp
  next
    case (Some p)
    obtain cs us as where p: "p = (cs, us, as)" by (cases p)
    have "each_proposal (cpu_proposal cfg state goal) (cs, us, as)"
      using r(2) [OF Some] unfolding p by (rule each_proposal_mono) (auto simp: cpu_proposal_def)
    with Some p pro show ?thesis by (cases "cs = []") auto
  qed
  show ?thesis unfolding eq using none found by presburger
qed

lemma cpu_utility_ok:
  assumes "positive_priority goal ps" and "less_s 0 (CPUMax cfg)" and "less_s 0 v"
  shows "finite_float (cpu_utility cfg goal cur v) \<and> 0 \<le> cpu_utility cfg goal cur v"
  using assms
  by (auto simp: positive_priority_def cpu_utility_def float_of_int64_def less_s_def float_consts Let_def
      simp del: of_int_sint)

lemma cpu_proposal_ok:
  assumes "pods_ok state" and "positive_priority goal ps" and "cpu_cfg_ok cfg"
  shows "proposal_ok pods_ok (cpu_NextState cfg knowledge rnd state goal ps)"
proof -
  obtain p where p: "cpu_NextState cfg knowledge rnd state goal ps = Inr p"
    "each_proposal (cpu_proposal cfg state goal) p" using cpu_NextState_spec [OF assms(3)] by blast
  have "each_proposal (\<lambda>c u a. pods_ok c \<and> finite_float u \<and> 0 \<le> u) p"
    using p(2)
  proof (rule each_proposal_mono)
    fix c u a
    assume "cpu_proposal cfg state goal c u a"
    then show "pods_ok c \<and> finite_float u \<and> 0 \<le> u"
      using assms(1,3) cpu_utility_ok [OF assms(2)]
      by (auto simp: cpu_proposal_def cpu_candidate_def cpu_cfg_ok_def float_consts)
  qed
  with p(1) show ?thesis by (simp add: each_proposal_ok)
qed

interpretation cpu_scale: actuator "cpu_NextState cfg knowledge rnd" pods_ok
    "\<lambda>goal profiles. positive_priority goal profiles \<and> cpu_cfg_ok cfg"
  for cfg knowledge rnd
  by (rule actuatorI) (simp add: cpu_proposal_ok)

section \<open>What performing a plan does\<close>

lemma put_quantity_spec: "\<exists>m'. put_quantity name v m = Inr m' \<and> mlookup m' = (mlookup m)(name \<mapsto> v)"
  by (cases m) (auto simp: put_quantity_def mmake_def fun_eq_iff update_conv')

lemma set_container_cpu_spec:
  "\<exists>cont'. set_container_cpu cfg v cont = Inr cont' \<and>
     mlookup (requests cont') = (mlookup (requests cont))(''cpu'' \<mapsto> v) \<and>
     mlookup (limits cont') = (if 1 \<le> BoostFactor cfg then (mlookup (limits cont))(''cpu'' \<mapsto> boosted cfg v)
       else mlookup (limits cont))"
proof -
  obtain reqs where reqs: "put_quantity ''cpu'' v (requests cont) = Inr reqs"
    "mlookup reqs = (mlookup (requests cont))(''cpu'' \<mapsto> v)" using put_quantity_spec by blast
  obtain lims where lims: "put_quantity ''cpu'' (boosted cfg v) (limits cont) = Inr lims"
    "mlookup lims = (mlookup (limits cont))(''cpu'' \<mapsto> boosted cfg v)" using put_quantity_spec by blast
  show ?thesis using reqs lims by (simp add: set_container_cpu_def Let_def)
qed

definition cpu_written :: "CPUScaleConfig \<Rightarrow> int64 \<Rightarrow> workload \<Rightarrow> workload \<Rightarrow> bool" where
  \<comment> \<open>the specification: the last container requests the amount, everything else is as it was\<close>
  "cpu_written cfg v w w' \<longleftrightarrow>
     (let cont = List.last (template_containers w); cont' = List.last (template_containers w') in
      butlast (template_containers w') = butlast (template_containers w) \<and>
      mlookup (requests cont') = (mlookup (requests cont))(''cpu'' \<mapsto> v) \<and>
      mlookup (limits cont') = (if 1 \<le> BoostFactor cfg then (mlookup (limits cont))(''cpu'' \<mapsto> boosted cfg v)
        else mlookup (limits cont)) \<and>
      replicas w' = replicas w \<and> selector w' = selector w \<and> template_annotations w' = template_annotations w)"

lemma set_workload_cpu_spec:
  assumes "template_containers w \<noteq> []"
  shows "\<exists>w'. set_workload_cpu cfg v w = Inr w' \<and> cpu_written cfg v w w'"
proof -
  let ?cs = "template_containers w"
  obtain cont' where cont': "set_container_cpu cfg v (List.last ?cs) = Inr cont'"
    "mlookup (requests cont') = (mlookup (requests (List.last ?cs)))(''cpu'' \<mapsto> v)"
    "mlookup (limits cont') = (if 1 \<le> BoostFactor cfg then (mlookup (limits (List.last ?cs)))(''cpu'' \<mapsto> boosted cfg v)
       else mlookup (limits (List.last ?cs)))"
    using set_container_cpu_spec by blast
  have last: "?cs ! (length ?cs - 1) = List.last ?cs" using assms by (simp add: last_conv_nth)
  have "?cs[length ?cs - 1 := cont'] = butlast ?cs @ [cont']"
    using assms by (metis list_update_length append_butlast_last_id length_butlast)
  then have "set_workload_cpu cfg v w = Inr (w\<lparr>template_containers := butlast ?cs @ [cont']\<rparr>)"
    using assms cont'(1) last by (simp add: set_workload_cpu_def Let_def nthG_def)
  moreover have "cpu_written cfg v w (w\<lparr>template_containers := butlast ?cs @ [cont']\<rparr>)"
    using cont' by (simp add: cpu_written_def Let_def)
  ultimately show ?thesis by blast
qed

definition cpu_set :: "CPUScaleConfig \<Rightarrow> int64 \<Rightarrow> workload \<Rightarrow> workload" where
  "cpu_set cfg v w = (case set_workload_cpu cfg v w of Inl _ \<Rightarrow> w | Inr w' \<Rightarrow> w')"

lemma update_cpu_found:
  assumes "Get knd (namespace, name) c = Some w" and "template_containers w \<noteq> []"
  shows "update_cpu cfg knd [namespace, name] v c = Inr (Update knd (namespace, name) (cpu_set cfg v w) c)"
  using assms set_workload_cpu_spec [OF assms(2), of cfg v]
  by (auto simp: update_cpu_def nthG_def cpu_set_def)

text \<open>
  C30. Performing a plan sets the CPU of exactly the last container of the workload to the amount of the
  plan's first action, with a limit only when the boost factor asks for one; up to four conflicting
  changes of other clients are kept, and nothing else in the cluster changes.
\<close>
theorem cpu_performs:
  assumes "find (\<lambda>a. ActionName a = cpuActionName) plan = Some item" and "Properties item = IntProps m"
    and "mlookup m ''value'' = Some v" and "target_of (IntentOf state) namespace name knd"
    and "Get knd (namespace, name) c = Some w" and "interferences (outcomes c) fs rest" and "length fs < 5"
    and "template_containers w \<noteq> []"
    and "\<forall>f \<in> set fs. \<forall>v. template_containers v \<noteq> [] \<longrightarrow> template_containers (f v) \<noteq> []"
  shows "\<exists>c' w'. cpu_Perform cfg state plan c = Inr c' \<and> Get knd (namespace, name) c' = Some w' \<and>
    cpu_written cfg v (fold (\<lambda>f. f) fs w) w' \<and>
    (\<forall>knd' key'. (knd', key') \<noteq> (knd, (namespace, name)) \<longrightarrow> Get knd' key' c' = Get knd' key' c)"
proof -
  let ?key = "(namespace, name)" and ?w = "fold (\<lambda>f. f) fs w"
  have "\<exists>c'. retry_on_conflict DefaultRetry (update_cpu cfg knd [namespace, name] v) c = Inr (c', None) \<and>
    Get knd ?key c' = Some (cpu_set cfg v ?w) \<and> outcomes c' = rest \<and> deleted_pods c' = deleted_pods c \<and>
    (\<forall>knd' key'. (knd', key') \<noteq> (knd, ?key) \<longrightarrow> Get knd' key' c' = Get knd' key' c)"
    by (rule retry_read_modify_write_on [where Q = "\<lambda>w. template_containers w \<noteq> []"])
      (use assms(5-9) update_cpu_found in \<open>auto simp: DefaultRetry_def\<close>)
  then obtain c' where c': "retry_on_conflict DefaultRetry (update_cpu cfg knd [namespace, name] v) c = Inr (c', None)"
    "Get knd ?key c' = Some (cpu_set cfg v ?w)"
    "\<forall>knd' key'. (knd', key') \<noteq> (knd, ?key) \<longrightarrow> Get knd' key' c' = Get knd' key' c" by blast
  have "template_containers (fold (\<lambda>f. f) fs w) \<noteq> []"
    using assms(8,9) by (induction fs arbitrary: w) auto
  then have "cpu_written cfg v ?w (cpu_set cfg v ?w)"
    using set_workload_cpu_spec [of ?w cfg v] by (auto simp: cpu_set_def)
  moreover have "cpu_Perform cfg state plan c = Inr c'"
    using assms(1-4) c'(1) split_target [OF assms(4)]
    by (simp add: cpu_Perform_def setResourceValues_def target_of_def)
  ultimately show ?thesis using c'(2,3) by blast
qed

definition cpu_cfg :: "int64 \<Rightarrow> CPUScaleConfig" where
  \<comment> \<open>the given limit for proactive scaling, everything else as in the example configuration\<close>
  "cpu_cfg n = \<lparr>PluginEndpoint = ''cpu'', PluginPort = 33334, ManagerEndpoint = ''ido'', ManagerPort = 33333,
     Mongo = ''mongodb://db'', cs_PythonInterpreter = ''python3'', cs_Script = ''None'', CPUMax = 4000,
     CPURounding = 100, CPUSafeGuardFactor = Fin (95 / 100), BoostFactor = 1, MaxProActiveCPU = n,
     ProActiveLatencyPercentage = Fin (1 / 10), cs_LookBack = 10000\<rparr>"

definition two_containers :: workload where
  "two_containers = \<lparr>replicas = Some 1, selector = None, template_annotations = None,
     template_containers = [\<lparr>requests = Some [(''cpu'', 100)], limits = None\<rparr>, \<lparr>requests = None, limits = None\<rparr>]\<rparr>"

definition cpu_cluster :: cluster where
  "cpu_cluster = (store Deployment (''ns'', ''app'') two_containers busy_cluster)\<lparr>outcomes := [Accepted]\<rparr>"

theorem cpu_performs_witness:
  "\<exists>c' w'. cpu_Perform (cpu_cfg 0) (busy_state 20) [cpu_action 800] cpu_cluster = Inr c' \<and>
     Get Deployment (''ns'', ''app'') c' = Some w' \<and>
     map (\<lambda>cont. mlookup (requests cont) ''cpu'') (template_containers w') = [Some 100, Some 800]"
proof -
  have "find (\<lambda>a. ActionName a = cpuActionName) [cpu_action 800] = Some (cpu_action 800)"
    by (simp add: cpu_action_def)
  moreover have "Properties (cpu_action 800) = IntProps (Some [(''value'', 800)])" by (simp add: cpu_action_def)
  moreover have "target_of (IntentOf (busy_state 20)) ''ns'' ''app'' Deployment"
    by (simp add: target_of_def busy_state_def kind_of_def)
  moreover have "Get Deployment (''ns'', ''app'') cpu_cluster = Some two_containers" by (simp add: cpu_cluster_def)
  moreover have "interferences (outcomes cpu_cluster) [] []" by (simp add: interferences_def cpu_cluster_def)
  moreover have "template_containers two_containers \<noteq> []" by (simp add: two_containers_def)
  ultimately obtain c' w' where c': "cpu_Perform (cpu_cfg 0) (busy_state 20) [cpu_action 800] cpu_cluster = Inr c'"
    "Get Deployment (''ns'', ''app'') c' = Some w'" "cpu_written (cpu_cfg 0) 800 two_containers w'"
    using cpu_performs [of "[cpu_action 800]" "cpu_action 800" "Some [(''value'', 800)]" 800 "busy_state 20"
        "''ns''" "''app''" Deployment cpu_cluster two_containers "[]" "[]" "cpu_cfg 0"] by auto
  then have "butlast (template_containers w') = [\<lparr>requests = Some [(''cpu'', 100)], limits = None\<rparr>]"
    "mlookup (requests (List.last (template_containers w'))) ''cpu'' = Some 800"
    by (simp_all add: cpu_written_def two_containers_def Let_def)
  then have "map (\<lambda>cont. mlookup (requests cont) ''cpu'') (template_containers w') = [Some 100, Some 800]"
    by (cases "template_containers w'" rule: rev_cases) simp_all
  with c'(1,2) show ?thesis by (intro exI conjI)
qed

text \<open>
  C31. Proactive scaling without a latency objective proposes to take all CPU away: for a workload with
  CPU assigned and no proactive pod yet, \<open>NextState\<close> proposes the amount 0, because the maximum over
  the latency objectives starts at 0 and is compared with the current amount only.
\<close>
theorem proactive_zero_cpu:
  assumes "mlookup (CurrentData state) cpuActionName = None" and "mlen (CurrentPods state) \<noteq> 0"
    and "mlookup (CurrentPods state) ''proactiveResourceAlloc'' = None"
    and "\<forall>k \<in> set (mkeys (objectives state)). \<not> is_latency profiles k"
    and "less_s 0 (MaxProActiveCPU cfg)" and "fst (getResourceValues state) \<noteq> 0"
  shows "\<exists>c. cpu_NextState cfg knowledge rnd state goal profiles =
    Inr ([c], [Fin (1 / 10)], [proactive_cpu_action 0])"
proof -
  obtain cur i where vals: "getResourceValues state = (cur, i)" "cur \<noteq> 0"
    using assms(6) by (cases "getResourceValues state") auto
  have effs: "getScalingEffects cfg knowledge (IntentOf state) profiles keys result = Some result"
    if "set keys \<subseteq> set (mkeys (objectives state))" for keys result
    using that assms(4) by (induction keys) auto
  have skip: "foldG (cpu_objective cfg result state goal cur i profiles) keys p = Inr p"
    if "set keys \<subseteq> set (mkeys (objectives state))" for keys result p
    using that assms(4) by (induction keys) (auto simp: cpu_objective_def)
  have none: "cpu_findStates cfg knowledge state goal cur i profiles = Inr (Some no_proposal)"
    using effs [of "mkeys (objectives state)" "[]"] skip [of "mkeys (objectives state)"] by (simp add: cpu_findStates_def)
  obtain s where s: "add_dummy ''proactiveResourceAlloc'' (DeepCopy state) = Inr s" "writable s"
    "IntentOf s = IntentOf (DeepCopy state)"
    using add_dummy_spec [OF writable_DeepCopy, of "''proactiveResourceAlloc''" state] by auto
  obtain t where t: "set_data cpuActionName (Some [(cpuActionName, 1)]) s = Inr t" "IntentOf t = IntentOf s"
    using set_data_writable [OF s(2)] by blast
  have "proactive_loop cfg rnd goal cur profiles kvs acc = Inr (Some acc)"
    if "fst ` set kvs \<subseteq> set (mkeys (objectives state))" for kvs acc
    using that assms(4) by (induction kvs arbitrary: acc) auto
  then have "proactive_loop cfg rnd goal cur profiles (entries (objectives t)) (t, 0) = Inr (Some (t, 0))"
    using s(3) t(2) by (simp add: mkeys_def)
  then have "proactiveScaling cfg rnd state goal cur profiles = Inr ([t], [Fin (1 / 10)], [proactive_cpu_action 0])"
    using assms(3) s(1) t(1) vals(2) by (simp add: proactiveScaling_def)
  then show ?thesis
    using assms(1,2,5) vals(1) none by (simp add: cpu_NextState_def no_proposal_def)
qed

definition throughput_state :: State where
  \<comment> \<open>one pod with 500 thousandths of a core, and an objective of type throughput only\<close>
  "throughput_state = zero_State\<lparr>
     IntentOf := zero_Intent\<lparr>Priority := 1, TargetKey := ''ns/app'', TargetKind := ''Deployment'',
       Objectives := Some [(''rps'', 100)]\<rparr>,
     CurrentPods := Some [(''a'', zero_PodState\<lparr>Phase := ''Running'', PodAvailability := 1\<rparr>)],
     Resources := Some [(''0_cpu_requests'', 500)]\<rparr>"

lemma throughput_cpu: "getResourceValues throughput_state = (500, 0)"
  by (simp add: throughput_state_def getResourceValues_def cpu_entry_def atoi_def parse_nat_def is_digit_def
      digit_value_def Let_def le_s_def in_int64_def)

theorem proactive_zero_cpu_witness:
  "\<exists>c. cpu_NextState (cpu_cfg 2000) (\<lambda>_ _ _ _. None) (\<lambda>_ _. 0) throughput_state throughput_state busy_profiles =
    Inr ([c], [Fin (1 / 10)], [proactive_cpu_action 0])"
proof -
  have "\<forall>k \<in> set (mkeys (objectives throughput_state)). \<not> is_latency busy_profiles k"
    by (simp add: throughput_state_def)
  then show ?thesis
    using proactive_zero_cpu [of throughput_state busy_profiles "cpu_cfg 2000"] throughput_cpu
    by (simp add: cpu_cfg_def less_s_def) (simp add: throughput_state_def zero_State_def)
qed

end
