(* ===== verification/Resource_Keys.thy ===== *)
theory Resource_Keys
  imports Cpu_Scale
begin

text \<open>
  The resources of a state as a channel between two components: \<open>getPods\<close> writes
  the requests and limits of all containers into one map, under keys that hold the
  position of the container and the name of the resource, and the CPU actuator
  parses these keys to find the CPU of the last container.
\<close>

section \<open>Keys\<close>

lemma resource_key_split: "resource_key i name suffix = itoa (int i) @ CHR ''_'' # name @ CHR ''_'' # suffix"
  by (simp add: resource_key_def resourceDelimiter_def)

lemma first_part_unique:
  "c \<notin> set a \<Longrightarrow> c \<notin> set b \<Longrightarrow> a @ c # x = b @ c # y \<longleftrightarrow> a = b \<and> x = y"
proof (induction a arbitrary: b)
  case Nil
  then show ?case by (cases b) auto
next
  case (Cons d a)
  then show ?case by (cases b) auto
qed

lemma last_part_unique:
  assumes "c \<notin> set x" and "c \<notin> set y"
  shows "a @ c # x = b @ c # y \<longleftrightarrow> a = b \<and> x = y"
proof -
  have "a @ c # x = b @ c # y \<longleftrightarrow> rev (a @ c # x) = rev (b @ c # y)" by (simp only: rev_is_rev_conv)
  also have "\<dots> \<longleftrightarrow> rev x @ c # rev a = rev y @ c # rev b" by simp
  also have "\<dots> \<longleftrightarrow> a = b \<and> x = y" using first_part_unique [of c "rev x" "rev y"] assms by auto
  finally show ?thesis .
qed

definition in_index :: "nat \<Rightarrow> bool" where
  "in_index i \<longleftrightarrow> int i < 2 ^ 63"

lemma itoa_inj: "in_index i \<Longrightarrow> in_index j \<Longrightarrow> itoa (int i) = itoa (int j) \<longleftrightarrow> i = j"
proof -
  assume "in_index i" "in_index j"
  then have "in_int64 (int i)" "in_int64 (int j)" by (simp_all add: in_index_def in_int64_def)
  then show "itoa (int i) = itoa (int j) \<longleftrightarrow> i = j" by (metis atoi_itoa of_nat_eq_iff option.inject)
qed

lemma resource_key_inj:
  assumes "in_index i" "in_index j" "CHR ''_'' \<notin> set s" "CHR ''_'' \<notin> set t"
  shows "resource_key i n s = resource_key j m t \<longleftrightarrow> i = j \<and> n = m \<and> s = t"
  using assms itoa_inj [OF assms(1,2)]
  by (simp add: resource_key_split first_part_unique itoa_no_underscore last_part_unique)

section \<open>Reading keys\<close>

definition cpu_part :: "string \<times> int64 \<Rightarrow> (int \<times> string \<times> int64) option" where
  \<comment> \<open>what the actuator takes of an entry\<close>
  "cpu_part = (\<lambda>(key, value).
     (let items = split_on (CHR ''_'') key in
      if length items \<noteq> 3 \<or> items ! 1 \<noteq> ''cpu'' then None
      else map_option (\<lambda>i. (i, items ! 2, value)) (atoi (items ! 0))))"

definition cpu_step :: "int \<times> string \<times> int64 \<Rightarrow> cpu_scan \<Rightarrow> cpu_scan" where
  "cpu_step = (\<lambda>(i, suffix, value) s.
     (let s = (if i > lastIndex s then \<lparr>cpuRequest = 0, cpuLimit = 0, lastIndex = i\<rparr> else s) in
      if i = lastIndex s then
        (if suffix = ''requests'' then s\<lparr>cpuRequest := value\<rparr>
         else if suffix = ''limits'' then s\<lparr>cpuLimit := value\<rparr> else s)
      else s))"

lemma cpu_entry_part: "cpu_entry kv s = (case cpu_part kv of None \<Rightarrow> s | Some p \<Rightarrow> cpu_step p s)"
proof (cases kv)
  case (Pair key v)
  then show ?thesis
    by (cases "atoi (split_on (CHR ''_'') key ! 0)") (simp_all add: cpu_entry_def cpu_part_def cpu_step_def Let_def)
qed

lemma fold_cpu_entry: "fold cpu_entry kvs s = fold cpu_step (List.map_filter cpu_part kvs) s"
  by (induction kvs arbitrary: s) (simp_all add: cpu_entry_part List.map_filter_def split: option.splits)

definition scan_of :: "(int \<times> string \<times> int64) list \<Rightarrow> cpu_scan \<Rightarrow> bool" where
  \<comment> \<open>the scan holds the values of the largest index seen, 0 for what is missing\<close>
  "scan_of ps s \<longleftrightarrow>
     - 1 \<le> lastIndex s \<and> (\<forall>(i, _) \<in> set ps. i \<le> lastIndex s) \<and> (lastIndex s \<noteq> - 1 \<longrightarrow> lastIndex s \<in> fst ` set ps) \<and>
     (\<forall>v. (lastIndex s, ''requests'', v) \<in> set ps \<longrightarrow> cpuRequest s = v) \<and>
     ((\<forall>v. (lastIndex s, ''requests'', v) \<notin> set ps) \<longrightarrow> cpuRequest s = 0) \<and>
     (\<forall>v. (lastIndex s, ''limits'', v) \<in> set ps \<longrightarrow> cpuLimit s = v) \<and>
     ((\<forall>v. (lastIndex s, ''limits'', v) \<notin> set ps) \<longrightarrow> cpuLimit s = 0)"

lemma scan_step:
  assumes s: "scan_of ps s" and i: "0 \<le> i" and new: "\<forall>w. (i, suffix, w) \<notin> set ps"
  shows "scan_of (ps @ [(i, suffix, v)]) (cpu_step (i, suffix, v) s)"
proof -
  consider "i < lastIndex s" | "i = lastIndex s" | "lastIndex s < i" by linarith
  then show ?thesis
  proof cases
    case 1
    with s show ?thesis by (auto simp: scan_of_def cpu_step_def Let_def)
  next
    case 2
    then have "lastIndex s \<in> insert i (fst ` set ps)" by simp
    with 2 s i new show ?thesis unfolding scan_of_def cpu_step_def Let_def
      by (cases "suffix = ''requests''"; cases "suffix = ''limits''") auto
  next
    case 3
    then have "(i, r, w) \<notin> set ps" for r w using s by (auto simp: scan_of_def)
    with 3 s i show ?thesis unfolding scan_of_def cpu_step_def Let_def
      by (cases "suffix = ''requests''"; cases "suffix = ''limits''") auto
  qed
qed

lemma scan_fold:
  assumes "distinct (map (\<lambda>(i, suffix, _). (i, suffix)) ps)" and "\<forall>(i, _) \<in> set ps. 0 \<le> i"
  shows "scan_of ps (fold cpu_step ps \<lparr>cpuRequest = 0, cpuLimit = 0, lastIndex = - 1\<rparr>)"
  using assms
proof (induction ps rule: rev_induct)
  case Nil
  then show ?case by (simp add: scan_of_def)
next
  case (snoc p ps)
  obtain i suffix v where p: "p = (i, suffix, v)" by (cases p)
  have "scan_of ps (fold cpu_step ps \<lparr>cpuRequest = 0, cpuLimit = 0, lastIndex = - 1\<rparr>)"
    using snoc by simp
  moreover have "\<forall>w. (i, suffix, w) \<notin> set ps" using snoc.prems(1) p by force
  moreover have "0 \<le> i" using snoc.prems(2) p by simp
  ultimately show ?case using p scan_step by simp
qed

definition cpu_suffix :: "string \<Rightarrow> bool" where
  "cpu_suffix s \<longleftrightarrow> s = ''requests'' \<or> s = ''limits''"

lemma cpu_suffix_plain: "cpu_suffix s \<Longrightarrow> CHR ''_'' \<notin> set s"
  by (auto simp: cpu_suffix_def)

lemma cpu_part_key:
  assumes "in_index i" and s: "cpu_suffix s"
  shows "cpu_part (resource_key i n s, v) = (if n = ''cpu'' then Some (int i, s, v) else None)"
proof -
  have u: "CHR ''_'' \<notin> set s" by (rule cpu_suffix_plain [OF s])
  have split: "split_on (CHR ''_'') (resource_key i n s) = itoa (int i) # split_on (CHR ''_'') (n @ CHR ''_'' # s)"
    by (simp add: resource_key_split split_on_append itoa_no_underscore)
  show ?thesis
  proof (cases "CHR ''_'' \<in> set n")
    case True
    then have "count_list n (CHR ''_'') \<noteq> 0" by (simp add: count_list_0_iff)
    then have "length (split_on (CHR ''_'') (resource_key i n s)) \<noteq> 3"
      unfolding split by (simp add: length_split_on)
    moreover have "n \<noteq> ''cpu''" using True by auto
    ultimately show ?thesis by (simp add: cpu_part_def Let_def)
  next
    case False
    then have "split_on (CHR ''_'') (resource_key i n s) = [itoa (int i), n, s]"
      using u by (simp add: split split_on_append split_on_no_sep)
    moreover have "atoi (itoa (int i)) = Some (int i)"
      using assms(1) by (intro atoi_itoa) (simp add: in_index_def in_int64_def)
    ultimately show ?thesis by (simp add: cpu_part_def)
  qed
qed

section \<open>What a scan of the containers writes\<close>

lemma puts_lookup:
  assumes "foldG (\<lambda>(n, v) m. mput m (f n) v) kvs m = Inr m'" and "inj f" and "distinct (map fst kvs)"
  shows "mlookup m' (f n) = (case map_of kvs n of None \<Rightarrow> mlookup m (f n) | Some v \<Rightarrow> Some v)"
    and "k \<notin> range f \<Longrightarrow> mlookup m' k = mlookup m k" and "wf_map m \<Longrightarrow> wf_map m'"
proof -
  have "mlookup m' (f n) = (case map_of kvs n of None \<Rightarrow> mlookup m (f n) | Some v \<Rightarrow> Some v) \<and>
    (k \<notin> range f \<longrightarrow> mlookup m' k = mlookup m k) \<and> (wf_map m \<longrightarrow> wf_map m')"
    using assms(1,3)
  proof (induction kvs arbitrary: m)
    case (Cons kv kvs)
    obtain j v where kv: "kv = (j, v)" by (cases kv)
    then obtain m1 where m1: "mput m (f j) v = Inr m1" "foldG (\<lambda>(n, v) m. mput m (f n) v) kvs m1 = Inr m'"
      using Cons.prems(1) by (auto simp: bindG_eq_Inr)
    have "map_of kvs j = None" using Cons.prems(2) kv by (simp add: map_of_eq_None_iff)
    then show ?case
      using Cons.IH [OF m1(2)] Cons.prems(2) kv mlookup_mput [OF m1(1)] wf_map_mput [OF m1(1)] assms(2)
      by (auto simp: inj_eq split: option.splits)
  qed simp
  then show "mlookup m' (f n) = (case map_of kvs n of None \<Rightarrow> mlookup m (f n) | Some v \<Rightarrow> Some v)"
    "k \<notin> range f \<Longrightarrow> mlookup m' k = mlookup m k" "wf_map m \<Longrightarrow> wf_map m'" by blast+
qed

definition quantity :: "container \<Rightarrow> string \<Rightarrow> string \<Rightarrow> int64 option" where
  "quantity c n s = (if s = ''requests'' then mlookup (requests c) n else if s = ''limits'' then mlookup (limits c) n else None)"

definition wf_container :: "container \<Rightarrow> bool" where
  "wf_container c \<longleftrightarrow> wf_map (requests c) \<and> wf_map (limits c)"

lemma key_inj: "in_index i \<Longrightarrow> cpu_suffix s \<Longrightarrow> inj (\<lambda>n. resource_key i n s)"
  by (rule injI) (simp add: resource_key_inj cpu_suffix_plain)

lemma add_container_lookup:
  assumes step: "add_container (i, c) m = Inr m'" and "in_index i" and wf: "wf_container c"
    and fresh: "\<And>n s. mlookup m (resource_key i n s) = None"
  shows "mlookup m' k = Some v \<longleftrightarrow>
      mlookup m k = Some v \<or> (\<exists>n s. cpu_suffix s \<and> k = resource_key i n s \<and> quantity c n s = Some v)"
    and "wf_map m \<Longrightarrow> wf_map m'"
proof -
  let ?r = "\<lambda>n. resource_key i n ''requests''" and ?l = "\<lambda>n. resource_key i n ''limits''"
  obtain m1 where m1: "foldG (\<lambda>(n, v) m. mput m (?r n) v) (entries (requests c)) m = Inr m1"
    "foldG (\<lambda>(n, v) m. mput m (?l n) v) (entries (limits c)) m1 = Inr m'"
    using step by (auto simp: add_container_def bindG_eq_Inr)
  have sfx: "cpu_suffix ''requests''" "cpu_suffix ''limits''" by (simp_all add: cpu_suffix_def)
  have d: "distinct (map fst (entries (requests c)))" "distinct (map fst (entries (limits c)))"
    using wf by (simp_all add: wf_container_def wf_map_def mkeys_def)
  note r = puts_lookup [OF m1(1) key_inj [OF assms(2) sfx(1)] d(1)]
  note l = puts_lookup [OF m1(2) key_inj [OF assms(2) sfx(2)] d(2)]
  have neq: "?r n \<noteq> ?l n'" for n n' using resource_key_inj [OF assms(2,2)] by simp
  have out: "?l n \<notin> range ?r" for n
  proof
    assume "?l n \<in> range ?r"
    then obtain n' where "?l n = ?r n'" by blast
    then show False using neq [of n' n] by metis
  qed
  have rk: "mlookup m' (?r n) = mlookup (requests c) n" for n
    using l(2) [of "?r n"] r(1) [of n] fresh neq by (auto simp: mlookup_def split: option.splits)
  have lk: "mlookup m' (?l n) = mlookup (limits c) n" for n
    using l(1) [of n] r(2) [OF out [of n]] fresh [of n] by (cases "mlookup (limits c) n") (simp_all add: mlookup_def)
  have other: "mlookup m' k = mlookup m k" if "k \<notin> range ?r" "k \<notin> range ?l"
    using r(2) l(2) that by simp
  show "mlookup m' k = Some v \<longleftrightarrow>
      mlookup m k = Some v \<or> (\<exists>n s. cpu_suffix s \<and> k = resource_key i n s \<and> quantity c n s = Some v)"
  proof (cases "k \<in> range ?r \<or> k \<in> range ?l")
    case True
    then have "mlookup m k = None" using fresh by auto
    moreover have "mlookup m' k = Some v \<longleftrightarrow>
        (\<exists>n s. cpu_suffix s \<and> k = resource_key i n s \<and> quantity c n s = Some v)"
      using True
    proof
      assume "k \<in> range ?r"
      then obtain n where k: "k = ?r n" by blast
      have "k = resource_key i n' s \<and> cpu_suffix s \<longleftrightarrow> n' = n \<and> s = ''requests''" for n' s
        using k resource_key_inj [OF assms(2,2) cpu_suffix_plain [OF sfx(1)] cpu_suffix_plain, of s n n'] sfx(1) by auto
      then have "(\<exists>n s. cpu_suffix s \<and> k = resource_key i n s \<and> quantity c n s = Some v) \<longleftrightarrow>
          quantity c n ''requests'' = Some v" by metis
      then show ?thesis using rk [of n] k by (simp add: quantity_def)
    next
      assume "k \<in> range ?l"
      then obtain n where k: "k = ?l n" by blast
      have "k = resource_key i n' s \<and> cpu_suffix s \<longleftrightarrow> n' = n \<and> s = ''limits''" for n' s
        using k resource_key_inj [OF assms(2,2) cpu_suffix_plain [OF sfx(2)] cpu_suffix_plain, of s n n'] sfx(2) by auto
      then have "(\<exists>n s. cpu_suffix s \<and> k = resource_key i n s \<and> quantity c n s = Some v) \<longleftrightarrow>
          quantity c n ''limits'' = Some v" by metis
      then show ?thesis using lk [of n] k by (simp add: quantity_def)
    qed
    ultimately show ?thesis by simp
  next
    case False
    with other show ?thesis by (auto simp: cpu_suffix_def)
  qed
  show "wf_map m \<Longrightarrow> wf_map m'" using r(3) l(3) by blast
qed

definition contents_of :: "container list \<Rightarrow> (string, int64) gomap \<Rightarrow> bool" where
  "contents_of cs m \<longleftrightarrow> wf_map m \<and>
     (\<forall>k v. mlookup m k = Some v \<longleftrightarrow>
        (\<exists>j n s. j < length cs \<and> cpu_suffix s \<and> k = resource_key j n s \<and> quantity (cs ! j) n s = Some v))"

lemma ex_snoc:
  "(\<exists>j. j < length xs \<and> P j (xs ! j)) \<or> P (length xs) x \<longleftrightarrow>
   (\<exists>j. j < length (xs @ [x]) \<and> P j ((xs @ [x]) ! j))"
proof -
  have "(j < length (xs @ [x]) \<and> P j ((xs @ [x]) ! j)) \<longleftrightarrow>
      (j < length xs \<and> P j (xs ! j)) \<or> (j = length xs \<and> P j x)" for j
    by (auto simp: nth_append)
  then have "(\<exists>j. j < length (xs @ [x]) \<and> P j ((xs @ [x]) ! j)) \<longleftrightarrow>
      (\<exists>j. (j < length xs \<and> P j (xs ! j)) \<or> (j = length xs \<and> P j x))" by (rule arg_cong [OF ext])
  then show ?thesis by (simp only: ex_disj_distrib simp_thms)
qed

lemma add_containers:
  assumes "foldG add_container (enumerate 0 cs) mmake = Inr m" and "int (length cs) < 2 ^ 63"
    and "\<forall>c \<in> set cs. wf_container c"
  shows "contents_of cs m"
  using assms
proof (induction cs arbitrary: m rule: rev_induct)
  case Nil
  then have "m = mmake" by simp
  then show ?case by (simp add: contents_of_def)
next
  case (snoc c cs)
  then obtain m1 where m1: "foldG add_container (enumerate 0 cs) mmake = Inr m1"
    "add_container (length cs, c) m1 = Inr m"
    by (auto simp: enumerate_append_eq foldG_append bindG_eq_Inr)
  have ih: "contents_of cs m1" using snoc.IH [OF m1(1)] snoc.prems by simp
  have idx: "in_index j" if "j \<le> length cs" for j using snoc.prems(2) that by (simp add: in_index_def)
  have "mlookup m1 (resource_key (length cs) n s) = None" for n s
  proof (rule ccontr)
    assume "mlookup m1 (resource_key (length cs) n s) \<noteq> None"
    then obtain v where "mlookup m1 (resource_key (length cs) n s) = Some v" by blast
    then obtain j n' s' where j: "j < length cs" "resource_key (length cs) n s = resource_key j n' s'"
      using ih unfolding contents_of_def by blast
    then have "itoa (int (length cs)) = itoa (int j)"
      by (simp add: resource_key_split first_part_unique itoa_no_underscore)
    then show False using itoa_inj [OF idx idx, of "length cs" j] j(1) by simp
  qed
  note step = add_container_lookup [OF m1(2) idx _ this] snoc.prems(3)
  have wf: "wf_container c" using snoc.prems(3) by simp
  have lookup: "mlookup m k = Some v \<longleftrightarrow>
        (\<exists>j n s. j < length (cs @ [c]) \<and> cpu_suffix s \<and> k = resource_key j n s \<and> quantity ((cs @ [c]) ! j) n s = Some v)" for k v
  proof -
    have "mlookup m k = Some v \<longleftrightarrow>
       mlookup m1 k = Some v \<or> (\<exists>n s. cpu_suffix s \<and> k = resource_key (length cs) n s \<and> quantity c n s = Some v)"
      by (rule step(1)) (use wf in simp_all)
    also have "mlookup m1 k = Some v \<longleftrightarrow>
        (\<exists>j n s. j < length cs \<and> cpu_suffix s \<and> k = resource_key j n s \<and> quantity (cs ! j) n s = Some v)"
      using ih unfolding contents_of_def by blast
    also have "\<dots> \<or> (\<exists>n s. cpu_suffix s \<and> k = resource_key (length cs) n s \<and> quantity c n s = Some v) \<longleftrightarrow>
        (\<exists>j n s. j < length (cs @ [c]) \<and> cpu_suffix s \<and> k = resource_key j n s \<and> quantity ((cs @ [c]) ! j) n s = Some v)"
      using ex_snoc [of cs "\<lambda>j d. \<exists>n s. cpu_suffix s \<and> k = resource_key j n s \<and> quantity d n s = Some v" c] by simp
    finally show ?thesis .
  qed
  have "wf_map m" using step(2) wf ih by (simp add: contents_of_def)
  with lookup show ?case unfolding contents_of_def by blast
qed

section \<open>What the CPU actuator reads back\<close>

definition cpu_keys :: "(string \<times> int64) list \<Rightarrow> bool" where
  "cpu_keys kvs \<longleftrightarrow> (\<forall>(k, v) \<in> set kvs. \<exists>j n s. in_index j \<and> cpu_suffix s \<and> k = resource_key j n s)"

lemma cpu_part_cases:
  assumes "cpu_part (k, v) = Some p" and "in_index j" and "cpu_suffix s" and "k = resource_key j n s"
  shows "p = (int j, s, v) \<and> k = resource_key j ''cpu'' s"
  using assms cpu_part_key [OF assms(2,3), of n v] by (auto split: if_splits)

lemma cpu_parts_distinct:
  "distinct (map fst kvs) \<Longrightarrow> cpu_keys kvs \<Longrightarrow>
   distinct (map (\<lambda>(i, suffix, _). (i, suffix)) (List.map_filter cpu_part kvs))"
proof (induction kvs)
  case (Cons kv kvs)
  obtain k v where kv: "kv = (k, v)" by (cases kv)
  obtain j n s where k: "in_index j" "cpu_suffix s" "k = resource_key j n s"
    using Cons.prems(2) kv by (auto simp: cpu_keys_def)
  have keys: "cpu_keys kvs" using Cons.prems(2) by (simp add: cpu_keys_def)
  have ih: "distinct (map (\<lambda>(i, suffix, _). (i, suffix)) (List.map_filter cpu_part kvs))"
    using Cons.IH Cons.prems(1) keys by simp
  show ?case
  proof (cases "cpu_part kv")
    case None
    with ih show ?thesis by (simp add: List.map_filter_def)
  next
    case (Some p)
    then have p: "p = (int j, s, v)" "k = resource_key j ''cpu'' s" using cpu_part_cases [OF _ k] kv by auto
    have "(int j, s, w) \<notin> set (List.map_filter cpu_part kvs)" for w
    proof
      assume "(int j, s, w) \<in> set (List.map_filter cpu_part kvs)"
      then obtain k' v' where kv': "(k', v') \<in> set kvs" "cpu_part (k', v') = Some (int j, s, w)"
        by (auto simp: map_filter_def)
      then obtain j' n' s' where k': "in_index j'" "cpu_suffix s'" "k' = resource_key j' n' s'"
        using keys by (auto simp: cpu_keys_def)
      have "k' = k" using cpu_part_cases [OF kv'(2) k'] p by auto
      then show False using Cons.prems(1) kv kv'(1) by force
    qed
    then show ?thesis using ih Some p by (force simp: List.map_filter_def)
  qed
qed (simp add: List.map_filter_def)

lemma contents_entries:
  "contents_of cs m \<Longrightarrow> (k, v) \<in> set (entries m) \<longleftrightarrow> mlookup m k = Some v"
  using wf_map_lookup [of m k v] by (simp only: contents_of_def)

lemma cpu_parts_set:
  assumes "contents_of cs m" and "int (length cs) < 2 ^ 63"
  shows "(i, s, v) \<in> set (List.map_filter cpu_part (entries m)) \<longleftrightarrow>
     (\<exists>j < length cs. i = int j \<and> cpu_suffix s \<and> quantity (cs ! j) ''cpu'' s = Some v)"
proof
  note entry = contents_entries [OF assms(1)]
  have idx: "in_index j" if "j < length cs" for j using assms(2) that by (simp add: in_index_def)
  {
    assume "(i, s, v) \<in> set (List.map_filter cpu_part (entries m))"
    then obtain k w where kw: "(k, w) \<in> set (entries m)" "cpu_part (k, w) = Some (i, s, v)"
      by (auto simp: map_filter_def)
    then obtain j n s' where j: "j < length cs" "cpu_suffix s'" "k = resource_key j n s'"
      "quantity (cs ! j) n s' = Some w"
      using assms(1) entry unfolding contents_of_def by blast
    then show "\<exists>j < length cs. i = int j \<and> cpu_suffix s \<and> quantity (cs ! j) ''cpu'' s = Some v"
      using cpu_part_key [OF idx [OF j(1)] j(2), of n w] kw(2) by (auto split: if_splits)
  next
    assume "\<exists>j < length cs. i = int j \<and> cpu_suffix s \<and> quantity (cs ! j) ''cpu'' s = Some v"
    then obtain j where j: "j < length cs" "i = int j" "cpu_suffix s" "quantity (cs ! j) ''cpu'' s = Some v" by blast
    then have "(resource_key j ''cpu'' s, v) \<in> set (entries m)"
      using assms(1) entry unfolding contents_of_def by blast
    moreover have "cpu_part (resource_key j ''cpu'' s, v) = Some (i, s, v)"
      using cpu_part_key [OF idx [OF j(1)] j(3)] j(2) by simp
    ultimately show "(i, s, v) \<in> set (List.map_filter cpu_part (entries m))"
      by (force simp: map_filter_def)
  }
qed

definition has_cpu :: "container \<Rightarrow> bool" where
  "has_cpu c \<longleftrightarrow> mlookup (requests c) ''cpu'' \<noteq> None \<or> mlookup (limits c) ''cpu'' \<noteq> None"

lemma has_cpu_quantity: "has_cpu c \<longleftrightarrow> (\<exists>s v. cpu_suffix s \<and> quantity c ''cpu'' s = Some v)"
proof -
  have "(\<exists>s v. cpu_suffix s \<and> quantity c ''cpu'' s = Some v) \<longleftrightarrow>
      (\<exists>v. quantity c ''cpu'' ''requests'' = Some v) \<or> (\<exists>v. quantity c ''cpu'' ''limits'' = Some v)"
    unfolding cpu_suffix_def by blast
  then show ?thesis by (auto simp: has_cpu_def quantity_def)
qed

definition max_cpu :: "container \<Rightarrow> int64" where
  "max_cpu c =
     (let r = mget 0 (requests c) ''cpu''; l = mget 0 (limits c) ''cpu'' in if le_s r l then l else r)"

definition last_cpu :: "container list \<Rightarrow> nat \<Rightarrow> bool" where
  "last_cpu cs i \<longleftrightarrow> i < length cs \<and> has_cpu (cs ! i) \<and> (\<forall>j < length cs. i < j \<longrightarrow> \<not> has_cpu (cs ! j))"

lemma read_back:
  assumes m: "contents_of cs m" and len: "int (length cs) < 2 ^ 63" and last: "last_cpu cs i"
    and st: "Resources state = m"
  shows "getResourceValues state = (max_cpu (cs ! i), int i)"
proof -
  define ps where "ps = List.map_filter cpu_part (entries m)"
  define s where "s = fold cpu_step ps \<lparr>cpuRequest = 0, cpuLimit = 0, lastIndex = - 1\<rparr>"
  have elem: "(x, t, v) \<in> set ps \<longleftrightarrow>
      (\<exists>j < length cs. x = int j \<and> cpu_suffix t \<and> quantity (cs ! j) ''cpu'' t = Some v)" for x t v
    unfolding ps_def by (rule cpu_parts_set [OF m len])
  have keys: "cpu_keys (entries m)"
    unfolding cpu_keys_def
  proof clarify
    fix k v
    assume "(k, v) \<in> set (entries m)"
    then have "mlookup m k = Some v" using contents_entries [OF m] by simp
    then obtain j n s where "j < length cs" "cpu_suffix s" "k = resource_key j n s"
      using m unfolding contents_of_def by blast
    then show "\<exists>j n s. in_index j \<and> cpu_suffix s \<and> k = resource_key j n s"
      using len unfolding in_index_def by (intro exI [of _ j] exI [of _ n] exI [of _ s]) linarith
  qed
  have "distinct (map fst (entries m))" using m by (simp add: contents_of_def wf_map_def mkeys_def)
  then have "distinct (map (\<lambda>(i, suffix, _). (i, suffix)) ps)"
    unfolding ps_def by (rule cpu_parts_distinct [OF _ keys])
  moreover have "\<forall>(i, _) \<in> set ps. 0 \<le> i" using elem by auto
  ultimately have s: "scan_of ps s" unfolding s_def by (rule scan_fold)
  have has: "has_cpu (cs ! j) \<longleftrightarrow> (\<exists>t v. (int j, t, v) \<in> set ps)" if "j < length cs" for j
    using that elem [of "int j"] by (simp add: has_cpu_quantity)
  have i: "i < length cs" "has_cpu (cs ! i)" using last by (simp_all add: last_cpu_def)
  then obtain t v where "(int i, t, v) \<in> set ps" using has [OF i(1)] by blast
  then have le: "int i \<le> lastIndex s" using s by (auto simp: scan_of_def)
  then have "lastIndex s \<in> fst ` set ps" using s by (simp add: scan_of_def)
  then obtain t' v' where "(lastIndex s, t', v') \<in> set ps" by auto
  moreover from this obtain j where j: "j < length cs" "lastIndex s = int j" using elem by blast
  ultimately have "has_cpu (cs ! j)" using has [OF j(1)] by auto
  then have "\<not> i < j" using last j(1) unfolding last_cpu_def by blast
  with le j(2) have idx: "lastIndex s = int i" by simp
  have look: "(int i, t, v) \<in> set ps \<longleftrightarrow> cpu_suffix t \<and> quantity (cs ! i) ''cpu'' t = Some v" for t v
    using last by (auto simp: elem last_cpu_def)
  have "cpuRequest s = mget 0 (requests (cs ! i)) ''cpu''"
    using s idx look by (cases "mlookup (requests (cs ! i)) ''cpu''")
      (auto simp: scan_of_def mget_def quantity_def cpu_suffix_def)
  moreover have "cpuLimit s = mget 0 (limits (cs ! i)) ''cpu''"
    using s idx look by (cases "mlookup (limits (cs ! i)) ''cpu''")
      (auto simp: scan_of_def mget_def quantity_def cpu_suffix_def)
  ultimately show ?thesis
    using idx st by (simp add: getResourceValues_def fold_cpu_entry max_cpu_def Let_def flip: ps_def s_def)
qed

lemma later_pods_keep:
  assumes "foldG (scan_pod podErrors now) ps s = Inr s'" and "mlen (containerResources s) \<noteq> 0"
  shows "containerResources s' = containerResources s"
  using assms
proof (induction ps arbitrary: s)
  case (Cons p ps)
  then obtain t where t: "scan_pod podErrors now p s = Inr t" "foldG (scan_pod podErrors now) ps t = Inr s'"
    by (auto simp: bindG_eq_Inr)
  have "containerResources t = containerResources s"
    using t(1) Cons.prems(2) by (auto simp: scan_pod_def bindG_eq_Inr Let_def)
  with Cons.IH [OF t(2)] Cons.prems(2) show ?case by simp
qed simp

lemma first_pod_contents:
  assumes "foldG (scan_pod podErrors now) (p # ps) empty_scan = Inr scan"
    and "\<forall>c \<in> set (pod_containers p). wf_container c" and "int (length (pod_containers p)) < 2 ^ 63"
    and "last_cpu (pod_containers p) i"
  shows "contents_of (pod_containers p) (containerResources scan)"
proof -
  obtain t where t: "scan_pod podErrors now p empty_scan = Inr t" "foldG (scan_pod podErrors now) ps t = Inr scan"
    using assms(1) by (auto simp: bindG_eq_Inr)
  have "foldG add_container (enumerate 0 (pod_containers p)) mmake = Inr (containerResources t)"
    using t(1) by (auto simp: scan_pod_def bindG_eq_Inr Let_def empty_scan_def mlen_def)
  then have c: "contents_of (pod_containers p) (containerResources t)"
    by (rule add_containers) (rule assms)+
  obtain s v where "cpu_suffix s" "quantity (pod_containers p ! i) ''cpu'' s = Some v" "i < length (pod_containers p)"
    using assms(4) by (auto simp: last_cpu_def has_cpu_quantity)
  then have "mlookup (containerResources t) (resource_key i ''cpu'' s) = Some v"
    using c unfolding contents_of_def by blast
  then have "mlen (containerResources t) \<noteq> 0" by (auto simp: mlen_def mlookup_def)
  then show ?thesis using later_pods_keep [OF t(2)] c by simp
qed

text \<open>
  C34. Writer and reader of the resource map agree: of the pods of the target, the
  first one decides, and where its container i is the last one with a CPU request
  or limit, the actuator reads back exactly the larger of the two quantities (a
  missing one is 0) and the position i. This holds for every order in which the
  runtime iterates over the map, for any names of other resources, and for any
  number of containers.
\<close>
theorem cpu_of_first_pod:
  assumes "getPods cl informer now key targetKind podErrors = Inr scan"
    and "split_on (CHR ''/'') key = ns # nm # rest" and "target_labels cl (ns, nm) targetKind = Some labels"
    and "informer ns labels = p # ps"
    and "\<forall>c \<in> set (pod_containers p). wf_container c" and "int (length (pod_containers p)) < 2 ^ 63"
    and "last_cpu (pod_containers p) i" and "Resources state = containerResources scan"
  shows "getResourceValues state = (max_cpu (pod_containers p ! i), int i)"
proof (rule read_back [OF first_pod_contents])
  show "foldG (scan_pod podErrors now) (p # ps) empty_scan = Inr scan"
    using assms(1-4) by (simp add: getPods_def)
qed (use assms in simp_all)

definition mixed_pod :: pod where
  \<comment> \<open>the first container has CPU and memory, the second one a CPU limit only\<close>
  "mixed_pod =
     \<lparr>pod_name = ''p0'', pod_annotations = None,
      pod_containers =
        [\<lparr>requests = Some [(''memory'', 5), (''cpu'', 100)], limits = Some [(''cpu'', 200)]\<rparr>,
         \<lparr>requests = None, limits = Some [(''cpu'', 300)]\<rparr>],
      pod_node = ''n0'', pod_phase = ''Running'', pod_qos = ''Burstable''\<rparr>"

theorem cpu_of_first_pod_witness:
  "\<exists>scan. getPods busy_cluster (\<lambda>ns labels. [mixed_pod]) 0 ''ns/app'' ''Deployment'' None = Inr scan \<and>
     getResourceValues (zero_State\<lparr>Resources := containerResources scan\<rparr>) = (300, 1)"
proof -
  obtain scan where scan: "getPods busy_cluster (\<lambda>ns labels. [mixed_pod]) 0 ''ns/app'' ''Deployment'' None = Inr scan"
    using getPods_total [of busy_cluster "\<lambda>ns labels. [mixed_pod]" 0 "''ns/app''" "''Deployment''" None] by blast
  have key: "split_on (CHR ''/'') ''ns/app'' = ''ns'' # ''app'' # []" by code_simp
  have labels: "target_labels busy_cluster (''ns'', ''app'') ''Deployment'' = Some (Some None)"
    by (simp add: target_labels_def kind_of_def Get_def busy_cluster_def)
  have c: "pod_containers mixed_pod ! 1 = \<lparr>requests = None, limits = Some [(''cpu'', 300)]\<rparr>"
    by (simp add: mixed_pod_def)
  have wf: "\<forall>c \<in> set (pod_containers mixed_pod). wf_container c"
    by (simp add: mixed_pod_def wf_container_def wf_map_def mkeys_def)
  have last: "last_cpu (pod_containers mixed_pod) 1"
    unfolding last_cpu_def c by (simp add: has_cpu_def mixed_pod_def mlookup_def)
  have len: "int (length (pod_containers mixed_pod)) < 2 ^ 63" by (simp add: mixed_pod_def)
  have "max_cpu (pod_containers mixed_pod ! 1) = 300"
    unfolding c by (simp add: max_cpu_def mget_def mlookup_def le_s_def)
  then show ?thesis
    using scan cpu_of_first_pod [OF scan key labels _ wf len last, of "[]" "zero_State\<lparr>Resources := containerResources scan\<rparr>"]
    by simp
qed

end
