(* ===== verification/Plugin_Stubs.thy ===== *)
theory Plugin_Stubs
  imports Actuators Kubernetes
begin

text \<open>
  \<^verbatim>\<open>pkg/api/plugins/v1alpha1/actuator_client_stub.go\<close> and
  \<^verbatim>\<open>actuator_plugin_stub.go\<close>: the planner reaches an actuator that runs as a
  plugin through two stubs, which convert states, profiles and actions to messages
  and back.  The messages are those of \<^verbatim>\<open>api.proto\<close>; a pointer to a message is an
  option.

  Encoding, transport and decoding of a message are the arguments \<open>wq\<close>
  (requests), \<open>wr\<close> (responses) and \<open>wp\<close> (plans).  What is relied on is what
  protocol buffers document: every field arrives, a map with the same entries but
  possibly in another order, and a nil map cannot be told from an empty one.  What
  gRPC documents of a stream is that it is unusable after its first error.
\<close>

section \<open>Messages\<close>

record IntentMsg =
  m_Key :: string
  m_Priority :: float64
  m_TargetKey :: string
  m_TargetKind :: string
  m_Objectives :: "(string, float64) gomap"

record PodStateMsg =
  m_Availability :: float64
  m_NodeName :: string
  m_State :: string
  m_QosClass :: string

record DataEntry =
  m_Data :: "(string, float64) gomap"

record StateMsg =
  m_Intent :: "IntentMsg option"
  m_CurrentPods :: "(string, PodStateMsg) gomap"
  m_CurrentData :: "(string, DataEntry) gomap"
  m_Resources :: "(string, int64) gomap"
  m_Annotations :: "(string, string) gomap"

record ProfileMsg =
  m_ProfileKey :: string
  m_ProfileType :: int
  m_Minimize :: bool

datatype PropertyType = INT_PROPERTY | STRING_PROPERTY

record ActionProperties =
  m_Type :: PropertyType
  m_IntProperties :: "(string, int64) gomap"
  m_StrProperties :: "(string, string) gomap"

record ActionMsg =
  m_Name :: string
  m_Properties :: "ActionProperties option"

record NextStateRequest =
  rq_State :: "StateMsg option"
  rq_Goal :: "StateMsg option"
  rq_Profiles :: "(string, ProfileMsg) gomap"

record NextStateResponse =
  rs_States :: "StateMsg list"
  rs_Utilities :: "float64 list"
  rs_Actions :: "ActionMsg list"

record PerformRequest =
  pf_State :: "StateMsg option"
  pf_Plan :: "ActionMsg list"

record EffectRequest =
  ef_State :: "StateMsg option"
  ef_Profiles :: "(string, ProfileMsg) gomap"

section \<open>The client: to messages\<close>

definition convert_map :: "('a \<Rightarrow> 'b) \<Rightarrow> ('k, 'a) gomap \<Rightarrow> ('k, 'b) gomap" where
  \<comment> \<open>a fresh map, filled with the converted entries of another\<close>
  "convert_map f m = Some (map (\<lambda>(k, v). (k, f v)) (entries m))"

definition toGrpcPod :: "PodState \<Rightarrow> PodStateMsg" where
  "toGrpcPod v = \<lparr>m_Availability = PodAvailability v, m_NodeName = NodeName v, m_State = Phase v,
     m_QosClass = QoSClass v\<rparr>"

definition toGrpcState :: "State \<Rightarrow> StateMsg" where
  "toGrpcState s =
     \<lparr>m_Intent = Some \<lparr>m_Key = IntentKey (IntentOf s), m_Priority = Priority (IntentOf s),
        m_TargetKey = TargetKey (IntentOf s), m_TargetKind = TargetKind (IntentOf s),
        m_Objectives = objectives s\<rparr>,
      m_CurrentPods = convert_map toGrpcPod (CurrentPods s),
      m_CurrentData = convert_map (\<lambda>v. \<lparr>m_Data = v\<rparr>) (CurrentData s),
      m_Resources = convert_map (\<lambda>v. v) (Resources s),
      m_Annotations = convert_map (\<lambda>v. v) (Annotations s)\<rparr>"

definition toGrpcStates :: "State list \<Rightarrow> StateMsg list" where
  "toGrpcStates states = map toGrpcState states"

fun profile_number :: "ProfileType \<Rightarrow> int" where
  \<comment> \<open>the conversion between the two enumerations\<close>
  "profile_number Obsolete = 0"
| "profile_number Latency = 1"
| "profile_number Availability = 2"
| "profile_number Throughput = 3"
| "profile_number Power = 4"

definition toGrpcProfile :: "Profile \<Rightarrow> ProfileMsg" where
  "toGrpcProfile v = \<lparr>m_ProfileKey = ProfileKey v, m_ProfileType = profile_number (TypeOf v),
     m_Minimize = Minimize v\<rparr>"

definition toGrpcProfiles :: "profiles \<Rightarrow> (string, ProfileMsg) gomap" where
  "toGrpcProfiles p = convert_map toGrpcProfile p"

definition getNextStateRequest :: "State \<Rightarrow> State \<Rightarrow> profiles \<Rightarrow> NextStateRequest" where
  "getNextStateRequest state goal profiles =
     \<lparr>rq_State = Some (toGrpcState state), rq_Goal = Some (toGrpcState goal),
      rq_Profiles = toGrpcProfiles profiles\<rparr>"

definition toGrpcAction :: "Action \<Rightarrow> ActionMsg" where
  \<comment> \<open>properties that are not a map to integers are sent as a map to strings, nil for any other type\<close>
  "toGrpcAction a =
     \<lparr>m_Name = ActionName a,
      m_Properties = Some (case Properties a of
         IntProps iProp \<Rightarrow> \<lparr>m_Type = INT_PROPERTY, m_IntProperties = iProp, m_StrProperties = None\<rparr>
       | StrProps sProp \<Rightarrow> \<lparr>m_Type = STRING_PROPERTY, m_IntProperties = None, m_StrProperties = sProp\<rparr>
       | _ \<Rightarrow> \<lparr>m_Type = STRING_PROPERTY, m_IntProperties = None, m_StrProperties = None\<rparr>)\<rparr>"

definition toGrpcActions :: "Action list \<Rightarrow> ActionMsg list" where
  "toGrpcActions actions = map toGrpcAction actions"

definition getPerformRequest :: "State \<Rightarrow> Action list \<Rightarrow> PerformRequest" where
  "getPerformRequest state plan = \<lparr>pf_State = Some (toGrpcState state), pf_Plan = toGrpcActions plan\<rparr>"

definition getEffectRequest :: "State \<Rightarrow> profiles \<Rightarrow> EffectRequest" where
  "getEffectRequest state profiles =
     \<lparr>ef_State = Some (toGrpcState state), ef_Profiles = convert_map toGrpcProfile profiles\<rparr>"

section \<open>From messages\<close>

fun mapG :: "('a \<Rightarrow> 'b go) \<Rightarrow> 'a list \<Rightarrow> 'b list go" where
  \<comment> \<open>a loop that appends one converted element after the other\<close>
  "mapG f [] = Inr []"
| "mapG f (x # xs) = bindG (f x) (\<lambda>y. bindG (mapG f xs) (\<lambda>ys. Inr (y # ys)))"

definition toPod :: "PodStateMsg \<Rightarrow> PodState" where
  "toPod v = \<lparr>PodAvailability = m_Availability v, NodeName = m_NodeName v, Phase = m_State v,
     QoSClass = m_QosClass v\<rparr>"

definition toState :: "StateMsg option \<Rightarrow> State go" where
  \<comment> \<open>a missing state or intent is a nil pointer\<close>
  "toState s =
     (case s of
        None \<Rightarrow> Inl NilDereference
      | Some s \<Rightarrow>
          (case m_Intent s of
             None \<Rightarrow> Inl NilDereference
           | Some i \<Rightarrow> Inr
               \<lparr>IntentOf = \<lparr>IntentKey = m_Key i, Priority = m_Priority i, TargetKey = m_TargetKey i,
                  TargetKind = m_TargetKind i, ActivelyManaged = False, Objectives = m_Objectives i,
                  Tolerations = None\<rparr>,
                CurrentPods = convert_map toPod (m_CurrentPods s),
                CurrentData = convert_map m_Data (m_CurrentData s),
                Resources = convert_map (\<lambda>v. v) (m_Resources s),
                Annotations = convert_map (\<lambda>v. v) (m_Annotations s)\<rparr>))"

definition ProfileType_String :: "int \<Rightarrow> string" where
  \<comment> \<open>the generated method \<open>String\<close> of the enumeration\<close>
  "ProfileType_String n =
     (if n = 0 then ''OBSOLETE'' else if n = 1 then ''LATENCY'' else if n = 2 then ''AVAILABILITY''
      else if n = 3 then ''THROUGHPUT'' else if n = 4 then ''POWER'' else itoa n)"

definition toProfile :: "ProfileMsg \<Rightarrow> Profile" where
  "toProfile v = zero_Profile\<lparr>ProfileKey := m_ProfileKey v,
     TypeOf := ProfileTypeFromText (ProfileType_String (m_ProfileType v)), Minimize := m_Minimize v\<rparr>"

definition toProfiles :: "(string, ProfileMsg) gomap \<Rightarrow> profiles" where
  "toProfiles profiles = convert_map toProfile profiles"

definition toAction :: "ActionMsg \<Rightarrow> Action go" where
  "toAction a =
     (case m_Properties a of
        None \<Rightarrow> Inl NilDereference
      | Some p \<Rightarrow> Inr \<lparr>ActionName = m_Name a, Properties =
          (case m_Type p of INT_PROPERTY \<Rightarrow> IntProps (m_IntProperties p)
                          | STRING_PROPERTY \<Rightarrow> StrProps (m_StrProperties p))\<rparr>)"

definition toActions :: "ActionMsg list \<Rightarrow> Action list go" where
  "toActions plan = mapG toAction plan"

definition getNextStateResponse :: "NextStateResponse \<Rightarrow> proposal go" where
  \<comment> \<open>what the client makes of a response: the loops of \<open>toState\<close> and \<open>toActions\<close> once more\<close>
  "getNextStateResponse r =
     bindG (mapG (\<lambda>v. toState (Some v)) (rs_States r)) (\<lambda>states.
     bindG (mapG toAction (rs_Actions r)) (\<lambda>a. Inr (states, rs_Utilities r, a)))"

section \<open>The plugin side\<close>

definition getNextStateResponseServer :: "proposal \<Rightarrow> NextStateResponse" where
  "getNextStateResponseServer = (\<lambda>(states, utilities, actions).
     \<lparr>rs_States = toGrpcStates states, rs_Utilities = utilities, rs_Actions = toGrpcActions actions\<rparr>)"

definition handle_request :: "next_state \<Rightarrow> NextStateRequest \<Rightarrow> NextStateResponse go" where
  \<comment> \<open>the body of the loop of \<open>NextState\<close>\<close>
  "handle_request nextStateFunc r =
     bindG (toState (rq_State r)) (\<lambda>state. bindG (toState (rq_Goal r)) (\<lambda>goal.
       bindG (nextStateFunc state goal (toProfiles (rq_Profiles r))) (\<lambda>p.
         Inr (getNextStateResponseServer p))))"

fun plugin_NextState :: "next_state \<Rightarrow> NextStateRequest list \<Rightarrow> NextStateResponse list \<Rightarrow> NextStateResponse list go" where
  \<comment> \<open>the loop over what arrives on the stream until it ends; the last argument is what was sent\<close>
  "plugin_NextState nextStateFunc [] sent = Inr sent"
| "plugin_NextState nextStateFunc (r # rs) sent =
     bindG (handle_request nextStateFunc r) (\<lambda>response. plugin_NextState nextStateFunc rs (sent @ [response]))"

type_synonym 'w perform = "State \<Rightarrow> Action list \<Rightarrow> 'w \<Rightarrow> 'w go"

definition plugin_Perform :: "'w perform \<Rightarrow> PerformRequest \<Rightarrow> 'w \<Rightarrow> 'w go" where
  "plugin_Perform performFunc r w =
     bindG (toState (pf_State r)) (\<lambda>state. bindG (toActions (pf_Plan r)) (\<lambda>plan. performFunc state plan w))"

definition plugin_Effect :: "(State \<Rightarrow> profiles \<Rightarrow> 'w \<Rightarrow> 'w go) \<Rightarrow> EffectRequest \<Rightarrow> 'w \<Rightarrow> 'w go" where
  "plugin_Effect effectFunc r w =
     bindG (toState (ef_State r)) (\<lambda>state. effectFunc state (toProfiles (ef_Profiles r)) w)"

definition defaultNextStateFunc :: next_state where
  "defaultNextStateFunc state goal profiles = Inr no_proposal"

definition defaultPerformFunc :: "'w perform" where
  "defaultPerformFunc state plan w = Inr w"

section \<open>The client side\<close>

record PInfo =
  PName :: string
  PEndpoint :: string
  PVersion :: string

record PluginInfoMsg =
  pi_Name :: string
  pi_Endpoint :: string
  pi_SupportedVersions :: string

datatype stream =
    NoStream    \<comment> \<open>the field is nil\<close>
  | NilStream   \<comment> \<open>the field points to a nil interface\<close>
  | Open
  | Ended       \<comment> \<open>a call on it returned an error\<close>

record client_stub =
  pluginInfo :: PInfo
  stopTime :: int   \<comment> \<open>0 is the zero time\<close>
  stream_field :: stream

datatype fault = Works | OpenFails | SendFails | RecvFails

definition toPInfo :: "PluginInfoMsg \<Rightarrow> PInfo" where
  "toPInfo p = \<lparr>PName = pi_Name p, PEndpoint = pi_Endpoint p, PVersion = pi_SupportedVersions p\<rparr>"

fun connect :: "(nat \<Rightarrow> bool) \<Rightarrow> nat \<Rightarrow> nat \<Rightarrow> bool" where
  \<comment> \<open>\<open>dial i\<close>: whether the attempt \<open>i\<close> ends with a connection that is ready\<close>
  "connect dial i 0 = dial i"
| "connect dial i (Suc retries) = (if dial i then True else connect dial (Suc i) retries)"

definition newActuatorClientStub :: "PluginInfoMsg \<Rightarrow> (nat \<Rightarrow> bool) \<Rightarrow> nat \<Rightarrow> client_stub option" where
  \<comment> \<open>None is the error\<close>
  "newActuatorClientStub pInfo dial numberOfRetries =
     (if \<not> connect dial 0 numberOfRetries then None
      else Some \<lparr>pluginInfo = toPInfo pInfo, stopTime = 0, stream_field = NoStream\<rparr>)"

definition stop_stub :: "int \<Rightarrow> client_stub \<Rightarrow> client_stub" where
  "stop_stub now a = a\<lparr>stopTime := now\<rparr>"

definition isStopped :: "client_stub \<Rightarrow> bool" where
  "isStopped a \<longleftrightarrow> stopTime a \<noteq> 0"

definition open_stream :: "fault \<Rightarrow> client_stub \<Rightarrow> bool \<times> client_stub" where
  \<comment> \<open>False is the early return; the pointer is stored before the error is looked at\<close>
  "open_stream fault a =
     (if stream_field a = NoStream then
        (if fault = OpenFails then (False, a\<lparr>stream_field := NilStream\<rparr>)
         else (True, a\<lparr>stream_field := Open\<rparr>))
      else (True, a))"

definition call_stream ::
  "(NextStateRequest \<Rightarrow> NextStateRequest) \<Rightarrow> (NextStateResponse \<Rightarrow> NextStateResponse) \<Rightarrow> next_state \<Rightarrow>
   fault \<Rightarrow> stream \<Rightarrow> NextStateRequest \<Rightarrow> (NextStateResponse option \<times> stream) go" where
  \<comment> \<open>\<open>Send\<close> and \<open>Recv\<close>: None is an error of one of them. A plugin that panics ends its process,
      and so the stream\<close>
  "call_stream wq wr nextStateFunc fault strm request =
     (case strm of
        Open \<Rightarrow>
          if fault = SendFails then Inr (None, Ended)
          else if fault = RecvFails then Inr (None, Ended)
          else (case handle_request nextStateFunc (wq request) of
              Inl _ \<Rightarrow> Inr (None, Ended)
            | Inr response \<Rightarrow> Inr (Some (wr response), Open))
      | Ended \<Rightarrow> Inr (None, Ended)
      | _ \<Rightarrow> Inl NilDereference)"

definition client_NextState ::
  "(NextStateRequest \<Rightarrow> NextStateRequest) \<Rightarrow> (NextStateResponse \<Rightarrow> NextStateResponse) \<Rightarrow> next_state \<Rightarrow>
   fault \<Rightarrow> client_stub \<Rightarrow> State \<Rightarrow> State \<Rightarrow> profiles \<Rightarrow> (proposal \<times> client_stub) go" where
  "client_NextState wq wr nextStateFunc fault a state goal profiles =
     (if isStopped a then Inr (no_proposal, a)
      else
        (let (opened, a) = open_stream fault a in
         if \<not> opened then Inr (no_proposal, a)
         else
           bindG (call_stream wq wr nextStateFunc fault (stream_field a) (getNextStateRequest state goal profiles))
             (\<lambda>(response, strm).
               let a = a\<lparr>stream_field := strm\<rparr> in
               case response of
                 None \<Rightarrow> Inr (no_proposal, a)
               | Some r \<Rightarrow> bindG (getNextStateResponse r) (\<lambda>p. Inr (p, a)))))"

definition client_Perform ::
  "(PerformRequest \<Rightarrow> PerformRequest) \<Rightarrow> 'w perform \<Rightarrow> fault \<Rightarrow> client_stub \<Rightarrow> 'w perform" where
  \<comment> \<open>an error of the call is only logged; a panic is one of the plugin\<close>
  "client_Perform wp performFunc fault a state plan w =
     (if isStopped a then Inr w
      else if fault = OpenFails \<or> fault = SendFails then Inr w
      else plugin_Perform performFunc (wp (getPerformRequest state plan)) w)"

definition client_Effect ::
  "(EffectRequest \<Rightarrow> EffectRequest) \<Rightarrow> (State \<Rightarrow> profiles \<Rightarrow> 'w \<Rightarrow> 'w go) \<Rightarrow> fault \<Rightarrow> client_stub \<Rightarrow>
   State \<Rightarrow> profiles \<Rightarrow> 'w \<Rightarrow> 'w go" where
  "client_Effect we effectFunc fault a state profiles w =
     (if isStopped a then Inr w
      else if fault = OpenFails \<or> fault = SendFails then Inr w
      else plugin_Effect effectFunc (we (getEffectRequest state profiles)) w)"

section \<open>What the transport delivers\<close>

definition same_map :: "('a \<Rightarrow> 'b \<Rightarrow> bool) \<Rightarrow> ('k, 'a) gomap \<Rightarrow> ('k, 'b) gomap \<Rightarrow> bool" where
  \<comment> \<open>the same keys with related elements, in any order, each once; nil counts as empty\<close>
  "same_map R m m' \<longleftrightarrow> wf_map m' \<and> (\<forall>k. rel_option R (mlookup m k) (mlookup m' k))"

definition same_intent_msg :: "IntentMsg \<Rightarrow> IntentMsg \<Rightarrow> bool" where
  "same_intent_msg i j \<longleftrightarrow>
     m_Key i = m_Key j \<and> m_Priority i = m_Priority j \<and> m_TargetKey i = m_TargetKey j \<and>
     m_TargetKind i = m_TargetKind j \<and> same_map (=) (m_Objectives i) (m_Objectives j)"

definition same_state_msg :: "StateMsg \<Rightarrow> StateMsg \<Rightarrow> bool" where
  "same_state_msg s t \<longleftrightarrow>
     rel_option same_intent_msg (m_Intent s) (m_Intent t) \<and>
     same_map (=) (m_CurrentPods s) (m_CurrentPods t) \<and>
     same_map (\<lambda>d e. same_map (=) (m_Data d) (m_Data e)) (m_CurrentData s) (m_CurrentData t) \<and>
     same_map (=) (m_Resources s) (m_Resources t) \<and> same_map (=) (m_Annotations s) (m_Annotations t)"

definition same_properties_msg :: "ActionProperties \<Rightarrow> ActionProperties \<Rightarrow> bool" where
  "same_properties_msg p q \<longleftrightarrow>
     m_Type p = m_Type q \<and> same_map (=) (m_IntProperties p) (m_IntProperties q) \<and>
     same_map (=) (m_StrProperties p) (m_StrProperties q)"

definition same_action_msg :: "ActionMsg \<Rightarrow> ActionMsg \<Rightarrow> bool" where
  "same_action_msg a b \<longleftrightarrow>
     m_Name a = m_Name b \<and> rel_option same_properties_msg (m_Properties a) (m_Properties b)"

definition delivers_requests :: "(NextStateRequest \<Rightarrow> NextStateRequest) \<Rightarrow> bool" where
  "delivers_requests wq \<longleftrightarrow>
     (\<forall>r. rel_option same_state_msg (rq_State r) (rq_State (wq r)) \<and>
          rel_option same_state_msg (rq_Goal r) (rq_Goal (wq r)) \<and>
          same_map (=) (rq_Profiles r) (rq_Profiles (wq r)))"

definition delivers_responses :: "(NextStateResponse \<Rightarrow> NextStateResponse) \<Rightarrow> bool" where
  "delivers_responses wr \<longleftrightarrow>
     (\<forall>r. list_all2 same_state_msg (rs_States r) (rs_States (wr r)) \<and>
          rs_Utilities (wr r) = rs_Utilities r \<and>
          list_all2 same_action_msg (rs_Actions r) (rs_Actions (wr r)))"

definition delivers_plans :: "(PerformRequest \<Rightarrow> PerformRequest) \<Rightarrow> bool" where
  "delivers_plans wp \<longleftrightarrow>
     (\<forall>r. rel_option same_state_msg (pf_State r) (pf_State (wp r)) \<and>
          list_all2 same_action_msg (pf_Plan r) (pf_Plan (wp r)))"

section \<open>States on both sides\<close>

definition kept :: "State \<Rightarrow> State" where
  \<comment> \<open>what a message carries of a state\<close>
  "kept s = s\<lparr>IntentOf := (IntentOf s)\<lparr>ActivelyManaged := False, Tolerations := None\<rparr>\<rparr>"

definition kept_profile :: "Profile \<Rightarrow> Profile" where
  "kept_profile p = p\<lparr>Query := '''', External := False, Address := ''''\<rparr>"

definition same_state :: "State \<Rightarrow> State \<Rightarrow> bool" where
  "same_state s t \<longleftrightarrow>
     IntentKey (IntentOf s) = IntentKey (IntentOf t) \<and> Priority (IntentOf s) = Priority (IntentOf t) \<and>
     TargetKey (IntentOf s) = TargetKey (IntentOf t) \<and> TargetKind (IntentOf s) = TargetKind (IntentOf t) \<and>
     ActivelyManaged (IntentOf s) = ActivelyManaged (IntentOf t) \<and>
     same_map (=) (objectives s) (objectives t) \<and> same_map (=) (Tolerations (IntentOf s)) (Tolerations (IntentOf t)) \<and>
     same_map (=) (CurrentPods s) (CurrentPods t) \<and>
     same_map (same_map (=)) (CurrentData s) (CurrentData t) \<and>
     same_map (=) (Resources s) (Resources t) \<and> same_map (=) (Annotations s) (Annotations t)"

definition same_profiles :: "profiles \<Rightarrow> profiles \<Rightarrow> bool" where
  "same_profiles = same_map (\<lambda>p q. q = kept_profile p)"

fun same_properties :: "properties \<Rightarrow> properties \<Rightarrow> bool" where
  "same_properties (IntProps m) (IntProps m') = same_map (=) m m'"
| "same_properties (StrProps m) (StrProps m') = same_map (=) m m'"
| "same_properties NilProps (StrProps m') = (mlen m' = 0)"
| "same_properties OtherProps (StrProps m') = (mlen m' = 0)"
| "same_properties _ _ = False"

definition same_action :: "Action \<Rightarrow> Action \<Rightarrow> bool" where
  "same_action a b \<longleftrightarrow> ActionName a = ActionName b \<and> same_properties (Properties a) (Properties b)"

lemma mlookup_convert [simp]: "mlookup (convert_map f m) k = map_option f (mlookup m k)"
  by (cases m) (simp_all add: convert_map_def map_of_map)

lemma wf_convert [simp]: "wf_map (convert_map f m) = wf_map m"
  by (simp add: convert_map_def wf_map_def mkeys_def split_beta comp_def)

lemma convert_map_allocated [simp]: "convert_map f m \<noteq> None"
  by (simp add: convert_map_def)

lemma same_map_mono: "same_map R m m' \<Longrightarrow> (\<And>v v'. R v v' \<Longrightarrow> S v v') \<Longrightarrow> same_map S m m'"
  unfolding same_map_def by (metis option.rel_mono_strong)

lemma same_map_convert:
  assumes "same_map R (convert_map f m) m'" and "\<And>v v'. R (f v) v' \<Longrightarrow> S v (g v')"
  shows "same_map S m (convert_map g m')"
  unfolding same_map_def
proof (intro conjI allI)
  show "wf_map (convert_map g m')" using assms(1) by (simp add: same_map_def)
  fix k
  have "rel_option R (map_option f (mlookup m k)) (mlookup m' k)" using assms(1) by (simp add: same_map_def)
  then show "rel_option S (mlookup m k) (mlookup (convert_map g m') k)"
    using assms(2) by (cases "mlookup m k"; cases "mlookup m' k") auto
qed

lemma same_map_nil: "same_map R None m \<longleftrightarrow> mlen m = 0"
proof
  assume "same_map R None m"
  then have none: "mlookup m k = None" for k by (simp add: same_map_def)
  show "mlen m = 0"
  proof (cases "entries m")
    case (Cons e es)
    with none [of "fst e"] show ?thesis by (simp add: mlookup_def)
  qed (simp add: mlen_def)
next
  assume "mlen m = 0"
  then show "same_map R None m" by (simp add: mlen_def same_map_def mlookup_def wf_map_def mkeys_def)
qed

lemma state_arrives:
  assumes "rel_option same_state_msg (Some (toGrpcState s)) m"
  shows "\<exists>t. toState m = Inr t \<and> same_state (kept s) t \<and> CurrentPods t \<noteq> None \<and> CurrentData t \<noteq> None"
proof -
  obtain n where n: "m = Some n" "same_state_msg (toGrpcState s) n" using assms by (cases m) auto
  then obtain i where i: "m_Intent n = Some i" "same_intent_msg (the (m_Intent (toGrpcState s))) i"
    unfolding same_state_msg_def by (cases "m_Intent n") (auto simp: toGrpcState_def)
  have maps: "same_map (=) (convert_map toGrpcPod (CurrentPods s)) (m_CurrentPods n)"
    "same_map (\<lambda>d e. same_map (=) (m_Data d) (m_Data e)) (convert_map (\<lambda>v. \<lparr>m_Data = v\<rparr>) (CurrentData s)) (m_CurrentData n)"
    "same_map (=) (convert_map (\<lambda>v. v) (Resources s)) (m_Resources n)"
    "same_map (=) (convert_map (\<lambda>v. v) (Annotations s)) (m_Annotations n)"
    using n(2) by (simp_all add: same_state_msg_def toGrpcState_def)
  have "same_map (=) (CurrentPods s) (convert_map toPod (m_CurrentPods n))"
    by (rule same_map_convert [OF maps(1)]) (auto simp: toGrpcPod_def toPod_def)
  moreover have "same_map (same_map (=)) (CurrentData s) (convert_map m_Data (m_CurrentData n))"
    by (rule same_map_convert [OF maps(2)]) simp
  moreover have "same_map (=) (Resources s) (convert_map (\<lambda>v. v) (m_Resources n))"
    by (rule same_map_convert [OF maps(3)]) simp
  moreover have "same_map (=) (Annotations s) (convert_map (\<lambda>v. v) (m_Annotations n))"
    by (rule same_map_convert [OF maps(4)]) simp
  ultimately show ?thesis
    using n(1) i by (simp add: toState_def same_state_def kept_def same_intent_msg_def toGrpcState_def same_map_nil
        del: not_None_eq)
qed

lemma profile_type_arrives [simp]: "ProfileTypeFromText (ProfileType_String (profile_number t)) = t"
  by (cases t; hypsubst; code_simp)

lemma profiles_arrive:
  assumes "same_map (=) (toGrpcProfiles ps) qs"
  shows "same_profiles ps (toProfiles qs)"
  unfolding same_profiles_def toProfiles_def
  by (rule same_map_convert [OF assms [unfolded toGrpcProfiles_def]])
    (auto simp: toGrpcProfile_def toProfile_def kept_profile_def zero_Profile_def)

lemma action_arrives:
  assumes "same_action_msg (toGrpcAction a) m"
  shows "\<exists>b. toAction m = Inr b \<and> same_action a b"
proof -
  obtain p where p: "m_Name m = ActionName a" "m_Properties m = Some p"
    "same_properties_msg (the (m_Properties (toGrpcAction a))) p"
    using assms unfolding same_action_msg_def by (cases "m_Properties m") (auto simp: toGrpcAction_def)
  then show ?thesis
    by (cases "Properties a"; cases "m_Type p")
      (auto simp: toAction_def same_action_def toGrpcAction_def same_properties_msg_def same_map_nil)
qed

lemma list_arrives:
  assumes "list_all2 R (map f xs) ms" and "\<And>x m. R (f x) m \<Longrightarrow> \<exists>y. g m = Inr y \<and> S x y"
  shows "\<exists>ys. mapG g ms = Inr ys \<and> list_all2 S xs ys"
  using assms(1)
proof (induction xs arbitrary: ms)
  case (Cons x xs)
  then obtain m ms' where m: "ms = m # ms'" "R (f x) m" "list_all2 R (map f xs) ms'"
    by (auto simp: list_all2_Cons1)
  with assms(2) Cons.IH obtain y ys where "g m = Inr y" "S x y" "mapG g ms' = Inr ys" "list_all2 S xs ys" by blast
  with m(1) show ?case by (intro exI [of _ "y # ys"]) simp
qed simp

lemma plan_arrives:
  assumes "list_all2 same_action_msg (toGrpcActions plan) ms"
  shows "\<exists>plan'. toActions ms = Inr plan' \<and> list_all2 same_action plan plan'"
  unfolding toActions_def
  by (rule list_arrives [OF assms [unfolded toGrpcActions_def] action_arrives])

definition same_proposal :: "proposal \<Rightarrow> proposal \<Rightarrow> bool" where
  "same_proposal = (\<lambda>(cs, us, as) (cs', us', as').
     list_all2 (\<lambda>c c'. same_state (kept c) c') cs cs' \<and> us' = us \<and> list_all2 same_action as as')"

lemma proposal_arrives:
  assumes "delivers_responses wr"
  shows "\<exists>q. getNextStateResponse (wr (getNextStateResponseServer p)) = Inr q \<and> same_proposal p q"
proof (cases p)
  case (fields cs us as)
  let ?r = "getNextStateResponseServer p"
  have d: "list_all2 same_state_msg (map toGrpcState cs) (rs_States (wr ?r))" "rs_Utilities (wr ?r) = us"
    "list_all2 same_action_msg (map toGrpcAction as) (rs_Actions (wr ?r))"
    using spec [OF assms [unfolded delivers_responses_def], of ?r] fields
    by (simp_all add: getNextStateResponseServer_def toGrpcStates_def toGrpcActions_def)
  have "\<exists>cs'. mapG (\<lambda>v. toState (Some v)) (rs_States (wr ?r)) = Inr cs' \<and> list_all2 (\<lambda>c c'. same_state (kept c) c') cs cs'"
  proof (rule list_arrives [OF d(1)])
    fix x m
    assume "same_state_msg (toGrpcState x) m"
    then show "\<exists>y. toState (Some m) = Inr y \<and> same_state (kept x) y" using state_arrives [of x "Some m"] by auto
  qed
  moreover have "\<exists>as'. mapG toAction (rs_Actions (wr ?r)) = Inr as' \<and> list_all2 same_action as as'"
    by (rule list_arrives [OF d(3) action_arrives])
  ultimately show ?thesis using d(2) fields by (auto simp: getNextStateResponse_def same_proposal_def)
qed

lemma request_handled:
  assumes "delivers_requests wq"
  shows "\<exists>s g ps. same_state (kept state) s \<and> same_state (kept goal) g \<and> same_profiles profiles ps \<and>
     handle_request act (wq (getNextStateRequest state goal profiles)) =
       bindG (act s g ps) (\<lambda>p. Inr (getNextStateResponseServer p))"
proof -
  let ?r = "getNextStateRequest state goal profiles"
  note d = spec [OF assms [unfolded delivers_requests_def], of ?r]
  obtain s where s: "toState (rq_State (wq ?r)) = Inr s" "same_state (kept state) s"
    using state_arrives [of state "rq_State (wq ?r)"] d by (auto simp: getNextStateRequest_def)
  obtain g where g: "toState (rq_Goal (wq ?r)) = Inr g" "same_state (kept goal) g"
    using state_arrives [of goal "rq_Goal (wq ?r)"] d by (auto simp: getNextStateRequest_def)
  have "same_profiles profiles (toProfiles (rq_Profiles (wq ?r)))"
    by (rule profiles_arrive) (use d in \<open>simp add: getNextStateRequest_def\<close>)
  with s g show ?thesis by (intro exI [of _ s] exI [of _ g] exI [of _ "toProfiles (rq_Profiles (wq ?r))"])
      (simp add: handle_request_def)
qed

definition usable :: "client_stub \<Rightarrow> bool" where
  "usable a \<longleftrightarrow> \<not> isStopped a \<and> (stream_field a = NoStream \<or> stream_field a = Open)"

definition faultless :: "fault \<Rightarrow> client_stub \<Rightarrow> bool" where
  \<comment> \<open>a stream that is open already does not fail to open\<close>
  "faultless fault a \<longleftrightarrow> usable a \<and> (fault = Works \<or> fault = OpenFails \<and> stream_field a = Open)"

lemma client_works:
  assumes "faultless fault a"
  shows "client_NextState wq wr act fault a state goal profiles =
    (case handle_request act (wq (getNextStateRequest state goal profiles)) of
       Inl _ \<Rightarrow> Inr (no_proposal, a\<lparr>stream_field := Ended\<rparr>)
     | Inr r \<Rightarrow> bindG (getNextStateResponse (wr r)) (\<lambda>p. Inr (p, a\<lparr>stream_field := Open\<rparr>)))"
  using assms
  by (auto simp: faultless_def usable_def client_NextState_def open_stream_def call_stream_def Let_def split: sum.splits)

lemma remote_call:
  assumes "delivers_requests wq" and "delivers_responses wr" and "faultless fault a"
  shows "\<exists>s g ps. same_state (kept state) s \<and> same_state (kept goal) g \<and> same_profiles profiles ps \<and>
    (case act s g ps of
       Inl _ \<Rightarrow> client_NextState wq wr act fault a state goal profiles =
                 Inr (no_proposal, a\<lparr>stream_field := Ended\<rparr>)
     | Inr p \<Rightarrow> \<exists>q. client_NextState wq wr act fault a state goal profiles =
                 Inr (q, a\<lparr>stream_field := Open\<rparr>) \<and> same_proposal p q)"
proof -
  obtain s g ps where h: "same_state (kept state) s" "same_state (kept goal) g" "same_profiles profiles ps"
    "handle_request act (wq (getNextStateRequest state goal profiles)) =
       bindG (act s g ps) (\<lambda>p. Inr (getNextStateResponseServer p))"
    using request_handled [OF assms(1)] by blast
  note call = client_works [OF assms(3), of wq wr act state goal profiles]
  show ?thesis
  proof (cases "act s g ps")
    case (Inl e)
    with h call show ?thesis by (intro exI [of _ s] exI [of _ g] exI [of _ ps]) simp
  next
    case (Inr p)
    obtain q where "getNextStateResponse (wr (getNextStateResponseServer p)) = Inr q" "same_proposal p q"
      using proposal_arrives [OF assms(2)] by blast
    with h call Inr show ?thesis by (intro exI [of _ s] exI [of _ g] exI [of _ ps]) simp
  qed
qed

text \<open>
  C35. Asking an actuator through the two stubs is asking it directly, up to what messages do not carry:
  the plugin sees the state, the goal and the profiles with the same entries in some order, without
  tolerations, without the managed mark, and without the query and address of a profile; and what the
  planner gets is what the actuator proposed, with the type of the action properties kept. If the
  actuator panics the planner gets no proposal, and the stream has ended.
\<close>
theorem remote_next_state:
  assumes "delivers_requests wq" and "delivers_responses wr" and "usable a"
  shows "\<exists>s g ps. same_state (kept state) s \<and> same_state (kept goal) g \<and> same_profiles profiles ps \<and>
    (case act s g ps of
       Inl _ \<Rightarrow> client_NextState wq wr act Works a state goal profiles =
                 Inr (no_proposal, a\<lparr>stream_field := Ended\<rparr>)
     | Inr p \<Rightarrow> \<exists>q. client_NextState wq wr act Works a state goal profiles =
                 Inr (q, a\<lparr>stream_field := Open\<rparr>) \<and> same_proposal p q)"
  by (rule remote_call) (use assms in \<open>simp_all add: faultless_def\<close>)

section \<open>Lost streams\<close>

fun ask_repeatedly ::
  "(NextStateRequest \<Rightarrow> NextStateRequest) \<Rightarrow> (NextStateResponse \<Rightarrow> NextStateResponse) \<Rightarrow> next_state \<Rightarrow>
   (fault \<times> State \<times> State \<times> profiles) list \<Rightarrow> client_stub \<Rightarrow> (proposal list \<times> client_stub) go" where
  \<comment> \<open>the calls of the planner, one after the other\<close>
  "ask_repeatedly wq wr act [] a = Inr ([], a)"
| "ask_repeatedly wq wr act ((fault, s, g, ps) # calls) a =
     bindG (client_NextState wq wr act fault a s g ps) (\<lambda>(p, a).
     bindG (ask_repeatedly wq wr act calls a) (\<lambda>(qs, a). Inr (p # qs, a)))"

lemma ended_stays:
  assumes "stream_field a = Ended"
  shows "client_NextState wq wr act fault a s g ps = Inr (no_proposal, a)"
  using assms by (auto simp: client_NextState_def open_stream_def call_stream_def)

lemma ended_forever:
  "stream_field a = Ended \<Longrightarrow> ask_repeatedly wq wr act calls a = Inr (replicate (length calls) no_proposal, a)"
  by (induction calls) (auto simp: ended_stays)

lemma send_recv_fails:
  assumes "usable a" and "fault = SendFails \<or> fault = RecvFails"
  shows "client_NextState wq wr act fault a s g ps = Inr (no_proposal, a\<lparr>stream_field := Ended\<rparr>)"
  using assms by (auto simp: usable_def client_NextState_def open_stream_def call_stream_def Let_def)

text \<open>
  C36. The client stub never recovers from a failure of its stream: after one failed send or receive all
  later calls return no proposals, however healthy the plugin is by then, and after a stream that could
  not be opened the next call is a panic of the planner, because the pointer to the nil stream was
  stored before the error was looked at.
\<close>
theorem stream_never_recovers:
  assumes "usable a"
  shows "(fault = SendFails \<or> fault = RecvFails \<longrightarrow>
      ask_repeatedly wq wr act ((fault, s, g, ps) # calls) a =
        Inr (replicate (Suc (length calls)) no_proposal, a\<lparr>stream_field := Ended\<rparr>)) \<and>
    (stream_field a = NoStream \<longrightarrow>
      ask_repeatedly wq wr act ((OpenFails, s, g, ps) # call # calls) a = Inl NilDereference)"
proof (intro conjI impI)
  show "ask_repeatedly wq wr act ((fault, s, g, ps) # calls) a =
        Inr (replicate (Suc (length calls)) no_proposal, a\<lparr>stream_field := Ended\<rparr>)"
    if "fault = SendFails \<or> fault = RecvFails"
    by (simp add: send_recv_fails [OF assms that] ended_forever)
  assume "stream_field a = NoStream"
  with assms show "ask_repeatedly wq wr act ((OpenFails, s, g, ps) # call # calls) a = Inl NilDereference"
    by (cases call) (simp add: usable_def client_NextState_def open_stream_def call_stream_def isStopped_def)
qed

section \<open>A remote actuator under the contract\<close>

definition remote ::
  "(NextStateRequest \<Rightarrow> NextStateRequest) \<Rightarrow> (NextStateResponse \<Rightarrow> NextStateResponse) \<Rightarrow> next_state \<Rightarrow>
   fault \<Rightarrow> client_stub \<Rightarrow> next_state" where
  \<comment> \<open>one call, without the new state of the stub\<close>
  "remote wq wr act fault a state goal profiles =
     bindG (client_NextState wq wr act fault a state goal profiles) (\<lambda>(p, _). Inr p)"

definition transportable :: "(State \<Rightarrow> bool) \<Rightarrow> (State \<Rightarrow> profiles \<Rightarrow> bool) \<Rightarrow> bool" where
  \<comment> \<open>what the contract assumes does not depend on what messages lose\<close>
  "transportable ok env \<longleftrightarrow>
     (\<forall>s t. ok s \<and> same_state (kept s) t \<longrightarrow> ok t) \<and>
     (\<forall>s t ps qs. env s ps \<and> same_state (kept s) t \<and> same_profiles ps qs \<longrightarrow> env t qs)"

lemma same_proposal_ok:
  assumes "same_proposal p q" and "proposal_ok ok (Inr p)" and "transportable ok env"
  shows "proposal_ok ok (Inr q)"
proof -
  obtain cs us as cs' us' as' where pq: "p = (cs, us, as)" "q = (cs', us', as')" by (cases p, cases q)
  have r: "list_all2 (\<lambda>c c'. same_state (kept c) c') cs cs'" "us' = us" "list_all2 same_action as as'"
    using assms(1) pq by (simp_all add: same_proposal_def)
  have ok: "length us = length cs" "length as = length cs" "list_all (\<lambda>u. finite_float u \<and> 0 \<le> u) us" "list_all ok cs"
    using assms(2) pq by (simp_all add: proposal_ok_def)
  have "list_all ok cs'"
    using r(1) ok(4) assms(3) unfolding transportable_def list_all_length list_all2_conv_all_nth by metis
  then show ?thesis using r ok pq by (simp add: proposal_ok_def list_all2_lengthD)
qed

lemma remote_actuator:
  assumes "actuator act ok env" and "transportable ok env" and "delivers_requests wq" and "delivers_responses wr"
    and "stream_field a \<noteq> NilStream"
  shows "actuator (remote wq wr act fault a) ok env"
proof (rule actuatorI)
  fix s goal ps
  assume ok: "ok s" "env goal ps"
  show "proposal_ok ok (remote wq wr act fault a s goal ps)"
  proof (cases "faultless fault a")
    case True
    then obtain t g qs where t: "same_state (kept s) t" "same_state (kept goal) g" "same_profiles ps qs"
      "case act t g qs of
         Inl _ \<Rightarrow> client_NextState wq wr act fault a s goal ps = Inr (no_proposal, a\<lparr>stream_field := Ended\<rparr>)
       | Inr p \<Rightarrow> \<exists>q. client_NextState wq wr act fault a s goal ps =
                   Inr (q, a\<lparr>stream_field := Open\<rparr>) \<and> same_proposal p q"
      using remote_call [OF assms(3,4) True] by blast
    then have "ok t" "env g qs" using ok assms(2) unfolding transportable_def by blast+
    then have "proposal_ok ok (act t g qs)" by (rule actuator.proposes [OF assms(1)])
    then show ?thesis using t(4) True same_proposal_ok [OF _ _ assms(2)]
      by (auto simp: remote_def proposal_ok_def split: sum.splits)
  next
    case False
    have "\<exists>b. client_NextState wq wr act fault a s goal ps = Inr (no_proposal, b)"
    proof (cases "usable a")
      case True
      with False have "fault = OpenFails \<and> stream_field a = NoStream \<or> fault = SendFails \<or> fault = RecvFails"
        by (cases fault) (auto simp: faultless_def usable_def)
      moreover have "client_NextState wq wr act OpenFails a s goal ps = Inr (no_proposal, a\<lparr>stream_field := NilStream\<rparr>)"
        if "stream_field a = NoStream"
        using that True by (simp add: client_NextState_def open_stream_def usable_def)
      ultimately show ?thesis using send_recv_fails [OF True, of fault] by blast
    next
      case False
      with assms(5) have "isStopped a \<or> stream_field a = Ended"
        by (cases "stream_field a") (auto simp: usable_def)
      then show ?thesis using ended_stays [of a] by (auto simp: client_NextState_def)
    qed
    then show ?thesis by (auto simp: remote_def)
  qed
qed

section \<open>An encoding\<close>

definition wire_map :: "('a \<Rightarrow> 'b) \<Rightarrow> ('k, 'a) gomap \<Rightarrow> ('k, 'b) gomap" where
  \<comment> \<open>what a map is after encoding and decoding: nil if it is empty\<close>
  "wire_map f m =
     (if entries m = [] then None else Some (map (\<lambda>(k, v). (k, f v)) (AList.clearjunk (entries m))))"

definition wire_intent :: "IntentMsg \<Rightarrow> IntentMsg" where
  "wire_intent i = i\<lparr>m_Objectives := wire_map (\<lambda>v. v) (m_Objectives i)\<rparr>"

definition wire_state :: "StateMsg \<Rightarrow> StateMsg" where
  "wire_state s =
     \<lparr>m_Intent = map_option wire_intent (m_Intent s), m_CurrentPods = wire_map (\<lambda>v. v) (m_CurrentPods s),
      m_CurrentData = wire_map (\<lambda>d. \<lparr>m_Data = wire_map (\<lambda>v. v) (m_Data d)\<rparr>) (m_CurrentData s),
      m_Resources = wire_map (\<lambda>v. v) (m_Resources s), m_Annotations = wire_map (\<lambda>v. v) (m_Annotations s)\<rparr>"

definition wire_action :: "ActionMsg \<Rightarrow> ActionMsg" where
  "wire_action a = a\<lparr>m_Properties := map_option (\<lambda>p. p\<lparr>m_IntProperties := wire_map (\<lambda>v. v) (m_IntProperties p),
     m_StrProperties := wire_map (\<lambda>v. v) (m_StrProperties p)\<rparr>) (m_Properties a)\<rparr>"

definition wire_request :: "NextStateRequest \<Rightarrow> NextStateRequest" where
  "wire_request r = \<lparr>rq_State = map_option wire_state (rq_State r), rq_Goal = map_option wire_state (rq_Goal r),
     rq_Profiles = wire_map (\<lambda>v. v) (rq_Profiles r)\<rparr>"

definition wire_response :: "NextStateResponse \<Rightarrow> NextStateResponse" where
  "wire_response r = \<lparr>rs_States = map wire_state (rs_States r), rs_Utilities = rs_Utilities r,
     rs_Actions = map wire_action (rs_Actions r)\<rparr>"

definition wire_plan :: "PerformRequest \<Rightarrow> PerformRequest" where
  "wire_plan r = \<lparr>pf_State = map_option wire_state (pf_State r), pf_Plan = map wire_action (pf_Plan r)\<rparr>"

lemma same_wire:
  assumes "\<And>v. R v (f v)"
  shows "same_map R m (wire_map f m)"
proof -
  have "rel_option R (map_of xs k) (map_of (map (\<lambda>(k, v). (k, f v)) (AList.clearjunk xs)) k)" for xs k
    using assms by (cases "map_of xs k") (simp_all add: map_of_map map_of_clearjunk)
  moreover have "distinct (map fst (map (\<lambda>(k, v). (k, f v)) (AList.clearjunk xs)))" for xs
    using distinct_clearjunk [of xs] by (simp add: split_beta comp_def)
  ultimately show ?thesis by (cases m) (auto simp: same_map_def wire_map_def)
qed

lemma same_wire_id: "same_map (=) m (wire_map (\<lambda>v. v) m)"
  by (rule same_wire) simp

lemma same_wire_state: "same_state_msg s (wire_state s)"
  unfolding same_state_msg_def wire_state_def
  by (auto simp: same_wire_id wire_intent_def same_intent_msg_def option.rel_map option.rel_refl intro!: same_wire)

lemma same_wire_action: "same_action_msg a (wire_action a)"
  unfolding same_action_msg_def wire_action_def
  by (auto simp: same_wire_id same_properties_msg_def option.rel_map option.rel_refl)

lemma wire_delivers:
  "delivers_requests wire_request" "delivers_responses wire_response" "delivers_plans wire_plan"
  by (simp_all add: delivers_requests_def delivers_responses_def delivers_plans_def wire_request_def wire_response_def
      wire_plan_def option.rel_map option.rel_refl same_wire_state same_wire_action same_wire_id list.rel_map list_all2_refl)

definition new_stub :: client_stub where
  "new_stub = \<lparr>pluginInfo = \<lparr>PName = ''scaleOut'', PEndpoint = ''localhost:33334'', PVersion = ''v1alpha1''\<rparr>,
     stopTime = 0, stream_field = NoStream\<rparr>"

definition grow_act :: next_state where
  \<comment> \<open>proposes one more pod\<close>
  "grow_act s goal profiles = Inr ([DeepCopy s], [1],
     [\<lparr>ActionName = ''scaleOut'', Properties = IntProps (Some [(''factor'', 1)])\<rparr>])"

theorem remote_next_state_witness:
  "\<exists>c a. client_NextState wire_request wire_response grow_act Works new_stub zero_State zero_State None =
       Inr (([c], [1], [a]), new_stub\<lparr>stream_field := Open\<rparr>) \<and> same_properties (IntProps (Some [(''factor'', 1)])) (Properties a)"
proof -
  have "usable new_stub" by (simp add: usable_def new_stub_def isStopped_def)
  from remote_next_state [OF wire_delivers(1,2) this, of zero_State zero_State None grow_act]
  obtain s q where q: "client_NextState wire_request wire_response grow_act Works new_stub zero_State zero_State None =
      Inr (q, new_stub\<lparr>stream_field := Open\<rparr>)"
    "same_proposal ([DeepCopy s], [1], [\<lparr>ActionName = ''scaleOut'', Properties = IntProps (Some [(''factor'', 1)])\<rparr>]) q"
    by (auto simp: grow_act_def)
  from q(2) obtain c a where "q = ([c], [1], [a])" "same_properties (IntProps (Some [(''factor'', 1)])) (Properties a)"
    by (cases q) (auto simp: same_proposal_def list_all2_Cons1 same_action_def)
  with q(1) show ?thesis by blast
qed

theorem stream_never_recovers_witness:
  "ask_repeatedly wire_request wire_response grow_act
      [(RecvFails, zero_State, zero_State, None), (Works, zero_State, zero_State, None)] new_stub =
     Inr ([no_proposal, no_proposal], new_stub\<lparr>stream_field := Ended\<rparr>) \<and>
   ask_repeatedly wire_request wire_response grow_act
      [(OpenFails, zero_State, zero_State, None), (Works, zero_State, zero_State, None)] new_stub = Inl NilDereference"
proof -
  have u: "usable new_stub" by (simp add: usable_def new_stub_def isStopped_def)
  show ?thesis
    using stream_never_recovers [OF u, of RecvFails wire_request wire_response grow_act zero_State zero_State None
        "[(Works, zero_State, zero_State, None)]" "(Works, zero_State, zero_State, None)"]
      stream_never_recovers [OF u, of RecvFails wire_request wire_response grow_act zero_State zero_State None
        "[]" "(Works, zero_State, zero_State, None)"]
    by (simp add: new_stub_def)
qed

end
