(* ===== verification/Plugin_Manager.thy ===== *)
theory Plugin_Manager
  imports Plugin_Stubs
begin

text \<open>
  \<^verbatim>\<open>pkg/api/plugins/v1alpha1/plugin_manager.go\<close> and \<^verbatim>\<open>types.go\<close>:
  registration of plugins, the reconcile loop that drops plugins without a
  connection, and the iteration of the planner over all actuators.

  Registrations are served concurrently and hold the lock only while they look a
  name up and while they store a stub, so a registration is two steps: it arrives,
  and later, with the outcome of its attempts to connect, it is finished.
\<close>

section \<open>State\<close>

definition pluginVersion :: string where
  "pluginVersion = ''v1alpha1''"

record PluginManagerServer =
  builtin :: "next_state list"
  registeredPlugins :: "(string, client_stub) gomap"
  registeredPluginsRetries :: "(string, int) gomap"
  serving :: bool
  retries_limit :: int
  stopped_loop :: bool
  connecting :: "PluginInfoMsg list"   \<comment> \<open>the registrations between their two steps\<close>

definition NewPluginManagerServer :: "next_state list \<Rightarrow> PluginManagerServer" where
  "NewPluginManagerServer acts =
     \<lparr>builtin = acts, registeredPlugins = mmake, registeredPluginsRetries = mmake, serving = False,
      retries_limit = 3, stopped_loop = False, connecting = []\<rparr>"

section \<open>Registration\<close>

datatype response = Registered | UnsupportedVersion | StubError | AlreadyRegistered

definition Register_arrive ::
  "PluginInfoMsg option \<Rightarrow> PluginManagerServer \<Rightarrow> (PluginManagerServer \<times> response option) go" where
  \<comment> \<open>up to the connection to the plugin; None is no response yet\<close>
  "Register_arrive r pm =
     (case r of
        None \<Rightarrow> Inl NilDereference
      | Some p \<Rightarrow>
          if pi_SupportedVersions p \<noteq> pluginVersion then Inr (pm, Some UnsupportedVersion)
          else if mlookup (registeredPlugins pm) (pi_Name p) = None
            then Inr (pm\<lparr>connecting := connecting pm @ [p]\<rparr>, None)
          else Inr (pm, Some AlreadyRegistered))"

definition Register_finish ::
  "nat \<Rightarrow> (nat \<Rightarrow> bool) \<Rightarrow> PluginManagerServer \<Rightarrow> (PluginManagerServer \<times> response option) go" where
  \<comment> \<open>the rest of the registration at position \<open>i\<close>\<close>
  "Register_finish i dial pm =
     (if i < length (connecting pm) then
        (let p = connecting pm ! i;
             pm = pm\<lparr>connecting := take i (connecting pm) @ drop (Suc i) (connecting pm)\<rparr>
         in case newActuatorClientStub p dial (nat (retries_limit pm)) of
              None \<Rightarrow> Inr (pm, Some StubError)
            | Some aClientStub \<Rightarrow>
                bindG (mput (registeredPlugins pm) (pi_Name p) aClientStub) (\<lambda>m.
                  Inr (pm\<lparr>registeredPlugins := m\<rparr>, Some Registered)))
      else Inr (pm, None))"

section \<open>Reconciliation\<close>

definition refresh_plugin ::
  "(string \<Rightarrow> bool) \<Rightarrow> int \<Rightarrow> string \<times> client_stub \<Rightarrow> (string, int) gomap \<times> string list \<Rightarrow>
   ((string, int) gomap \<times> string list) go" where
  \<comment> \<open>the body of the loop; \<open>ready\<close>: whether the connection of a plugin is ready\<close>
  "refresh_plugin ready retries = (\<lambda>(pName, a) (m, toBeDeleted).
     (if \<not> ready pName then
        bindG (if mlookup m pName = None then mput m pName 0 else Inr m) (\<lambda>m.
          let toBeDeleted =
            (if mget 0 m pName \<ge> retries then toBeDeleted @ [PName (pluginInfo a)] else toBeDeleted)
          in bindG (mput m pName (mget 0 m pName + 1)) (\<lambda>m. Inr (m, toBeDeleted)))
      else bindG (mput m pName 0) (\<lambda>m. Inr (m, toBeDeleted))))"

definition delete_keys :: "string list \<Rightarrow> (string, 'v) gomap \<Rightarrow> (string, 'v) gomap" where
  "delete_keys ks m = fold (\<lambda>k m. mdelete m k) ks m"

definition refreshRegisteredPlugin ::
  "(string \<Rightarrow> bool) \<Rightarrow> int \<Rightarrow> PluginManagerServer \<Rightarrow> PluginManagerServer go" where
  "refreshRegisteredPlugin ready retries pm =
     bindG (foldG (refresh_plugin ready retries) (entries (registeredPlugins pm)) (registeredPluginsRetries pm, []))
       (\<lambda>(m, toBeDeleted). Inr (pm\<lparr>registeredPlugins := delete_keys toBeDeleted (registeredPlugins pm),
          registeredPluginsRetries := delete_keys toBeDeleted m\<rparr>))"

section \<open>Iteration and stop\<close>

datatype actuator_ref = Builtin next_state | Plugin string client_stub

definition Iter :: "(actuator_ref \<Rightarrow> 's \<Rightarrow> 's go) \<Rightarrow> PluginManagerServer \<Rightarrow> 's \<Rightarrow> 's go" where
  "Iter f pm s =
     bindG (foldG (\<lambda>a. f (Builtin a)) (builtin pm) s)
       (foldG (\<lambda>(name, a). f (Plugin name a)) (entries (registeredPlugins pm)))"

definition StopManager :: "int \<Rightarrow> PluginManagerServer \<Rightarrow> PluginManagerServer" where
  "StopManager now pm =
     (let pm = pm\<lparr>registeredPlugins :=
                 map_option (map (\<lambda>(name, p). (name, stop_stub now p))) (registeredPlugins pm)\<rparr>
      in if \<not> serving pm then pm else pm\<lparr>serving := False, stopped_loop := True\<rparr>)"

section \<open>All operations\<close>

datatype pm_event =
    Arrive "PluginInfoMsg option"
  | Finish nat "nat \<Rightarrow> bool"
  | Refresh "string \<Rightarrow> bool"
  | StopAll int

definition pm_step :: "pm_event \<Rightarrow> PluginManagerServer \<Rightarrow> PluginManagerServer go" where
  "pm_step e pm =
     (case e of
        Arrive r \<Rightarrow> bindG (Register_arrive r pm) (\<lambda>(pm, _). Inr pm)
      | Finish i dial \<Rightarrow> bindG (Register_finish i dial pm) (\<lambda>(pm, _). Inr pm)
      | Refresh ready \<Rightarrow> refreshRegisteredPlugin ready (retries_limit pm) pm
      | StopAll now \<Rightarrow> Inr (StopManager now pm))"

definition pm_inv :: "PluginManagerServer \<Rightarrow> bool" where
  "pm_inv pm \<longleftrightarrow>
     registeredPlugins pm \<noteq> None \<and> wf_map (registeredPlugins pm) \<and>
     registeredPluginsRetries pm \<noteq> None \<and> wf_map (registeredPluginsRetries pm) \<and>
     (\<forall>name a. mlookup (registeredPlugins pm) name = Some a \<longrightarrow>
        PName (pluginInfo a) = name \<and> PVersion (pluginInfo a) = pluginVersion) \<and>
     (\<forall>name n. mlookup (registeredPluginsRetries pm) name = Some n \<longrightarrow>
        0 \<le> n \<and> n \<le> max 0 (retries_limit pm) \<and> mlookup (registeredPlugins pm) name \<noteq> None) \<and>
     (\<forall>p \<in> set (connecting pm). pi_SupportedVersions p = pluginVersion)"

lemma pm_inv_new: "pm_inv (NewPluginManagerServer acts)"
  by (simp add: pm_inv_def NewPluginManagerServer_def)

lemma pm_inv_replace:
  assumes "pm_inv pm" and "\<And>n a. mlookup R n = Some a \<Longrightarrow> PName (pluginInfo a) = n \<and> PVersion (pluginInfo a) = pluginVersion"
    and "R \<noteq> None" and "wf_map R" and "\<And>n. mlookup R n = None \<longleftrightarrow> mlookup (registeredPlugins pm) n = None"
  shows "pm_inv (pm\<lparr>registeredPlugins := R\<rparr>)"
  unfolding pm_inv_def using assms(1,3-5) assms(2) by (auto simp: pm_inv_def simp del: not_None_eq)

lemma mlookup_delete_keys: "mlookup (delete_keys ks m) k = (if k \<in> set ks then None else mlookup m k)"
  unfolding delete_keys_def by (induction ks arbitrary: m) (auto simp: mlookup_mdelete)

lemma wf_delete_keys: "wf_map m \<Longrightarrow> wf_map (delete_keys ks m)"
  unfolding delete_keys_def by (induction ks arbitrary: m) (auto simp: wf_map_mdelete)

lemma delete_keys_nil [simp]: "delete_keys ks m = None \<longleftrightarrow> m = None"
  unfolding delete_keys_def by (induction ks arbitrary: m) auto

definition next_count :: "bool \<Rightarrow> (string, int) gomap \<Rightarrow> string \<Rightarrow> int" where
  "next_count is_ready m name = (if is_ready then 0 else mget 0 m name + 1)"

lemma refresh_plugin_spec:
  assumes "m \<noteq> None"
  shows "\<exists>m'. refresh_plugin ready retries (name, a) (m, dels) =
      Inr (m', dels @ (if \<not> ready name \<and> retries \<le> mget 0 m name then [PName (pluginInfo a)] else [])) \<and>
    m' \<noteq> None \<and> (wf_map m \<longrightarrow> wf_map m') \<and>
    mlookup m' = (mlookup m)(name \<mapsto> next_count (ready name) m name)"
proof -
  obtain xs where xs: "m = Some xs" using assms by blast
  show ?thesis
  proof (cases "ready name")
    case True
    then show ?thesis using xs by (auto simp: refresh_plugin_def next_count_def update_conv distinct_update fun_eq_iff)
  next
    case False
    then show ?thesis using xs
      by (cases "map_of xs name")
        (auto simp: refresh_plugin_def next_count_def mget_def Let_def update_conv distinct_update fun_eq_iff)
  qed
qed

lemma refresh_loop:
  assumes "distinct (map fst kvs)" and "\<forall>(n, a) \<in> set kvs. PName (pluginInfo a) = n" and "m \<noteq> None"
  shows "\<exists>m'. foldG (refresh_plugin ready retries) kvs (m, dels) =
      Inr (m', dels @ map fst (filter (\<lambda>(n, a). \<not> ready n \<and> retries \<le> mget 0 m n) kvs)) \<and>
    m' \<noteq> None \<and> (wf_map m \<longrightarrow> wf_map m') \<and>
    (\<forall>k. mlookup m' k = (if k \<in> fst ` set kvs then Some (next_count (ready k) m k) else mlookup m k))"
  using assms
proof (induction kvs arbitrary: m dels)
  case (Cons kv kvs)
  obtain n a where kv: "kv = (n, a)" by (cases kv)
  obtain m1 where m1: "refresh_plugin ready retries (n, a) (m, dels) =
      Inr (m1, dels @ (if \<not> ready n \<and> retries \<le> mget 0 m n then [PName (pluginInfo a)] else []))"
    "m1 \<noteq> None" "wf_map m \<longrightarrow> wf_map m1" "mlookup m1 = (mlookup m)(n \<mapsto> next_count (ready n) m n)"
    using refresh_plugin_spec [OF Cons.prems(3)] by blast
  have other: "mget 0 m1 k = mget 0 m k" if "k \<noteq> n" for k using m1(4) that by (simp add: mget_def)
  have n: "n \<notin> fst ` set kvs" "PName (pluginInfo a) = n" using Cons.prems(1,2) kv by auto
  have f: "filter (\<lambda>(k, a). \<not> ready k \<and> retries \<le> mget 0 m1 k) kvs = filter (\<lambda>(k, a). \<not> ready k \<and> retries \<le> mget 0 m k) kvs"
  proof (rule filter_cong [OF refl])
    fix x
    assume "x \<in> set kvs"
    then have "fst x \<noteq> n" using n(1) by auto
    then show "(case x of (k, a) \<Rightarrow> \<not> ready k \<and> retries \<le> mget 0 m1 k) \<longleftrightarrow>
        (case x of (k, a) \<Rightarrow> \<not> ready k \<and> retries \<le> mget 0 m k)"
      by (cases x) (simp add: other)
  qed
  define dels1 where "dels1 = dels @ (if \<not> ready n \<and> retries \<le> mget 0 m n then [n] else [])"
  have "distinct (map fst kvs)" "\<forall>(n, a) \<in> set kvs. PName (pluginInfo a) = n" using Cons.prems(1,2) by simp_all
  from Cons.IH [OF this m1(2), of dels1] obtain m2 where m2:
    "foldG (refresh_plugin ready retries) kvs (m1, dels1) =
      Inr (m2, dels1 @ map fst (filter (\<lambda>(k, a). \<not> ready k \<and> retries \<le> mget 0 m1 k) kvs))"
    "m2 \<noteq> None" "wf_map m1 \<longrightarrow> wf_map m2"
    "\<forall>k. mlookup m2 k = (if k \<in> fst ` set kvs then Some (next_count (ready k) m1 k) else mlookup m1 k)" by blast
  have "mlookup m2 k = (if k \<in> fst ` set (kv # kvs) then Some (next_count (ready k) m k) else mlookup m k)" for k
    using spec [OF m2(4), of k] m1(4) n(1) other [of k] kv by (auto simp: next_count_def)
  moreover have "foldG (refresh_plugin ready retries) (kv # kvs) (m, dels) =
      Inr (m2, dels @ map fst (filter (\<lambda>(n, a). \<not> ready n \<and> retries \<le> mget 0 m n) (kv # kvs)))"
  proof -
    have "foldG (refresh_plugin ready retries) (kv # kvs) (m, dels) = foldG (refresh_plugin ready retries) kvs (m1, dels1)"
      by (simp only: kv foldG.simps m1(1) n(2) bindG_Inr dels1_def)
    also have "\<dots> = Inr (m2, dels1 @ map fst (filter (\<lambda>(k, a). \<not> ready k \<and> retries \<le> mget 0 m k) kvs))"
      by (simp only: m2(1) f)
    finally show ?thesis by (simp add: dels1_def kv)
  qed
  moreover have "wf_map m \<longrightarrow> wf_map m2" using m1(3) m2(3) by blast
  ultimately show ?case using m2(2) by (intro exI [of _ m2] conjI allI)
qed simp

definition dropped :: "(string \<Rightarrow> bool) \<Rightarrow> PluginManagerServer \<Rightarrow> string \<Rightarrow> bool" where
  \<comment> \<open>the plugins one refresh removes\<close>
  "dropped ready pm name \<longleftrightarrow>
     mlookup (registeredPlugins pm) name \<noteq> None \<and> \<not> ready name \<and>
     retries_limit pm \<le> mget 0 (registeredPluginsRetries pm) name"

lemma refresh_spec:
  assumes "pm_inv pm"
  shows "\<exists>pm'. refreshRegisteredPlugin ready (retries_limit pm) pm = Inr pm' \<and>
    registeredPlugins pm' \<noteq> None \<and> registeredPluginsRetries pm' \<noteq> None \<and>
    wf_map (registeredPlugins pm') \<and> wf_map (registeredPluginsRetries pm') \<and>
    retries_limit pm' = retries_limit pm \<and> connecting pm' = connecting pm \<and>
    (\<forall>n. mlookup (registeredPlugins pm') n = (if dropped ready pm n then None else mlookup (registeredPlugins pm) n)) \<and>
    (\<forall>n. mlookup (registeredPluginsRetries pm') n =
       (if dropped ready pm n \<or> mlookup (registeredPlugins pm) n = None then None
        else Some (next_count (ready n) (registeredPluginsRetries pm) n)))"
proof -
  let ?m = "registeredPluginsRetries pm" and ?kvs = "entries (registeredPlugins pm)"
  have wf: "wf_map (registeredPlugins pm)" "wf_map ?m" "?m \<noteq> None" "registeredPlugins pm \<noteq> None"
    using assms by (simp_all add: pm_inv_def del: not_None_eq)
  have d: "distinct (map fst ?kvs)" using wf(1) by (simp add: wf_map_def mkeys_def)
  have name: "PName (pluginInfo a) = n" if "(n, a) \<in> set ?kvs" for n a
    using that assms wf_map_lookup [OF wf(1)] unfolding pm_inv_def by blast
  obtain m' where m': "foldG (refresh_plugin ready (retries_limit pm)) ?kvs (?m, []) =
      Inr (m', map fst (filter (\<lambda>(n, a). \<not> ready n \<and> retries_limit pm \<le> mget 0 ?m n) ?kvs))"
    "m' \<noteq> None" "wf_map m'"
    "\<forall>k. mlookup m' k = (if k \<in> fst ` set ?kvs then Some (next_count (ready k) ?m k) else mlookup ?m k)"
    using refresh_loop [OF d _ wf(3), of ready "retries_limit pm" "[]"] name wf(2) by auto
  define dels where "dels = map fst (filter (\<lambda>(n, a). \<not> ready n \<and> retries_limit pm \<le> mget 0 ?m n) ?kvs)"
  have keys: "n \<in> fst ` set ?kvs \<longleftrightarrow> mlookup (registeredPlugins pm) n \<noteq> None" for n
    using mlookup_dom [of n "registeredPlugins pm"] by (simp add: mkeys_def)
  have dels: "n \<in> set dels \<longleftrightarrow> dropped ready pm n" for n
    unfolding dropped_def keys [symmetric] dels_def by force
  have unregistered: "mlookup ?m n = None" if "mlookup (registeredPlugins pm) n = None" for n
  proof (rule ccontr)
    assume "mlookup ?m n \<noteq> None"
    then obtain v where "mlookup ?m n = Some v" by blast
    with assms that show False unfolding pm_inv_def by blast
  qed
  have "refreshRegisteredPlugin ready (retries_limit pm) pm =
      Inr (pm\<lparr>registeredPlugins := delete_keys dels (registeredPlugins pm), registeredPluginsRetries := delete_keys dels m'\<rparr>)"
    using m'(1) by (simp add: refreshRegisteredPlugin_def dels_def)
  then show ?thesis
    using m' wf dels keys unregistered
    by (simp add: mlookup_delete_keys wf_delete_keys del: not_None_eq)
qed

lemma pm_inv_step:
  assumes "pm_inv pm" and "\<And>r. e = Arrive r \<Longrightarrow> r \<noteq> None"
  shows "\<exists>pm'. pm_step e pm = Inr pm' \<and> pm_inv pm' \<and> retries_limit pm' = retries_limit pm"
proof (cases e)
  case (Arrive r)
  then obtain p where "r = Some p" using assms(2) by blast
  with Arrive assms(1) show ?thesis by (auto simp: pm_step_def Register_arrive_def pm_inv_def)
next
  case (Finish i dial)
  obtain xs where xs: "registeredPlugins pm = Some xs" using assms(1) by (auto simp: pm_inv_def)
  have sub: "set (take i (connecting pm) @ drop (Suc i) (connecting pm)) \<subseteq> set (connecting pm)"
    using set_take_subset set_drop_subset by fastforce
  show ?thesis
  proof (cases "i < length (connecting pm) \<and> connect dial 0 (nat (retries_limit pm))")
    case True
    have "connecting pm ! i \<in> set (connecting pm)" using True by simp
    then have "pi_SupportedVersions (connecting pm ! i) = pluginVersion" using assms(1) by (auto simp: pm_inv_def)
    with True Finish xs assms(1) sub show ?thesis
      by (auto simp: pm_step_def Register_finish_def newActuatorClientStub_def Let_def pm_inv_def toPInfo_def
          update_conv' distinct_update)
  next
    case False
    with Finish assms(1) sub show ?thesis
      by (auto simp: pm_step_def Register_finish_def newActuatorClientStub_def Let_def pm_inv_def)
  qed
next
  case (Refresh ready)
  obtain pm' where pm': "refreshRegisteredPlugin ready (retries_limit pm) pm = Inr pm'"
    "registeredPlugins pm' \<noteq> None" "registeredPluginsRetries pm' \<noteq> None"
    "wf_map (registeredPlugins pm')" "wf_map (registeredPluginsRetries pm')"
    "retries_limit pm' = retries_limit pm" "connecting pm' = connecting pm"
    "\<forall>n. mlookup (registeredPlugins pm') n = (if dropped ready pm n then None else mlookup (registeredPlugins pm) n)"
    "\<forall>n. mlookup (registeredPluginsRetries pm') n =
       (if dropped ready pm n \<or> mlookup (registeredPlugins pm) n = None then None
        else Some (next_count (ready n) (registeredPluginsRetries pm) n))"
    using refresh_spec [OF assms(1)] by blast
  have count: "0 \<le> mget 0 (registeredPluginsRetries pm) n" for n
    using assms(1) by (cases "mlookup (registeredPluginsRetries pm) n") (auto simp: mget_def pm_inv_def)
  have "pm_inv pm'"
    using pm' assms(1) count unfolding pm_inv_def
    by (auto simp: next_count_def dropped_def split: if_splits)
  with Refresh pm'(1,6) show ?thesis by (simp add: pm_step_def)
next
  case (StopAll now)
  have l: "mlookup (map_option (map (\<lambda>(name, p). (name, stop_stub now p))) m) n = map_option (stop_stub now) (mlookup m n)" for m n
    by (cases m) (simp_all add: map_of_map)
  have w: "wf_map (map_option (map (\<lambda>(name, p). (name, stop_stub now p))) m) = wf_map m" for m
    by (cases m) (simp_all add: split_beta comp_def)
  let ?r = "map_option (map (\<lambda>(name, p). (name, stop_stub now p))) (registeredPlugins pm)"
  have "PName (pluginInfo a) = n \<and> PVersion (pluginInfo a) = pluginVersion" if found: "mlookup ?r n = Some a" for n a
  proof -
    obtain b where b: "mlookup (registeredPlugins pm) n = Some b" "a = stop_stub now b" using found unfolding l by blast
    then have "PName (pluginInfo b) = n \<and> PVersion (pluginInfo b) = pluginVersion"
      using assms(1) unfolding pm_inv_def by blast
    with b(2) show ?thesis by (simp add: stop_stub_def)
  qed
  then have "pm_inv (pm\<lparr>registeredPlugins := ?r\<rparr>)"
    by (rule pm_inv_replace [OF assms(1)]) (use assms(1) in \<open>simp_all add: l w pm_inv_def del: not_None_eq\<close>)
  then have "pm_inv (StopManager now pm)" by (simp add: StopManager_def Let_def pm_inv_def)
  with StopAll show ?thesis by (simp add: pm_step_def StopManager_def Let_def)
qed

section \<open>Runs\<close>

lemma pm_run:
  assumes "pm_inv pm" and "Arrive None \<notin> set es"
  shows "\<exists>pm'. foldG pm_step es pm = Inr pm' \<and> pm_inv pm' \<and> retries_limit pm' = retries_limit pm"
proof -
  have "\<exists>pm'. foldG pm_step es pm = Inr pm' \<and> (pm_inv pm' \<and> retries_limit pm' = retries_limit pm)"
  proof (rule foldG_total)
    fix e pm1
    assume e: "e \<in> set es" and "pm_inv pm1 \<and> retries_limit pm1 = retries_limit pm"
    with pm_inv_step [of pm1 e] assms(2) show "\<exists>pm'. pm_step e pm1 = Inr pm' \<and> pm_inv pm' \<and> retries_limit pm' = retries_limit pm"
      by (metis not_None_eq)
  qed (simp add: assms(1))
  then show ?thesis .
qed

lemma unregistered_stays:
  assumes "pm_inv pm" and "mlookup (registeredPlugins pm) name = None"
  shows "\<exists>pm'. foldG pm_step (map Refresh rs) pm = Inr pm' \<and> mlookup (registeredPlugins pm') name = None"
  using assms
proof (induction rs arbitrary: pm)
  case (Cons r rs)
  obtain pm1 where pm1: "refreshRegisteredPlugin r (retries_limit pm) pm = Inr pm1"
    "\<forall>n. mlookup (registeredPlugins pm1) n = (if dropped r pm n then None else mlookup (registeredPlugins pm) n)"
    using refresh_spec [OF Cons.prems(1), of r] by blast
  have step: "pm_step (Refresh r) pm = Inr pm1" using pm1(1) by (simp add: pm_step_def)
  moreover have "pm_inv pm1" using pm_inv_step [OF Cons.prems(1), of "Refresh r"] step by auto
  moreover have "mlookup (registeredPlugins pm1) name = None" using pm1(2) Cons.prems(2) by simp
  ultimately show ?case using Cons.IH by simp
qed simp

lemma dropped_after:
  assumes "pm_inv pm" and "mlookup (registeredPlugins pm) name = Some a" and "\<forall>r \<in> set rs. \<not> r name"
    and "mget 0 (registeredPluginsRetries pm) name = c"
  shows "\<exists>pm'. foldG pm_step (map Refresh rs) pm = Inr pm' \<and>
    mlookup (registeredPlugins pm') name =
      (if rs = [] \<or> c + int (length rs) \<le> retries_limit pm then Some a else None)"
  using assms
proof (induction rs arbitrary: pm c)
  case (Cons r rs)
  obtain pm1 where pm1: "refreshRegisteredPlugin r (retries_limit pm) pm = Inr pm1" "retries_limit pm1 = retries_limit pm"
    "\<forall>n. mlookup (registeredPlugins pm1) n = (if dropped r pm n then None else mlookup (registeredPlugins pm) n)"
    "\<forall>n. mlookup (registeredPluginsRetries pm1) n =
       (if dropped r pm n \<or> mlookup (registeredPlugins pm) n = None then None
        else Some (next_count (r n) (registeredPluginsRetries pm) n))"
    using refresh_spec [OF Cons.prems(1), of r] by blast
  have step: "pm_step (Refresh r) pm = Inr pm1" using pm1(1) by (simp add: pm_step_def)
  have inv: "pm_inv pm1" using pm_inv_step [OF Cons.prems(1), of "Refresh r"] step by auto
  show ?case
  proof (cases "c < retries_limit pm")
    case True
    then have "\<not> dropped r pm name" using Cons.prems(4) by (simp add: dropped_def)
    then have a: "mlookup (registeredPlugins pm1) name = Some a" "mget 0 (registeredPluginsRetries pm1) name = c + 1"
      using pm1(3,4) Cons.prems by (simp_all add: next_count_def mget_def)
    have "\<forall>r \<in> set rs. \<not> r name" using Cons.prems(3) by (meson list.set_intros(2))
    from Cons.IH [OF inv a(1) this a(2)] obtain pm' where pm': "foldG pm_step (map Refresh rs) pm1 = Inr pm'"
      "mlookup (registeredPlugins pm') name =
        (if rs = [] \<or> c + 1 + int (length rs) \<le> retries_limit pm1 then Some a else None)" by blast
    moreover have "(rs = [] \<or> c + 1 + int (length rs) \<le> retries_limit pm1) \<longleftrightarrow>
        c + int (length (r # rs)) \<le> retries_limit pm"
      using True pm1(2) by auto
    ultimately show ?thesis by (intro exI [of _ pm']) (simp add: step)
  next
    case False
    then have "dropped r pm name" using Cons.prems by (simp add: dropped_def)
    then have "mlookup (registeredPlugins pm1) name = None" using pm1(3) by simp
    then show ?thesis using unregistered_stays [OF inv] step False by simp
  qed
qed simp

text \<open>
  C38. The registry is consistent after any interleaving of registrations, refreshes and stops: each
  plugin is stored under its own name and speaks the supported version, and only registered plugins
  have a retry counter, between 0 and 3. A plugin whose counter is 0 survives exactly three refreshes
  in a row without a connection, and the fourth one removes it for good.
\<close>
theorem registry_reconciled:
  assumes "Arrive None \<notin> set es"
  shows "\<exists>pm. foldG pm_step es (NewPluginManagerServer acts) = Inr pm \<and> pm_inv pm \<and>
    (\<forall>name a rs. mlookup (registeredPlugins pm) name = Some a \<longrightarrow>
       mget 0 (registeredPluginsRetries pm) name = 0 \<longrightarrow> (\<forall>r \<in> set rs. \<not> r name) \<longrightarrow>
       (\<exists>pm'. foldG pm_step (map Refresh rs) pm = Inr pm' \<and>
          mlookup (registeredPlugins pm') name = (if length rs \<le> 3 then Some a else None)))"
proof -
  obtain pm where pm: "foldG pm_step es (NewPluginManagerServer acts) = Inr pm" "pm_inv pm"
    "retries_limit pm = 3"
    using pm_run [OF pm_inv_new assms] by (auto simp: NewPluginManagerServer_def)
  moreover have "\<exists>pm'. foldG pm_step (map Refresh rs) pm = Inr pm' \<and>
      mlookup (registeredPlugins pm') name = (if length rs \<le> 3 then Some a else None)"
    if "mlookup (registeredPlugins pm) name = Some a" "mget 0 (registeredPluginsRetries pm) name = 0"
      "\<forall>r \<in> set rs. \<not> r name" for name a rs
    using dropped_after [OF pm(2) that(1,3,2)] pm(3) by (cases "rs = []") auto
  ultimately show ?thesis by blast
qed

definition demo_plugin :: PluginInfoMsg where
  "demo_plugin = \<lparr>pi_Name = ''scaleOut'', pi_Endpoint = ''localhost:33334'', pi_SupportedVersions = pluginVersion\<rparr>"

theorem registry_reconciled_witness:
  "\<exists>pm pm'. foldG pm_step [Arrive (Some demo_plugin), Finish 0 (\<lambda>_. True)] (NewPluginManagerServer []) = Inr pm \<and>
     foldG pm_step (map Refresh (replicate 4 (\<lambda>_. False))) pm = Inr pm' \<and>
     mlookup (registeredPlugins pm) ''scaleOut'' \<noteq> None \<and> mlookup (registeredPlugins pm') ''scaleOut'' = None"
proof -
  let ?es = "[Arrive (Some demo_plugin), Finish 0 (\<lambda>_. True)]"
  have "Arrive None \<notin> set ?es" by simp
  from registry_reconciled [OF this, of "[]"] obtain pm where
    pm: "foldG pm_step ?es (NewPluginManagerServer []) = Inr pm"
    "\<forall>name a rs. mlookup (registeredPlugins pm) name = Some a \<longrightarrow>
       mget 0 (registeredPluginsRetries pm) name = 0 \<longrightarrow> (\<forall>r \<in> set rs. \<not> r name) \<longrightarrow>
       (\<exists>pm'. foldG pm_step (map Refresh rs) pm = Inr pm' \<and>
          mlookup (registeredPlugins pm') name = (if length rs \<le> 3 then Some a else None))"
    by blast
  have reg: "\<exists>a. mlookup (registeredPlugins pm) ''scaleOut'' = Some a"
    "mget 0 (registeredPluginsRetries pm) ''scaleOut'' = 0"
    using pm(1) by (auto simp: pm_step_def Register_arrive_def Register_finish_def NewPluginManagerServer_def
        demo_plugin_def newActuatorClientStub_def Let_def mmake_def mget_def numeral_3_eq_3)
  have "\<forall>r \<in> set (replicate 4 (\<lambda>_::string. False)). \<not> r ''scaleOut''" by simp
  then obtain pm' where "foldG pm_step (map Refresh (replicate 4 (\<lambda>_. False))) pm = Inr pm'"
    "mlookup (registeredPlugins pm') ''scaleOut'' = None"
    using pm(2) [rule_format, OF _ reg(2), of _ "replicate 4 (\<lambda>_. False)"] reg(1) by auto
  with pm(1) reg(1) show ?thesis by auto
qed

lemma registered_twice:
  \<comment> \<open>two registrations of one name that overlap both succeed, and the stub of the first is lost\<close>
  assumes "mlookup (registeredPlugins pm) (pi_Name p) = None" and "registeredPlugins pm = Some kvs"
    and "connecting pm = []" and "pi_SupportedVersions p = pluginVersion" and "pi_SupportedVersions q = pluginVersion"
    and "pi_Name q = pi_Name p" and "dial 0"
  shows "\<exists>pm1 pm2 pm3 pm4. Register_arrive (Some p) pm = Inr (pm1, None) \<and> Register_arrive (Some q) pm1 = Inr (pm2, None) \<and>
    Register_finish 0 dial pm2 = Inr (pm3, Some Registered) \<and> Register_finish 0 dial pm3 = Inr (pm4, Some Registered) \<and>
    map_option pluginInfo (mlookup (registeredPlugins pm4) (pi_Name p)) = Some (toPInfo q)"
proof -
  have c: "connect dial 0 n" for n using assms(7) by (cases n) simp_all
  show ?thesis
    using assms by (simp add: Register_arrive_def Register_finish_def newActuatorClientStub_def Let_def c update_conv')
qed

end
