(* ===== verification/Plugin_Lifecycle.thy ===== *)
theory Plugin_Lifecycle
  imports Plugin_Manager
begin

text \<open>
  The two ends of a plugin's life: \<open>Start\<close>, \<open>Register\<close> and \<open>Stop\<close> of
  \<^verbatim>\<open>pkg/api/plugins/v1alpha1/actuator_plugin_stub.go\<close> and
  \<open>StartActuatorPlugin\<close> of \<^verbatim>\<open>plugins/plugins_helper.go\<close>, which runs them, together
  with the registration the plugin manager serves.  Sockets and connections are arguments:
  whether a port can be listened on, and what an attempt to connect that starts at a time
  and has a deadline comes to.  Times are in seconds.
\<close>

section \<open>The plugin's server\<close>

record plugin_server =
  sv_name :: string
  sv_version :: string
  sv_endpoint :: string
  sv_port :: int
  sv_managerEndpoint :: string
  sv_managerPort :: int
  sv_retries :: int
  sv_nextState :: next_state
  sv_perform :: "cluster perform"
  sv_effect :: "State \<Rightarrow> profiles \<Rightarrow> cluster \<Rightarrow> cluster go"
  running :: bool        \<comment> \<open>\<open>server\<close> is not nil\<close>
  stop_closed :: bool    \<comment> \<open>the channel \<open>stop\<close> is closed\<close>

definition defaultEffectFunc :: "State \<Rightarrow> profiles \<Rightarrow> cluster \<Rightarrow> cluster go" where
  "defaultEffectFunc state profiles c = Inr c"

definition NewActuatorPluginStub :: "string \<Rightarrow> string \<Rightarrow> int \<Rightarrow> string \<Rightarrow> int \<Rightarrow> plugin_server" where
  "NewActuatorPluginStub name endpoint port serverEndpoint serverPort =
     \<lparr>sv_name = name, sv_version = pluginVersion, sv_endpoint = endpoint, sv_port = port,
      sv_managerEndpoint = serverEndpoint, sv_managerPort = serverPort, sv_retries = 3,
      sv_nextState = defaultNextStateFunc, sv_perform = defaultPerformFunc, sv_effect = defaultEffectFunc,
      running = False, stop_closed = False\<rparr>"

definition SetNextStateFunc :: "next_state \<Rightarrow> plugin_server \<Rightarrow> plugin_server" where
  "SetNextStateFunc f s = s\<lparr>sv_nextState := f\<rparr>"

definition SetPerformFunc :: "cluster perform \<Rightarrow> plugin_server \<Rightarrow> plugin_server" where
  "SetPerformFunc f s = s\<lparr>sv_perform := f\<rparr>"

definition SetEffectFunc :: "(State \<Rightarrow> profiles \<Rightarrow> cluster \<Rightarrow> cluster go) \<Rightarrow> plugin_server \<Rightarrow> plugin_server" where
  "SetEffectFunc f s = s\<lparr>sv_effect := f\<rparr>"

datatype start_error = ListenError | DialError

definition poll :: "(nat \<Rightarrow> bool) \<Rightarrow> nat \<Rightarrow> bool" where
  \<comment> \<open>whether the attempt at once or one of the further ones, a second apart within ten seconds, succeeds\<close>
  "poll dials attempts = list_ex dials [0..<Suc attempts]"

definition Start_server :: "(int \<Rightarrow> bool) \<Rightarrow> (nat \<Rightarrow> bool) \<Rightarrow> nat \<Rightarrow> plugin_server \<Rightarrow> plugin_server \<times> start_error option" where
  "Start_server listen dials attempts s =
     (if \<not> listen (sv_port s) then (s, Some ListenError)
      else (s\<lparr>running := True\<rparr>, if poll dials attempts then None else Some DialError))"

definition Stop_server :: "plugin_server \<Rightarrow> plugin_server go" where
  \<comment> \<open>closing a channel for the second time panics\<close>
  "Stop_server s =
     (if \<not> running s then Inr s
      else if stop_closed s then Inl InvalidArgument
      else Inr (s\<lparr>running := False, stop_closed := True\<rparr>))"

section \<open>Registration\<close>

datatype register_error = PortRange | NotConnected | CallFailed | Rejected response

definition endpoint_of :: "plugin_server \<Rightarrow> string" where
  "endpoint_of s = sv_endpoint s @ '':'' @ itoa (sv_port s)"

definition plugin_info :: "plugin_server \<Rightarrow> PluginInfoMsg" where
  "plugin_info s = \<lparr>pi_Name = sv_name s, pi_Endpoint = endpoint_of s, pi_SupportedVersions = sv_version s\<rparr>"

fun connect_retries :: "(int \<Rightarrow> int \<Rightarrow> bool \<times> int) \<Rightarrow> int \<Rightarrow> nat \<Rightarrow> bool \<times> int \<Rightarrow> bool \<times> int" where
  \<comment> \<open>the loop over the retries; \<open>dial t deadline\<close>: the outcome of an attempt and when it is known.
      All attempts have the deadline of the first\<close>
  "connect_retries dial deadline 0 r = r"
| "connect_retries dial deadline (Suc n) (ok, t) =
     (if ok then (ok, t) else connect_retries dial deadline n (dial (t + 5) deadline))"

definition Register ::
  "(int \<Rightarrow> int \<Rightarrow> bool \<times> int) \<Rightarrow> bool \<Rightarrow> (PluginInfoMsg \<Rightarrow> response option) \<Rightarrow> int \<Rightarrow> plugin_server \<Rightarrow>
   register_error option \<times> int" where
  \<comment> \<open>\<open>ready\<close>: whether the connection is still up; \<open>call\<close>: the response, None an error of the call. The time is
      the one at which the connection was made or given up\<close>
  "Register dial ready call now s =
     (if sv_port s \<le> 0 \<or> sv_port s > 65535 \<or> sv_managerPort s \<le> 0 \<or> sv_managerPort s > 65535
      then (Some PortRange, now)
      else
        (let (ok, t) = connect_retries dial (now + 10) (nat (sv_retries s)) (dial now (now + 10)) in
         if \<not> ok \<or> \<not> ready then (Some NotConnected, t)
         else (case call (plugin_info s) of
             None \<Rightarrow> (Some CallFailed, t)
           | Some Registered \<Rightarrow> (None, t)
           | Some r \<Rightarrow> (Some (Rejected r), t))))"

definition serve_registration ::
  "(nat \<Rightarrow> bool) \<Rightarrow> PluginManagerServer \<Rightarrow> PluginInfoMsg \<Rightarrow> (PluginManagerServer \<times> response option) go" where
  \<comment> \<open>both steps of a registration in the manager; \<open>reach\<close>: its attempts to connect to the plugin\<close>
  "serve_registration reach pm p =
     bindG (Register_arrive (Some p) pm) (\<lambda>(pm, r).
       case r of
         Some r \<Rightarrow> Inr (pm, Some r)
       | None \<Rightarrow> Register_finish (length (connecting pm) - 1) reach pm)"

datatype plugin_exit = StartFailed start_error | RegisterFailed register_error

definition StartActuatorPlugin ::
  "string \<Rightarrow> next_state \<Rightarrow> cluster perform \<Rightarrow> (State \<Rightarrow> profiles \<Rightarrow> cluster \<Rightarrow> cluster go) \<Rightarrow>
   string \<Rightarrow> int \<Rightarrow> string \<Rightarrow> int \<Rightarrow> (plugin_server \<Rightarrow> plugin_server \<times> start_error option) \<Rightarrow>
   (plugin_server \<Rightarrow> register_error option \<times> int) \<Rightarrow> plugin_exit + plugin_server" where
  \<comment> \<open>the last two arguments are \<open>Start\<close> and \<open>Register\<close> in their environment; \<open>Inl\<close> ends the process\<close>
  "StartActuatorPlugin name nextState perform effect endpoint port serverEndpoint serverPort start register =
     (let stub = SetEffectFunc effect (SetPerformFunc perform (SetNextStateFunc nextState
            (NewActuatorPluginStub name endpoint port serverEndpoint serverPort)));
          (stub, err) = start stub
      in case err of
           Some e \<Rightarrow> Inl (StartFailed e)
         | None \<Rightarrow> (case fst (register stub) of Some e \<Rightarrow> Inl (RegisterFailed e) | None \<Rightarrow> Inr stub))"

section \<open>What comes of a registration\<close>

definition blocks_until_deadline :: "(int \<Rightarrow> int \<Rightarrow> bool \<times> int) \<Rightarrow> bool" where
  \<comment> \<open>documented of \<open>DialContext\<close> with \<open>WithBlock\<close>: it returns once the connection is up, or when its context
      has expired\<close>
  "blocks_until_deadline dial \<longleftrightarrow>
     (\<forall>t deadline. case dial t deadline of (ok, t') \<Rightarrow>
        if ok then t \<le> t' \<and> t' < deadline else t' = max t deadline)"

lemma dial_late: "blocks_until_deadline dial \<Longrightarrow> deadline \<le> t \<Longrightarrow> dial t deadline = (False, t)"
  unfolding blocks_until_deadline_def
  by (drule spec [of _ t], drule spec [of _ deadline]) (cases "dial t deadline"; simp split: if_splits)

lemma retries_in_vain:
  "blocks_until_deadline dial \<Longrightarrow> deadline \<le> t \<Longrightarrow>
     connect_retries dial deadline n (False, t) = (False, t + 5 * int n)"
  by (induction n arbitrary: t) (simp_all add: dial_late)

lemma connect_retries_ok: "connect_retries dial deadline n (True, t) = (True, t)"
  by (cases n) simp_all

lemma connect_iff: "connect dial i n \<longleftrightarrow> (\<exists>j \<le> n. dial (i + j))"
proof (induction n arbitrary: i)
  case (Suc n)
  have "(\<exists>j \<le> Suc n. dial (i + j)) \<longleftrightarrow> dial i \<or> (\<exists>j \<le> n. dial (Suc i + j))"
    using Suc_le_mono le0 not0_implies_Suc by (metis add.right_neutral add_Suc add_Suc_right)
  with Suc show ?case by simp
qed simp

definition client_of :: "PluginInfoMsg \<Rightarrow> client_stub" where
  "client_of p = \<lparr>pluginInfo = toPInfo p, stopTime = 0, stream_field = NoStream\<rparr>"

lemma served:
  assumes "pm_inv pm"
  shows "\<exists>pm' r. serve_registration reach pm p = Inr (pm', Some r) \<and>
    (r = Registered \<longleftrightarrow> pi_SupportedVersions p = pluginVersion \<and> mlookup (registeredPlugins pm) (pi_Name p) = None \<and>
       (\<exists>j \<le> nat (retries_limit pm). reach j)) \<and>
    connecting pm' = connecting pm \<and>
    mlookup (registeredPlugins pm') = (if r = Registered then (mlookup (registeredPlugins pm))(pi_Name p \<mapsto> client_of p)
      else mlookup (registeredPlugins pm))"
proof -
  obtain kvs where kvs: "registeredPlugins pm = Some kvs" using assms by (auto simp: pm_inv_def)
  show ?thesis
    by (simp add: serve_registration_def Register_arrive_def Register_finish_def newActuatorClientStub_def Let_def nth_append
        connect_iff kvs client_of_def update_conv' fun_eq_iff)
qed

lemma pm_inv_registered:
  assumes "pm_inv pm" and "serve_registration reach pm p = Inr (pm', Some r)"
  shows "pm_inv pm'"
proof (cases "Register_arrive (Some p) pm")
  case (Inr q)
  obtain pm1 r1 where q: "q = (pm1, r1)" by (cases q)
  have arrive: "pm_inv pm1"
    using pm_inv_step [OF assms(1), of "Arrive (Some p)"] Inr q by (auto simp: pm_step_def)
  show ?thesis
  proof (cases r1)
    case None
    then have "pm_step (Finish (length (connecting pm1) - 1) reach) pm1 = Inr pm'"
      using assms(2) Inr q by (simp add: serve_registration_def pm_step_def)
    then show ?thesis using pm_inv_step [OF arrive, of "Finish (length (connecting pm1) - 1) reach"] by auto
  qed (use assms(2) Inr q arrive in \<open>simp add: serve_registration_def\<close>)
qed (use assms(2) in \<open>simp add: serve_registration_def\<close>)


definition instant :: "int \<Rightarrow> int \<Rightarrow> bool \<times> int" where
  \<comment> \<open>an attempt succeeds at once unless its deadline has passed\<close>
  "instant t deadline = (t < deadline, max t (if t < deadline then t else deadline))"

definition unreachable :: "int \<Rightarrow> int \<Rightarrow> bool \<times> int" where
  "unreachable t deadline = (False, max t deadline)"

definition sample_server :: plugin_server where
  "sample_server = NewActuatorPluginStub ''rdt'' ''localhost'' 33334 ''ido'' 33333"


lemma restart_panics:
  \<comment> \<open>a server that was stopped can be started again, and the second stop panics\<close>
  assumes "running s" and "\<not> stop_closed s" and "listen (sv_port s)"
  shows "\<exists>s'. Stop_server s = Inr s' \<and> Stop_server (fst (Start_server listen dials n s')) = Inl InvalidArgument"
  using assms by (simp add: Stop_server_def Start_server_def)

lemma started_plugin:
  \<comment> \<open>a plugin that runs offers the functions of its actuator\<close>
  assumes "StartActuatorPlugin name act perf eff endpoint port serverEndpoint serverPort
      (Start_server listen dials n) register = Inr stub"
  shows "running stub \<and> sv_nextState stub = act \<and> sv_perform stub = perf \<and> sv_effect stub = eff \<and>
    fst (register stub) = None \<and> listen port"
  using assms
  by (auto simp: StartActuatorPlugin_def Start_server_def SetEffectFunc_def SetPerformFunc_def SetNextStateFunc_def
      NewActuatorPluginStub_def Let_def split: if_splits option.splits)

end
