(* ===== verification/AStar.thy ===== *)
theory AStar
  imports State_Graph
begin

text \<open>
  \<^verbatim>\<open>pkg/planner/astar/astar.go\<close>: the A* search over the state graph and the
  reconstruction of the path.  The two loops are partial functions: \<open>None\<close> is
  a run that never returns.  The second part shows that no run of \<open>solve\<close> on
  non-negative costs is of that kind, that its result is a walk of the graph to
  the goal or none exists, and that the walk is a cheapest one where the
  heuristic never overestimates.
\<close>

section \<open>The search\<close>

record dataEntry =
  entry_node :: node
  entry_action :: Action
  entry_done :: bool

definition zero_dataEntry :: dataEntry where
  "zero_dataEntry = \<lparr>entry_node = nil_node, entry_action = zero_Action, entry_done = False\<rparr>"

definition data_of :: "(node \<rightharpoonup> dataEntry) \<Rightarrow> node \<Rightarrow> dataEntry" where
  \<comment> \<open>the read \<open>data[n]\<close>\<close>
  "data_of d n = (case d n of None \<Rightarrow> zero_dataEntry | Some entry \<Rightarrow> entry)"

partial_function (option) resolve_loop ::
  "(node \<rightharpoonup> dataEntry) \<Rightarrow> node \<Rightarrow> node list \<Rightarrow> Action list \<Rightarrow> (node list \<times> Action list) option" where
  "resolve_loop d current path actions =
     (let entry = data_of d current in
      if entry_done entry then Some (path, actions)
      else resolve_loop d (entry_node entry) (entry_node entry # path) (entry_action entry # actions))"

definition resolvePath :: "(node \<rightharpoonup> dataEntry) \<Rightarrow> node \<Rightarrow> (node list \<times> Action list) option" where
  "resolvePath d current = resolve_loop d current [current] []"

record search =
  open_queue :: "node PriorityQueue"   \<comment> \<open>the variable \<open>open\<close>\<close>
  gScore :: "node \<rightharpoonup> float64"
  data :: "node \<rightharpoonup> dataEntry"

type_synonym heuristic = "node \<Rightarrow> node \<Rightarrow> float64"

definition score :: "(node \<rightharpoonup> float64) \<Rightarrow> node \<Rightarrow> float64" where
  \<comment> \<open>the read \<open>gScore[n]\<close>\<close>
  "score g n = (case g n of None \<Rightarrow> 0 | Some x \<Rightarrow> x)"

definition relax :: "node \<Rightarrow> heuristic \<Rightarrow> bool \<Rightarrow> node \<Rightarrow> edge \<Rightarrow> search \<Rightarrow> search" where
  \<comment> \<open>the body of the loop over the edges of the current node\<close>
  "relax goal h useUtility current e s =
     (let newGScore = score (gScore s) current + (if useUtility then utility e else 1) in
      if gScore s (edge_node e) = None \<or> newGScore < score (gScore s) (edge_node e)
      then s\<lparr>gScore := (gScore s)(edge_node e \<mapsto> newGScore),
             open_queue := heap_push (open_queue s)
               \<lparr>item_value = edge_node e, priority = newGScore + h (edge_node e) goal, index = 0\<rparr>,
             data := (data s)(edge_node e \<mapsto>
               \<lparr>entry_node = current, entry_action = edge_action e, entry_done = False\<rparr>)\<rparr>
      else s)"

partial_function (option) solve_loop ::
  "stateGraph \<Rightarrow> node \<Rightarrow> heuristic \<Rightarrow> bool \<Rightarrow> search \<Rightarrow> (node list \<times> Action list) go option" where
  "solve_loop sg goal h useUtility s =
     (if Len (open_queue s) = 0 then Some (Inr ([], []))
      else case heap_pop (open_queue s) of
        Inl p \<Rightarrow> Some (Inl p)
      | Inr (item, queue) \<Rightarrow>
          (let current = item_value item in
           if current = goal then map_option Inr (resolvePath (data s) current)
           else solve_loop sg goal h useUtility
             (fold (relax goal h useUtility current) (succ_of sg current) (s\<lparr>open_queue := queue\<rparr>))))"

definition solve_init :: "node \<Rightarrow> search" where
  "solve_init start =
     \<lparr>open_queue = heap_push (heap_init []) \<lparr>item_value = start, priority = 0, index = 0\<rparr>,
      gScore = [start \<mapsto> 0],
      data = [start \<mapsto> \<lparr>entry_node = nil_node, entry_action = zero_Action, entry_done = True\<rparr>]\<rparr>"

definition solve ::
  "stateGraph \<Rightarrow> node \<Rightarrow> node \<Rightarrow> heuristic \<Rightarrow> bool \<Rightarrow> (node list \<times> Action list) go option" where
  \<comment> \<open>the two nil slices of a search without a result are the empty lists\<close>
  "solve sg start goal h useUtility = solve_loop sg goal h useUtility (solve_init start)"

section \<open>The invariant of the search\<close>

definition parents :: "(node \<rightharpoonup> dataEntry) \<Rightarrow> (node \<times> node) set" where
  \<comment> \<open>the pointers \<open>resolvePath\<close> follows, as pairs of a node and one it was reached from\<close>
  "parents d = {(u, v). \<exists>entry. d v = Some entry \<and> \<not> entry_done entry \<and> entry_node entry = u}"

definition pending :: "node \<Rightarrow> node \<Rightarrow> heuristic \<Rightarrow> search \<Rightarrow> node \<Rightarrow> real \<Rightarrow> bool" where
  \<comment> \<open>an item for the node with its current score waits in the queue\<close>
  "pending start goal h s v r \<longleftrightarrow>
     (v, Fin r + h v goal) \<in> set (pq_contents (open_queue s)) \<or>
     v = start \<and> (v, 0) \<in> set (pq_contents (open_queue s))"

definition relaxed :: "bool \<Rightarrow> search \<Rightarrow> real \<Rightarrow> edge \<Rightarrow> bool" where
  "relaxed uu s r e \<longleftrightarrow>
     (\<exists>r'. gScore s (edge_node e) = Some (Fin r') \<and> r' \<le> r + real_of (weight uu e))"

definition scored :: "stateGraph \<Rightarrow> node \<Rightarrow> bool \<Rightarrow> search \<Rightarrow> bool" where
  \<comment> \<open>every score is the cost of a simple walk that is nowhere better than the scores on its way\<close>
  "scored sg start uu s \<longleftrightarrow>
     gScore s start = Some (Fin 0) \<and>
     (\<forall>v x. gScore s v = Some x \<longrightarrow>
        (\<exists>es. walk sg start es v \<and> distinct (walk_nodes start es) \<and> x = Fin (cost uu es) \<and>
           (\<forall>fs gs. es = fs @ gs \<longrightarrow>
              (\<exists>r. gScore s (last (walk_nodes start fs)) = Some (Fin r) \<and> r \<le> cost uu fs))))"

definition linked :: "stateGraph \<Rightarrow> node \<Rightarrow> bool \<Rightarrow> search \<Rightarrow> bool" where
  \<comment> \<open>the pointers lead back to the start along edges that the scores account for\<close>
  "linked sg start uu s \<longleftrightarrow>
     finite (dom (data s)) \<and> acyclic (parents (data s)) \<and>
     (\<exists>entry. data s start = Some entry \<and> entry_done entry) \<and>
     (\<forall>v x. v \<noteq> start \<longrightarrow> gScore s v = Some x \<longrightarrow>
        (\<exists>e u ru rv. e \<in> set (succ_of sg u) \<and> edge_node e = v \<and>
           data s v = Some \<lparr>entry_node = u, entry_action = edge_action e, entry_done = False\<rparr> \<and>
           gScore s u = Some (Fin ru) \<and> x = Fin rv \<and> ru + real_of (weight uu e) \<le> rv)) \<and>
     (\<forall>v. gScore s v = None \<longrightarrow> data s v = None)"

definition queued :: "node \<Rightarrow> node \<Rightarrow> heuristic \<Rightarrow> search \<Rightarrow> bool" where
  \<comment> \<open>no item promises less than the score of its node\<close>
  "queued start goal h s \<longleftrightarrow>
     (\<forall>(v, p) \<in> set (pq_contents (open_queue s)).
        \<exists>r r'. gScore s v = Some (Fin r) \<and> r \<le> r' \<and> (p = Fin r' + h v goal \<or> v = start \<and> p = 0)) \<and>
     ((\<forall>v. finite_float (h v goal)) \<longrightarrow> pq_invar (open_queue s))"

definition expanded :: "stateGraph \<Rightarrow> node \<Rightarrow> node \<Rightarrow> heuristic \<Rightarrow> bool \<Rightarrow> search \<Rightarrow> node \<Rightarrow> edge list \<Rightarrow> bool" where
  \<comment> \<open>the edges of every scored node are relaxed, or the node waits in the queue;
     \<open>rest\<close> are the edges of the current node still to be looked at\<close>
  "expanded sg start goal h uu s cur rest \<longleftrightarrow>
     (\<forall>v r. gScore s v = Some (Fin r) \<longrightarrow>
        pending start goal h s v r \<or>
        (\<forall>e \<in> set (succ_of sg v). v = cur \<and> e \<in> set rest \<or> relaxed uu s r e))"

definition search_inv ::
  "stateGraph \<Rightarrow> node \<Rightarrow> node \<Rightarrow> heuristic \<Rightarrow> bool \<Rightarrow> search \<Rightarrow> node \<Rightarrow> edge list \<Rightarrow> bool" where
  "search_inv sg start goal h uu s cur rest \<longleftrightarrow>
     scored sg start uu s \<and> linked sg start uu s \<and> queued start goal h s \<and>
     expanded sg start goal h uu s cur rest"

lemma score_Some [simp]: "g n = Some x \<Longrightarrow> score g n = x"
  by (simp add: score_def)

lemma scored_finite:
  assumes "scored sg start uu s" and "gScore s v = Some x"
  obtains r where "x = Fin r"
  using assms unfolding scored_def by blast

lemma scored_reaches: "scored sg start uu s \<Longrightarrow> gScore s v \<noteq> None \<Longrightarrow> reaches sg start v"
  unfolding scored_def reaches_def by blast

lemma search_inv_init: "search_inv sg start goal h uu (solve_init start) start []"
proof -
  let ?s = "solve_init start"
  have contents: "set (pq_contents (open_queue ?s)) = {(start, 0)}"
    using pqueue.push_set [of "[]" "\<lparr>item_value = start, priority = 0, index = 0\<rparr>"]
    by (simp add: solve_init_def item_view_def pq_contents_def)
  have "pq_invar (open_queue ?s)"
    by (simp add: solve_init_def pqueue.push_invar item_view_def zero_float64_def)
  then have "queued start goal h ?s"
    using contents by (auto simp: queued_def solve_init_def zero_float64_def)
  moreover have "scored sg start uu ?s"
    by (auto simp: scored_def solve_init_def float_consts walk_nodes_def
        intro!: exI [of _ "[]"] split: if_splits)
  moreover have "parents (data ?s) = {}"
    by (auto simp: parents_def solve_init_def)
  then have "linked sg start uu ?s"
    by (auto simp: linked_def solve_init_def acyclic_def split: if_splits)
  moreover have "expanded sg start goal h uu ?s start []"
    using contents by (auto simp: expanded_def pending_def solve_init_def split: if_splits)
  ultimately show ?thesis by (simp add: search_inv_def)
qed

lemma linked_parent:
  assumes "linked sg start uu s" and "v \<noteq> start" and "gScore s v = Some (Fin r)"
  shows "\<exists>e u ru. e \<in> set (succ_of sg u) \<and> edge_node e = v \<and>
    data s v = Some \<lparr>entry_node = u, entry_action = edge_action e, entry_done = False\<rparr> \<and>
    gScore s u = Some (Fin ru) \<and> ru + real_of (weight uu e) \<le> r"
proof -
  from assms obtain e u ru rv where "e \<in> set (succ_of sg u)" "edge_node e = v"
    "data s v = Some \<lparr>entry_node = u, entry_action = edge_action e, entry_done = False\<rparr>"
    "gScore s u = Some (Fin ru)" "Fin r = Fin rv" "ru + real_of (weight uu e) \<le> rv"
    unfolding linked_def by blast
  then show ?thesis by blast
qed

lemma parents_score:
  assumes "linked sg start uu s" and "nonneg_weights uu sg" and "(u, v) \<in> (parents (data s))\<^sup>*"
    and "gScore s v = Some (Fin rv)"
  shows "\<exists>ru. gScore s u = Some (Fin ru) \<and> ru \<le> rv"
  using assms(3,4)
proof (induction arbitrary: rv rule: rtrancl_induct)
  case base
  then show ?case by auto
next
  case (step m v)
  from step.hyps(2) obtain entry where d: "data s v = Some entry" "\<not> entry_done entry" "entry_node entry = m"
    by (auto simp: parents_def)
  with assms(1) have "v \<noteq> start" by (auto simp: linked_def)
  from linked_parent [OF assms(1) this step.prems] d obtain e ru where
    e: "e \<in> set (succ_of sg m)" "gScore s m = Some (Fin ru)" "ru + real_of (weight uu e) \<le> rv"
    by auto
  moreover have "0 \<le> real_of (weight uu e)" using weight_nonneg assms(2) e(1) by blast
  ultimately show ?case using step.IH by fastforce
qed

section \<open>One relaxation keeps the invariant\<close>

lemma walk_nodes_split:
  "n \<in> set (walk_nodes u es) \<Longrightarrow> \<exists>fs gs. es = fs @ gs \<and> last (walk_nodes u fs) = n"
proof (induction es arbitrary: u)
  case Nil
  then show ?case by (auto simp: walk_nodes_def)
next
  case (Cons e es)
  show ?case
  proof (cases "n = u")
    case True
    then have "e # es = [] @ (e # es) \<and> last (walk_nodes u []) = n" by (simp add: walk_nodes_def)
    then show ?thesis by blast
  next
    case False
    with Cons.prems have "n \<in> set (walk_nodes (edge_node e) es)" by (auto simp: walk_nodes_def)
    with Cons.IH obtain fs gs where "es = fs @ gs" "last (walk_nodes (edge_node e) fs) = n" by blast
    then show ?thesis
      by (intro exI [of _ "e # fs"] exI [of _ gs]) (auto simp: walk_nodes_def split: if_splits)
  qed
qed

definition improves :: "bool \<Rightarrow> search \<Rightarrow> real \<Rightarrow> edge \<Rightarrow> bool" where
  \<comment> \<open>the test of \<open>relax\<close>, over the reals\<close>
  "improves uu s r e \<longleftrightarrow>
     (\<forall>r'. gScore s (edge_node e) = Some (Fin r') \<longrightarrow> r + real_of (weight uu e) < r')"

definition relax_update :: "node \<Rightarrow> heuristic \<Rightarrow> bool \<Rightarrow> node \<Rightarrow> real \<Rightarrow> edge \<Rightarrow> search \<Rightarrow> search" where
  "relax_update goal h uu cur r e s =
     (let g = Fin (r + real_of (weight uu e)) in
      s\<lparr>gScore := (gScore s)(edge_node e \<mapsto> g),
        open_queue := heap_push (open_queue s)
          \<lparr>item_value = edge_node e, priority = g + h (edge_node e) goal, index = 0\<rparr>,
        data := (data s)(edge_node e \<mapsto>
          \<lparr>entry_node = cur, entry_action = edge_action e, entry_done = False\<rparr>)\<rparr>)"

lemma relax_cases:
  assumes "scored sg start uu s" and "nonneg_weights uu sg"
    and "e \<in> set (succ_of sg cur)" and "gScore s cur = Some (Fin r)"
  shows "relax goal h uu cur e s = (if improves uu s r e then relax_update goal h uu cur r e s else s)"
proof -
  have w: "weight uu e = Fin (real_of (weight uu e))" using weight_nonneg assms(2,3) by blast
  have "score (gScore s) cur + weight uu e = Fin (r + real_of (weight uu e))"
    by (subst w) (simp add: score_Some [of _ _ "Fin r"] assms(4))
  then have "score (gScore s) cur + (if uu then utility e else 1) = Fin (r + real_of (weight uu e))"
    by (simp add: weight_def)
  moreover have "gScore s (edge_node e) = None \<or>
      Fin (r + real_of (weight uu e)) < score (gScore s) (edge_node e) \<longleftrightarrow> improves uu s r e"
  proof (cases "gScore s (edge_node e)")
    case (Some x)
    then obtain r' where "x = Fin r'" using scored_finite [OF assms(1)] by blast
    with Some show ?thesis by (simp add: improves_def)
  qed (simp add: improves_def)
  ultimately show ?thesis unfolding relax_def relax_update_def Let_def by presburger
qed

definition improving_step ::
  "stateGraph \<Rightarrow> node \<Rightarrow> bool \<Rightarrow> search \<Rightarrow> node \<Rightarrow> real \<Rightarrow> edge \<Rightarrow> bool" where
  "improving_step sg start uu s cur r e \<longleftrightarrow>
     nonneg_weights uu sg \<and> e \<in> set (succ_of sg cur) \<and> gScore s cur = Some (Fin r) \<and>
     improves uu s r e \<and> scored sg start uu s"

lemma relax_update_fields [simp]:
  "gScore (relax_update goal h uu cur r e s) =
     (gScore s)(edge_node e \<mapsto> Fin (r + real_of (weight uu e)))"
  "data (relax_update goal h uu cur r e s) =
     (data s)(edge_node e \<mapsto> \<lparr>entry_node = cur, entry_action = edge_action e, entry_done = False\<rparr>)"
  "set (pq_contents (open_queue (relax_update goal h uu cur r e s))) =
     insert (edge_node e, Fin (r + real_of (weight uu e)) + h (edge_node e) goal)
       (set (pq_contents (open_queue s)))"
  by (simp_all add: relax_update_def Let_def pqueue.push_set item_view_def)

lemma improving_step_weight: "improving_step sg start uu s cur r e \<Longrightarrow> 0 \<le> real_of (weight uu e)"
  unfolding improving_step_def using weight_nonneg by blast

lemma improving_step_walk:
  assumes "improving_step sg start uu s cur r e"
  obtains es where "walk sg start es cur" "distinct (walk_nodes start es)" "r = cost uu es"
    "edge_node e \<notin> set (walk_nodes start es)"
    "\<And>fs gs. es = fs @ gs \<Longrightarrow>
       \<exists>r. gScore s (last (walk_nodes start fs)) = Some (Fin r) \<and> r \<le> cost uu fs"
proof -
  from assms obtain es where es: "walk sg start es cur" "distinct (walk_nodes start es)" "r = cost uu es"
    and pre: "\<And>fs gs. es = fs @ gs \<Longrightarrow>
       \<exists>r. gScore s (last (walk_nodes start fs)) = Some (Fin r) \<and> r \<le> cost uu fs"
    unfolding improving_step_def scored_def by (metis float64.inject)
  have "edge_node e \<notin> set (walk_nodes start es)"
  proof
    assume "edge_node e \<in> set (walk_nodes start es)"
    then obtain fs gs where split: "es = fs @ gs" "last (walk_nodes start fs) = edge_node e"
      using walk_nodes_split by blast
    with pre obtain rx where rx: "gScore s (edge_node e) = Some (Fin rx)" "rx \<le> cost uu fs" by metis
    obtain m where "walk sg m gs cur" using es(1) split(1) walk_append by blast
    then have "0 \<le> cost uu gs" using assms cost_nonneg by (auto simp: improving_step_def)
    moreover have "r + real_of (weight uu e) < rx"
      using assms rx(1) by (simp add: improving_step_def improves_def)
    ultimately show False using improving_step_weight [OF assms] rx(2) es(3) split(1) by simp
  qed
  with es pre that show thesis by blast
qed

lemma improving_step_start: "improving_step sg start uu s cur r e \<Longrightarrow> edge_node e \<noteq> start"
proof -
  assume step: "improving_step sg start uu s cur r e"
  from improving_step_walk [OF step] have "edge_node e \<notin> {start}"
    by (metis list.set_intros(1) singletonD walk_nodes_def)
  then show ?thesis by simp
qed

lemma improving_step_cur: "improving_step sg start uu s cur r e \<Longrightarrow> edge_node e \<noteq> cur"
  by (metis improving_step_walk walk_end_in)

lemma improving_step_le:
  assumes "improving_step sg start uu s cur r e" and "gScore s v = Some (Fin rv)"
  shows "\<exists>rv'. gScore (relax_update goal h uu cur r e s) v = Some (Fin rv') \<and> rv' \<le> rv"
  using assms by (auto simp: improving_step_def improves_def)

lemma scored_update:
  assumes step: "improving_step sg start uu s cur r e"
  shows "scored sg start uu (relax_update goal h uu cur r e s)" (is "scored _ _ _ ?s")
  unfolding scored_def
proof (intro conjI allI impI)
  show "gScore ?s start = Some (Fin 0)"
    using improving_step_start [OF step] step by (simp add: improving_step_def scored_def)
next
  fix v x
  assume v: "gScore ?s v = Some x"
  let ?good = "\<lambda>es. walk sg start es v \<and> distinct (walk_nodes start es) \<and> x = Fin (cost uu es) \<and>
    (\<forall>fs gs. es = fs @ gs \<longrightarrow>
       (\<exists>r. gScore ?s (last (walk_nodes start fs)) = Some (Fin r) \<and> r \<le> cost uu fs))"
  have old: "\<exists>r'. gScore ?s n = Some (Fin r') \<and> r' \<le> c"
    if "\<exists>r. gScore s n = Some (Fin r) \<and> r \<le> c" for n c
    using that improving_step_le [OF step] by (metis order_trans)
  show "\<exists>es. ?good es"
  proof (cases "v = edge_node e")
    case False
    with v have "gScore s v = Some x" by simp
    with step obtain es where "walk sg start es v" "distinct (walk_nodes start es)" "x = Fin (cost uu es)"
      "\<And>fs gs. es = fs @ gs \<Longrightarrow>
         \<exists>r. gScore s (last (walk_nodes start fs)) = Some (Fin r) \<and> r \<le> cost uu fs"
      unfolding improving_step_def scored_def by blast
    with old show ?thesis by blast
  next
    case True
    obtain es where es: "walk sg start es cur" "distinct (walk_nodes start es)" "r = cost uu es"
      "edge_node e \<notin> set (walk_nodes start es)"
      and pre: "\<And>fs gs. es = fs @ gs \<Longrightarrow>
         \<exists>r. gScore s (last (walk_nodes start fs)) = Some (Fin r) \<and> r \<le> cost uu fs"
      using improving_step_walk [OF step] by blast
    have "?good (es @ [e])"
    proof (intro conjI allI impI)
      show "walk sg start (es @ [e]) v"
        using es(1) step True by (auto simp: walk_snoc improving_step_def)
      show "distinct (walk_nodes start (es @ [e]))" using es by simp
      show "x = Fin (cost uu (es @ [e]))" using v True es(3) by simp
    next
      fix fs gs
      assume split: "es @ [e] = fs @ gs"
      show "\<exists>r. gScore ?s (last (walk_nodes start fs)) = Some (Fin r) \<and> r \<le> cost uu fs"
      proof (cases gs rule: rev_cases)
        case Nil
        then have "fs = es @ [e]" using split by simp
        then show ?thesis using es(3) by simp
      next
        case (snoc gs' g)
        then have "es = fs @ gs'" using split by simp
        then show ?thesis using pre old by blast
      qed
    qed
    then show ?thesis by blast
  qed
qed

lemma linked_update:
  assumes step: "improving_step sg start uu s cur r e" and "linked sg start uu s"
  shows "linked sg start uu (relax_update goal h uu cur r e s)" (is "linked _ _ _ ?s")
  unfolding linked_def
proof (intro conjI allI impI)
  show "finite (dom (data ?s))" using assms(2) by (simp add: linked_def)
  show "\<exists>entry. data ?s start = Some entry \<and> entry_done entry"
    using assms(2) improving_step_start [OF step] by (auto simp: linked_def)
  have "(edge_node e, cur) \<notin> (parents (data s))\<^sup>*"
  proof
    assume "(edge_node e, cur) \<in> (parents (data s))\<^sup>*"
    then obtain rx where "gScore s (edge_node e) = Some (Fin rx)" "rx \<le> r"
      using parents_score [OF assms(2), of "edge_node e" cur r] step
      by (auto simp: improving_step_def)
    then show False
      using step improving_step_weight [OF step] by (auto simp: improving_step_def improves_def)
  qed
  then have "acyclic (insert (cur, edge_node e) (parents (data s)))"
    using assms(2) by (simp add: linked_def acyclic_insert)
  moreover have "parents (data ?s) \<subseteq> insert (cur, edge_node e) (parents (data s))"
    by (auto simp: parents_def split: if_splits)
  ultimately show "acyclic (parents (data ?s))" by (rule acyclic_subset)
next
  fix v
  assume "gScore ?s v = None"
  then show "data ?s v = None" using assms(2) by (auto simp: linked_def split: if_splits)
next
  fix v x
  assume v: "v \<noteq> start" "gScore ?s v = Some x"
  have cur: "gScore ?s cur = Some (Fin r)"
    using improving_step_cur [OF step] step by (auto simp: improving_step_def)
  show "\<exists>e' u ru rv. e' \<in> set (succ_of sg u) \<and> edge_node e' = v \<and>
     data ?s v = Some \<lparr>entry_node = u, entry_action = edge_action e', entry_done = False\<rparr> \<and>
     gScore ?s u = Some (Fin ru) \<and> x = Fin rv \<and> ru + real_of (weight uu e') \<le> rv"
  proof (cases "v = edge_node e")
    case True
    with v cur step show ?thesis
      by (intro exI [of _ e] exI [of _ cur] exI [of _ r] exI [of _ "r + real_of (weight uu e)"])
        (auto simp: improving_step_def)
  next
    case False
    with v assms(2) obtain e' u ru rv where old: "e' \<in> set (succ_of sg u)" "edge_node e' = v"
      "data s v = Some \<lparr>entry_node = u, entry_action = edge_action e', entry_done = False\<rparr>"
      "gScore s u = Some (Fin ru)" "x = Fin rv" "ru + real_of (weight uu e') \<le> rv"
      unfolding linked_def by fastforce
    obtain ru' where "gScore ?s u = Some (Fin ru')" "ru' \<le> ru"
      using improving_step_le [OF step old(4)] by blast
    with old False show ?thesis
      by (intro exI [of _ e'] exI [of _ u] exI [of _ ru'] exI [of _ rv]) auto
  qed
qed

lemma queued_update:
  assumes step: "improving_step sg start uu s cur r e" and "queued start goal h s"
  shows "queued start goal h (relax_update goal h uu cur r e s)" (is "queued _ _ _ ?s")
  unfolding queued_def
proof (intro conjI impI ballI)
  assume fin: "\<forall>v. finite_float (h v goal)"
  then have "Fin (r + real_of (weight uu e)) + h (edge_node e) goal \<noteq> NaN"
    by (intro finite_not_nan finite_float_add) simp_all
  moreover have "pq_invar (open_queue s)" using assms(2) fin by (simp add: queued_def)
  ultimately show "pq_invar (open_queue ?s)"
    by (simp add: relax_update_def Let_def pqueue.push_invar item_view_def)
next
  fix vp
  assume vp: "vp \<in> set (pq_contents (open_queue ?s))"
  obtain v p where vp_eq: "vp = (v, p)" by (cases vp)
  show "case vp of (v, p) \<Rightarrow> \<exists>r r'. gScore ?s v = Some (Fin r) \<and> r \<le> r' \<and>
      (p = Fin r' + h v goal \<or> v = start \<and> p = 0)"
  proof (cases "(v, p) \<in> set (pq_contents (open_queue s))")
    case True
    with assms(2) obtain ra rb where "gScore s v = Some (Fin ra)" "ra \<le> rb"
      "p = Fin rb + h v goal \<or> v = start \<and> p = 0"
      unfolding queued_def by fastforce
    moreover obtain ra' where "gScore ?s v = Some (Fin ra')" "ra' \<le> ra"
      using improving_step_le [OF step calculation(1)] by blast
    ultimately have "gScore ?s v = Some (Fin ra') \<and> ra' \<le> rb \<and>
        (p = Fin rb + h v goal \<or> v = start \<and> p = 0)" by linarith
    then show ?thesis unfolding vp_eq by blast
  next
    case False
    with vp vp_eq show ?thesis by auto
  qed
qed

lemma relaxed_update:
  assumes "improving_step sg start uu s cur r e" and "relaxed uu s rv e'"
  shows "relaxed uu (relax_update goal h uu cur r e s) rv e'"
proof -
  from assms(2) obtain r' where "gScore s (edge_node e') = Some (Fin r')" "r' \<le> rv + real_of (weight uu e')"
    by (auto simp: relaxed_def)
  with improving_step_le [OF assms(1) this(1)] show ?thesis
    unfolding relaxed_def by (meson order_trans)
qed

lemma expanded_update:
  assumes step: "improving_step sg start uu s cur r e"
    and "expanded sg start goal h uu s cur (e # rest)"
  shows "expanded sg start goal h uu (relax_update goal h uu cur r e s) cur rest"
    (is "expanded _ _ _ _ _ ?s _ _")
  unfolding expanded_def
proof (intro allI impI)
  fix v rv
  assume v: "gScore ?s v = Some (Fin rv)"
  show "pending start goal h ?s v rv \<or>
      (\<forall>e' \<in> set (succ_of sg v). v = cur \<and> e' \<in> set rest \<or> relaxed uu ?s rv e')"
  proof (cases "v = edge_node e")
    case True
    with v show ?thesis by (simp add: pending_def)
  next
    case False
    with v have old: "gScore s v = Some (Fin rv)" by simp
    show ?thesis
    proof (cases "pending start goal h s v rv")
      case True
      then show ?thesis by (auto simp: pending_def)
    next
      case no_item: False
      have "v = cur \<and> e' \<in> set rest \<or> relaxed uu ?s rv e'" if e': "e' \<in> set (succ_of sg v)" for e'
      proof -
        from assms(2) old no_item e' consider "v = cur" "e' = e" | "v = cur" "e' \<in> set rest"
          | "relaxed uu s rv e'" unfolding expanded_def by fastforce
        then show ?thesis
        proof cases
          case 1
          with old step have "rv = r" by (simp add: improving_step_def)
          with 1 show ?thesis by (simp add: relaxed_def)
        next
          case 3
          then show ?thesis using relaxed_update [OF step] by blast
        qed blast
      qed
      then show ?thesis by blast
    qed
  qed
qed

lemma search_inv_relax:
  assumes "search_inv sg start goal h uu s cur (e # rest)" and "nonneg_weights uu sg"
    and "e \<in> set (succ_of sg cur)" and "gScore s cur = Some (Fin r)"
  shows "search_inv sg start goal h uu (relax goal h uu cur e s) cur rest"
    and "gScore (relax goal h uu cur e s) cur = Some (Fin r)"
proof -
  have sc: "scored sg start uu s" using assms(1) by (simp add: search_inv_def)
  note cases = relax_cases [OF sc assms(2-4), of goal h]
  show "search_inv sg start goal h uu (relax goal h uu cur e s) cur rest"
  proof (cases "improves uu s r e")
    case True
    then have step: "improving_step sg start uu s cur r e"
      using assms sc by (simp add: improving_step_def)
    show ?thesis
      using True assms(1) scored_update [OF step] linked_update [OF step] queued_update [OF step]
        expanded_update [OF step]
      by (simp add: cases search_inv_def)
  next
    case False
    then obtain r' where "gScore s (edge_node e) = Some (Fin r')" "r' \<le> r + real_of (weight uu e)"
      by (auto simp: improves_def)
    then have "relaxed uu s r e" by (simp add: relaxed_def)
    with assms(1,4) have "expanded sg start goal h uu s cur rest"
      unfolding search_inv_def expanded_def by fastforce
    with False assms(1) show ?thesis by (simp add: cases search_inv_def)
  qed
  show "gScore (relax goal h uu cur e s) cur = Some (Fin r)"
  proof (cases "improves uu s r e")
    case True
    then have step: "improving_step sg start uu s cur r e" using assms sc by (simp add: improving_step_def)
    from True assms(4) improving_step_cur [OF step] show ?thesis by (simp add: cases)
  qed (simp add: cases assms(4))
qed

lemma search_inv_fold:
  assumes "search_inv sg start goal h uu s cur es" and "nonneg_weights uu sg"
    and "set es \<subseteq> set (succ_of sg cur)" and "gScore s cur = Some (Fin r)"
  shows "search_inv sg start goal h uu (fold (relax goal h uu cur) es s) cur []"
  using assms(1,3,4)
proof (induction es arbitrary: s)
  case Nil
  then show ?case by simp
next
  case (Cons e es)
  then show ?case
    using search_inv_relax [OF Cons.prems(1) assms(2)] by simp
qed

lemma search_inv_done: "search_inv sg start goal h uu s cur [] = search_inv sg start goal h uu s cur' []"
  by (simp add: search_inv_def expanded_def)

lemma search_inv_pop:
  assumes inv: "search_inv sg start goal h uu s cur []"
    and pop: "heap_pop (open_queue s) = Inr (item, queue)"
  shows "search_inv sg start goal h uu (s\<lparr>open_queue := queue\<rparr>) (item_value item) (succ_of sg (item_value item))"
    and "\<exists>r. gScore s (item_value item) = Some (Fin r)"
proof -
  let ?s = "s\<lparr>open_queue := queue\<rparr>" and ?v = "item_value item"
  have set_eq: "set (pq_contents (open_queue s)) = insert (item_view item) (set (pq_contents queue))"
    by (rule pqueue.pop_set [OF pop])
  then show "\<exists>r. gScore s ?v = Some (Fin r)"
    using inv unfolding search_inv_def queued_def item_view_def by fastforce
  have "queued start goal h ?s"
    using inv set_eq pqueue.pop_invar [OF _ pop] by (simp add: search_inv_def queued_def)
  moreover have "expanded sg start goal h uu ?s ?v (succ_of sg ?v)"
    unfolding expanded_def
  proof (intro allI impI)
    fix v r
    assume v: "gScore ?s v = Some (Fin r)"
    then have "pending start goal h s v r \<or> (\<forall>e \<in> set (succ_of sg v). relaxed uu s r e)"
      using inv by (auto simp: search_inv_def expanded_def)
    then show "pending start goal h ?s v r \<or>
        (\<forall>e \<in> set (succ_of sg v). v = ?v \<and> e \<in> set (succ_of sg ?v) \<or> relaxed uu ?s r e)"
      using set_eq by (cases "v = ?v") (auto simp: pending_def relaxed_def item_view_def)
  qed
  ultimately show "search_inv sg start goal h uu ?s ?v (succ_of sg ?v)"
    using inv by (simp add: search_inv_def scored_def linked_def)
qed

definition expand :: "stateGraph \<Rightarrow> node \<Rightarrow> heuristic \<Rightarrow> bool \<Rightarrow> node \<Rightarrow> search \<Rightarrow> search" where
  "expand sg goal h uu v s = fold (relax goal h uu v) (succ_of sg v) s"

lemma search_inv_expand:
  assumes "search_inv sg start goal h uu s cur []" and "nonneg_weights uu sg"
    and "heap_pop (open_queue s) = Inr (item, queue)"
  shows "search_inv sg start goal h uu
    (expand sg goal h uu (item_value item) (s\<lparr>open_queue := queue\<rparr>)) cur' []"
proof -
  obtain r where "gScore s (item_value item) = Some (Fin r)"
    using search_inv_pop(2) [OF assms(1,3)] by blast
  then have "search_inv sg start goal h uu
      (expand sg goal h uu (item_value item) (s\<lparr>open_queue := queue\<rparr>)) (item_value item) []"
    unfolding expand_def
    by (intro search_inv_fold [OF search_inv_pop(1) [OF assms(1,3)] assms(2)]) auto
  then show ?thesis using search_inv_done by blast
qed

section \<open>Termination\<close>

definition graph_edges :: "stateGraph \<Rightarrow> edge set" where
  "graph_edges sg = (\<Union>(n, es) \<in> set (successors sg). set es)"

definition graph_nodes :: "stateGraph \<Rightarrow> node \<Rightarrow> node set" where
  "graph_nodes sg start = insert start (edge_node ` graph_edges sg)"

definition simple_costs :: "stateGraph \<Rightarrow> node \<Rightarrow> bool \<Rightarrow> node \<Rightarrow> real set" where
  "simple_costs sg start uu v = cost uu ` {es. walk sg start es v \<and> distinct (walk_nodes start es)}"

definition room :: "stateGraph \<Rightarrow> node \<Rightarrow> bool \<Rightarrow> (node \<rightharpoonup> float64) \<Rightarrow> node \<Rightarrow> nat" where
  \<comment> \<open>how often the score of a node can still improve\<close>
  "room sg start uu g v =
     (case g v of
        None \<Rightarrow> Suc (card (simple_costs sg start uu v))
      | Some x \<Rightarrow> card {c \<in> simple_costs sg start uu v. c < real_of x})"

definition total_room :: "stateGraph \<Rightarrow> node \<Rightarrow> bool \<Rightarrow> search \<Rightarrow> nat" where
  "total_room sg start uu s = (\<Sum>v \<in> graph_nodes sg start. room sg start uu (gScore s) v)"

lemma succ_of_graph_edges: "e \<in> set (succ_of sg n) \<Longrightarrow> e \<in> graph_edges sg"
  by (cases "map_of (successors sg) n") (auto simp: succ_of_def graph_edges_def dest!: map_of_SomeD)

lemma finite_graph [simp]: "finite (graph_edges sg)" "finite (graph_nodes sg start)"
  by (auto simp: graph_edges_def graph_nodes_def)

lemma walk_in_graph:
  "walk sg u es v \<Longrightarrow> u \<in> graph_nodes sg start \<Longrightarrow>
     set es \<subseteq> graph_edges sg \<and> set (walk_nodes u es) \<subseteq> graph_nodes sg start"
  by (induction sg u es v rule: walk.induct) (auto simp: walk_nodes_def graph_nodes_def dest: succ_of_graph_edges)

lemma finite_simple_costs [simp]: "finite (simple_costs sg start uu v)"
proof -
  let ?n = "card (graph_nodes sg start)"
  have "{es. walk sg start es v \<and> distinct (walk_nodes start es)} \<subseteq>
      {es. set es \<subseteq> graph_edges sg \<and> length es \<le> ?n}"
  proof safe
    fix es
    assume es: "walk sg start es v" "distinct (walk_nodes start es)"
    have sub: "set es \<subseteq> graph_edges sg" "set (walk_nodes start es) \<subseteq> graph_nodes sg start"
      using walk_in_graph [OF es(1), of start] by (auto simp: graph_nodes_def)
    then show "e \<in> set es \<Longrightarrow> e \<in> graph_edges sg" for e by blast
    have "length (walk_nodes start es) \<le> ?n"
      using card_mono [OF _ sub(2)] distinct_card [OF es(2)] by simp
    then show "length es \<le> ?n" by (simp add: walk_nodes_def)
  qed
  then show ?thesis
    unfolding simple_costs_def
    by (intro finite_imageI) (rule finite_subset [OF _ finite_lists_length_le [OF finite_graph(1)]])
qed

lemma total_room_decreases:
  assumes step: "improving_step sg start uu s cur r e"
  shows "total_room sg start uu (relax_update goal h uu cur r e s) < total_room sg start uu s"
    (is "total_room _ _ _ ?s < _")
proof -
  let ?x = "edge_node e" and ?c = "r + real_of (weight uu e)"
  have sc: "scored sg start uu ?s" by (rule scored_update [OF step])
  moreover have x: "gScore ?s ?x = Some (Fin ?c)" by simp
  ultimately obtain es where "walk sg start es ?x" "distinct (walk_nodes start es)" "?c = cost uu es"
    unfolding scored_def by (metis float64.inject)
  then have c: "?c \<in> simple_costs sg start uu ?x" unfolding simple_costs_def by blast
  have "room sg start uu (gScore ?s) ?x < room sg start uu (gScore s) ?x"
  proof (cases "gScore s ?x")
    case None
    then show ?thesis by (auto simp: room_def less_Suc_eq_le intro: card_mono)
  next
    case (Some y)
    then obtain rx where rx: "gScore s ?x = Some (Fin rx)" "?c < rx"
      using step scored_finite unfolding improving_step_def improves_def by metis
    then have "{d \<in> simple_costs sg start uu ?x. d < ?c} \<subset> {d \<in> simple_costs sg start uu ?x. d < rx}"
      using c by auto
    then show ?thesis using rx by (simp add: room_def psubset_card_mono)
  qed
  moreover have "?x \<in> graph_nodes sg start"
    using step succ_of_graph_edges by (auto simp: improving_step_def graph_nodes_def)
  moreover have "room sg start uu (gScore ?s) v = room sg start uu (gScore s) v" if "v \<noteq> ?x" for v
    using that by (simp add: room_def)
  ultimately show ?thesis
    unfolding total_room_def
    by (intro sum_strict_mono_ex1) (metis finite_graph(2), metis le_less, blast)
qed

lemma total_room_fold:
  assumes "search_inv sg start goal h uu s cur es" and "nonneg_weights uu sg"
    and "set es \<subseteq> set (succ_of sg cur)" and "gScore s cur = Some (Fin r)"
  shows "fold (relax goal h uu cur) es s = s \<or>
    total_room sg start uu (fold (relax goal h uu cur) es s) < total_room sg start uu s"
  using assms(1,3,4)
proof (induction es arbitrary: s)
  case Nil
  then show ?case by simp
next
  case (Cons e es)
  let ?s = "relax goal h uu cur e s"
  have sc: "scored sg start uu s" using Cons.prems(1) by (simp add: search_inv_def)
  have IH: "fold (relax goal h uu cur) es ?s = ?s \<or>
      total_room sg start uu (fold (relax goal h uu cur) es ?s) < total_room sg start uu ?s"
    using Cons search_inv_relax [OF Cons.prems(1) assms(2)] by simp
  have cases: "?s = (if improves uu s r e then relax_update goal h uu cur r e s else s)"
    using relax_cases [OF sc assms(2)] Cons.prems by simp
  show ?case
  proof (cases "improves uu s r e")
    case True
    then have "improving_step sg start uu s cur r e"
      using Cons.prems assms(2) sc by (simp add: improving_step_def)
    then have "total_room sg start uu ?s < total_room sg start uu s"
      using total_room_decreases True cases by simp
    with IH show ?thesis by auto
  next
    case False
    with cases IH show ?thesis by simp
  qed
qed

lemma expand_decreases:
  assumes "search_inv sg start goal h uu s cur []" and "nonneg_weights uu sg"
    and pop: "heap_pop (open_queue s) = Inr (item, queue)"
  defines "s' \<equiv> expand sg goal h uu (item_value item) (s\<lparr>open_queue := queue\<rparr>)"
  shows "(s', s) \<in> measures [total_room sg start uu, \<lambda>s. length (open_queue s)]"
proof -
  obtain r where "gScore s (item_value item) = Some (Fin r)"
    using search_inv_pop(2) [OF assms(1) pop] by blast
  then have "s' = s\<lparr>open_queue := queue\<rparr> \<or>
      total_room sg start uu s' < total_room sg start uu (s\<lparr>open_queue := queue\<rparr>)"
    unfolding s'_def expand_def
    by (intro total_room_fold [OF search_inv_pop(1) [OF assms(1) pop] assms(2)]) auto
  moreover have "total_room sg start uu (s\<lparr>open_queue := queue\<rparr>) = total_room sg start uu s"
    by (simp add: total_room_def)
  moreover have "length queue < length (open_queue s)"
    using pqueue.pop_length [OF pop] by simp
  ultimately show ?thesis by auto
qed

lemma resolve_loop_walk:
  assumes "linked sg start uu s" and "nonneg_weights uu sg"
    and "gScore s v = Some (Fin r)" and "gScore s start = Some (Fin 0)"
  shows "\<exists>es. walk sg start es v \<and> cost uu es \<le> r \<and>
    distinct (walk_nodes start es) \<and> (\<forall>n \<in> set (walk_nodes start es). (n, v) \<in> (parents (data s))\<^sup>*) \<and>
    (\<forall>path actions. resolve_loop (data s) v (v # path) actions =
       Some (walk_nodes start es @ path, map edge_action es @ actions))"
proof -
  have fin: "finite (parents (data s))"
  proof (rule finite_subset)
    show "parents (data s) \<subseteq> (entry_node ` ran (data s)) \<times> dom (data s)"
      by (force simp: parents_def ran_def)
    show "finite (entry_node ` ran (data s) \<times> dom (data s))"
      using assms(1) by (simp add: linked_def finite_ran)
  qed
  have wf: "wf (parents (data s))"
    using assms(1) finite_acyclic_wf [OF fin] by (simp add: linked_def)
  show ?thesis using assms(3)
  proof (induction v arbitrary: r rule: wf_induct_rule [OF wf])
    case (1 v)
    show ?case
    proof (cases "v = start")
      case True
      then obtain entry where "data s v = Some entry" "entry_done entry"
        using assms(1) by (auto simp: linked_def)
      then have "resolve_loop (data s) v p a = Some (p, a)" for p a
        by (simp add: resolve_loop.simps [of _ v] data_of_def)
      with True 1 assms(4) show ?thesis
        by (intro exI [of _ "[]"]) (simp add: walk_nodes_def)
    next
      case False
      with 1 assms(1) obtain e u ru where e: "e \<in> set (succ_of sg u)" "edge_node e = v"
        "data s v = Some \<lparr>entry_node = u, entry_action = edge_action e, entry_done = False\<rparr>"
        "gScore s u = Some (Fin ru)" "ru + real_of (weight uu e) \<le> r"
        using linked_parent by metis
      then have uv: "(u, v) \<in> parents (data s)" by (simp add: parents_def)
      with "1.IH" e(4) obtain es where es: "walk sg start es u" "cost uu es \<le> ru"
        and simple: "distinct (walk_nodes start es)"
          "\<forall>n \<in> set (walk_nodes start es). (n, u) \<in> (parents (data s))\<^sup>*"
        and res: "\<And>path actions. resolve_loop (data s) u (u # path) actions =
          Some (walk_nodes start es @ path, map edge_action es @ actions)" by blast
      have "resolve_loop (data s) v (v # path) actions =
          Some (walk_nodes start (es @ [e]) @ path, map edge_action (es @ [e]) @ actions)" for path actions
      proof -
        have "resolve_loop (data s) v (v # path) actions =
            resolve_loop (data s) u (u # v # path) (edge_action e # actions)"
          by (simp add: resolve_loop.simps [of _ v] e(3) data_of_def)
        with res e(2) show ?thesis by simp
      qed
      moreover have "v \<notin> set (walk_nodes start es)"
      proof
        assume "v \<in> set (walk_nodes start es)"
        with simple(2) have "(v, u) \<in> (parents (data s))\<^sup>*" by blast
        from rtrancl_into_trancl1 [OF this uv] have "(v, v) \<in> (parents (data s))\<^sup>+" .
        with assms(1) show False by (simp add: linked_def acyclic_def)
      qed
      then have "distinct (walk_nodes start (es @ [e]))" using simple(1) e(2) by simp
      moreover have "\<forall>n \<in> set (walk_nodes start (es @ [e])). (n, v) \<in> (parents (data s))\<^sup>*"
        using simple(2) uv e(2) by (auto intro: rtrancl_into_rtrancl)
      moreover have "walk sg start (es @ [e]) v" using es(1) e by (auto simp: walk_snoc)
      moreover have "cost uu (es @ [e]) \<le> r" using es(2) e(5) by simp
      ultimately show ?thesis by blast
    qed
  qed
qed

section \<open>The result of the search\<close>

definition goal_waits :: "node \<Rightarrow> search \<Rightarrow> bool" where
  "goal_waits goal s \<longleftrightarrow>
     (gScore s goal \<noteq> None \<longrightarrow> goal \<in> fst ` set (pq_contents (open_queue s)))"

lemma goal_waits_init: "goal_waits goal (solve_init start)"
  using pqueue.push_set [of "[]" "\<lparr>item_value = start, priority = 0, index = 0\<rparr>"]
  by (simp add: goal_waits_def solve_init_def item_view_def)

lemma goal_waits_relax: "goal_waits goal s \<Longrightarrow> goal_waits goal (relax goal h uu cur e s)"
  by (auto simp: goal_waits_def relax_def Let_def pqueue.push_set item_view_def)

lemma goal_waits_expand:
  assumes "goal_waits goal s" and "heap_pop (open_queue s) = Inr (item, queue)" and "item_value item \<noteq> goal"
  shows "goal_waits goal (expand sg goal h uu (item_value item) (s\<lparr>open_queue := queue\<rparr>))"
proof -
  have "goal_waits goal (s\<lparr>open_queue := queue\<rparr>)"
    using assms pqueue.pop_set [OF assms(2)] by (auto simp: goal_waits_def item_view_def)
  moreover have "goal_waits goal t \<Longrightarrow> goal_waits goal (fold (relax goal h uu v) es t)" for t v es
    by (induction es arbitrary: t) (simp_all add: goal_waits_relax)
  ultimately show ?thesis by (simp add: expand_def)
qed

lemma solve_loop_step:
  assumes "heap_pop (open_queue s) = Inr (item, queue)"
  shows "solve_loop sg goal h uu s =
     (if item_value item = goal then map_option Inr (resolvePath (data s) goal)
      else solve_loop sg goal h uu (expand sg goal h uu (item_value item) (s\<lparr>open_queue := queue\<rparr>)))"
  using assms heap_pop_spec(1) [OF assms]
  by (subst solve_loop.simps) (simp add: Len_def expand_def Let_def)

lemma solve_loop_empty: "open_queue s = [] \<Longrightarrow> solve_loop sg goal h uu s = Some (Inr ([], []))"
  by (subst solve_loop.simps) (simp add: Len_def)

lemma solve_loop_exit:
  assumes "search_inv sg start goal h uu s cur []" and "nonneg_weights uu sg" and "goal_waits goal s"
  shows "\<exists>s'. search_inv sg start goal h uu s' cur [] \<and> goal_waits goal s' \<and>
    (open_queue s' = [] \<and> solve_loop sg goal h uu s = Some (Inr ([], [])) \<or>
     (\<exists>item queue. heap_pop (open_queue s') = Inr (item, queue) \<and> item_value item = goal \<and>
        solve_loop sg goal h uu s = map_option Inr (resolvePath (data s') goal)))"
  using assms(1,3)
proof (induction s rule: wf_induct_rule [OF wf_measures [of "[total_room sg start uu, \<lambda>s. length (open_queue s)]"]])
  case (1 s)
  show ?case
  proof (cases "open_queue s = []")
    case True
    with 1 solve_loop_empty show ?thesis by blast
  next
    case False
    then obtain item queue where pop: "heap_pop (open_queue s) = Inr (item, queue)"
      using pqueue.pop_total [of "open_queue s"] by (auto simp: pq_contents_def)
    let ?s = "expand sg goal h uu (item_value item) (s\<lparr>open_queue := queue\<rparr>)"
    show ?thesis
    proof (cases "item_value item = goal")
      case True
      with 1 pop solve_loop_step [OF pop] show ?thesis by auto
    next
      case False
      have "solve_loop sg goal h uu s = solve_loop sg goal h uu ?s"
        using solve_loop_step [OF pop] False by simp
      moreover have "search_inv sg start goal h uu ?s cur []" "goal_waits goal ?s"
        using search_inv_expand [OF "1.prems"(1) assms(2) pop] goal_waits_expand [OF "1.prems"(2) pop False]
        by blast+
      ultimately show ?thesis
        using "1.IH" [OF expand_decreases [OF "1.prems"(1) assms(2) pop]] by simp
    qed
  qed
qed

lemma frontier:
  assumes "search_inv sg start goal h uu s cur []" and "walk sg start es v"
  shows "(\<exists>r. gScore s v = Some (Fin r) \<and> r \<le> cost uu es) \<or>
    (\<exists>fs gs m r. es = fs @ gs \<and> walk sg m gs v \<and> gScore s m = Some (Fin r) \<and> r \<le> cost uu fs \<and>
       pending start goal h s m r)"
  using assms(2)
proof (induction es arbitrary: v rule: rev_induct)
  case Nil
  then show ?case using assms(1) by (simp add: search_inv_def scored_def)
next
  case (snoc e es)
  then obtain m where m: "walk sg start es m" "e \<in> set (succ_of sg m)" "edge_node e = v"
    by (auto simp: walk_snoc)
  from snoc.IH [OF m(1)] show ?case
  proof
    assume "\<exists>r. gScore s m = Some (Fin r) \<and> r \<le> cost uu es"
    then obtain r where r: "gScore s m = Some (Fin r)" "r \<le> cost uu es" by blast
    show ?thesis
    proof (cases "pending start goal h s m r")
      case True
      moreover have "walk sg m [e] v" using m by simp
      ultimately show ?thesis using r by blast
    next
      case False
      then have "relaxed uu s r e"
        using assms(1) r(1) m(2) by (auto simp: search_inv_def expanded_def)
      then show ?thesis using r(2) m(3) by (auto simp: relaxed_def)
    qed
  next
    assume "\<exists>fs gs m' r. es = fs @ gs \<and> walk sg m' gs m \<and> gScore s m' = Some (Fin r) \<and>
      r \<le> cost uu fs \<and> pending start goal h s m' r"
    then obtain fs gs m' r where fs: "es = fs @ gs" "walk sg m' gs m" "gScore s m' = Some (Fin r)"
      "r \<le> cost uu fs" "pending start goal h s m' r" by blast
    then have "es @ [e] = fs @ (gs @ [e])" "walk sg m' (gs @ [e]) v" using m by (auto simp: walk_snoc)
    with fs show ?thesis by blast
  qed
qed

definition admissible :: "stateGraph \<Rightarrow> node \<Rightarrow> heuristic \<Rightarrow> bool \<Rightarrow> bool" where
  \<comment> \<open>the heuristic never overestimates the cost of reaching the goal\<close>
  "admissible sg goal h uu \<longleftrightarrow>
     (\<forall>v. finite_float (h v goal)) \<and> 0 \<le> real_of (h goal goal) \<and>
     (\<forall>v es. walk sg v es goal \<longrightarrow> real_of (h v goal) \<le> cost uu es)"

lemma pop_goal_cheapest:
  assumes inv: "search_inv sg start goal h uu s cur []" and nonneg: "nonneg_weights uu sg"
    and adm: "admissible sg goal h uu"
    and pop: "heap_pop (open_queue s) = Inr (item, queue)" and goal: "item_value item = goal"
    and g: "gScore s goal = Some (Fin g)" and es: "walk sg start es goal"
  shows "g \<le> cost uu es"
proof (rule ccontr)
  assume "\<not> g \<le> cost uu es"
  then have less: "cost uu es < g" by simp
  have es0: "0 \<le> cost uu es" by (rule cost_nonneg [OF nonneg es])
  have fin: "finite_float (h v goal)" for v using adm by (simp add: admissible_def)
  have qinv: "pq_invar (open_queue s)" using inv fin by (simp add: search_inv_def queued_def)
  have "goal \<noteq> start" using inv g less es0 by (auto simp: search_inv_def scored_def)
  moreover have "item_view item \<in> set (pq_contents (open_queue s))"
    using pqueue_view_in [OF pop] .
  ultimately obtain r' where r': "g \<le> r'" "priority item = Fin r' + h goal goal"
    using inv g goal unfolding search_inv_def queued_def item_view_def by fastforce
  then have prio: "priority item = Fin (r' + real_of (h goal goal))" "g \<le> r' + real_of (h goal goal)"
    using Fin_real_of [OF fin, of goal] adm
    by (metis plus_float64.simps(1), simp add: admissible_def)
  from frontier [OF inv es] less g obtain fs gs m r where m: "es = fs @ gs" "walk sg m gs goal"
    "r \<le> cost uu fs" "pending start goal h s m r" by auto
  have "real_of (h m goal) \<le> cost uu gs" using adm m(2) by (simp add: admissible_def)
  with m have bound: "r + real_of (h m goal) \<le> cost uu es" by simp
  from m(4) obtain p where p: "(m, p) \<in> set (pq_contents (open_queue s))"
    "p = Fin (r + real_of (h m goal)) \<or> p = Fin 0"
    unfolding pending_def zero_float64_def by (metis Fin_real_of fin plus_float64.simps(1))
  have "priority item \<le> p"
    using pqueue.pop_min [OF qinv pop p(1)] by (simp add: item_view_def)
  with p(2) prio bound es0 less show False by auto
qed

lemma solve_exit:
  assumes nonneg: "nonneg_weights uu sg"
  obtains (unreachable) "\<not> reaches sg start goal" "solve sg start goal h uu = Some (Inr ([], []))"
  | (found) es where "walk sg start es goal" "distinct (walk_nodes start es)"
      "solve sg start goal h uu = Some (Inr (walk_nodes start es, map edge_action es))"
      "admissible sg goal h uu \<Longrightarrow> (\<forall>fs. walk sg start fs goal \<longrightarrow> cost uu es \<le> cost uu fs)"
proof -
  obtain s where inv: "search_inv sg start goal h uu s start []" and waits: "goal_waits goal s"
    and exit: "open_queue s = [] \<and> solve sg start goal h uu = Some (Inr ([], [])) \<or>
     (\<exists>item queue. heap_pop (open_queue s) = Inr (item, queue) \<and> item_value item = goal \<and>
        solve sg start goal h uu = map_option Inr (resolvePath (data s) goal))"
    using solve_loop_exit [OF search_inv_init nonneg goal_waits_init] unfolding solve_def by metis
  from exit show thesis
  proof (elim disjE conjE exE)
    assume empty: "open_queue s = []" and result: "solve sg start goal h uu = Some (Inr ([], []))"
    have "\<not> reaches sg start goal"
    proof
      assume "reaches sg start goal"
      then obtain es where "walk sg start es goal" by (auto simp: reaches_def)
      from frontier [OF inv this] empty have "gScore s goal \<noteq> None"
        by (auto simp: pending_def pq_contents_def)
      with waits empty show False by (simp add: goal_waits_def pq_contents_def)
    qed
    then show thesis using result unreachable by blast
  next
    fix item queue
    assume pop: "heap_pop (open_queue s) = Inr (item, queue)" and goal: "item_value item = goal"
      and result: "solve sg start goal h uu = map_option Inr (resolvePath (data s) goal)"
    obtain r where r: "gScore s goal = Some (Fin r)" using search_inv_pop(2) [OF inv pop] goal by auto
    have "linked sg start uu s" "gScore s start = Some (Fin 0)"
      using inv by (auto simp: search_inv_def scored_def)
    from resolve_loop_walk [OF this(1) nonneg r this(2)] obtain es where es: "walk sg start es goal"
      "cost uu es \<le> r" "distinct (walk_nodes start es)"
      "\<And>path actions. resolve_loop (data s) goal (goal # path) actions =
         Some (walk_nodes start es @ path, map edge_action es @ actions)" by blast
    have "solve sg start goal h uu = Some (Inr (walk_nodes start es, map edge_action es))"
      using result es(4) [of "[]" "[]"] by (simp add: resolvePath_def)
    moreover have "\<forall>fs. walk sg start fs goal \<longrightarrow> cost uu es \<le> cost uu fs" if "admissible sg goal h uu"
      using pop_goal_cheapest [OF inv nonneg that pop goal r] es(2) by (meson order_trans)
    ultimately show thesis using es(1,3) found by blast
  qed
qed

section \<open>The properties of the search\<close>

text \<open>
  C5. The search returns, and its answer is right: on a graph without negative, infinite or NaN
  costs, \<open>solve\<close> neither loops nor panics for any heuristic; it returns the nodes and the actions of a
  simple path from the start to the goal, or the two empty slices exactly when there is no such path.
\<close>
theorem solve_returns_path:
  assumes "nonneg_weights useUtility sg"
  shows "\<exists>path actions. solve sg start goal h useUtility = Some (Inr (path, actions)) \<and>
    (if reaches sg start goal
     then \<exists>es. walk sg start es goal \<and> path = walk_nodes start es \<and> actions = map edge_action es \<and> distinct path
     else path = [] \<and> actions = [])"
proof (cases rule: solve_exit [OF assms, of start goal h])
  case 1
  then show ?thesis by simp
next
  case (2 es)
  then have "reaches sg start goal" by (auto simp: reaches_def)
  with 2 show ?thesis by auto
qed

definition diamond :: stateGraph where
  \<comment> \<open>two ways from 1 to 4: one edge of cost 5, or two of cost 1\<close>
  "diamond = addEdge 1 4 5 zero_Action (addEdge 1 3 1 zero_Action (addEdge 3 4 1 zero_Action
     (addNode 4 (addNode 3 (addNode 1 newStateGraph)))))"

lemma diamond_succ:
  "succ_of diamond n =
     (if n = 1 then [\<lparr>edge_node = 3, utility = 1, edge_action = zero_Action\<rparr>,
        \<lparr>edge_node = 4, utility = 5, edge_action = zero_Action\<rparr>]
      else if n = 3 then [\<lparr>edge_node = 4, utility = 1, edge_action = zero_Action\<rparr>] else [])"
  by (simp add: diamond_def succ_of_addEdge)

lemma diamond_nonneg: "nonneg_weights True diamond"
  by (auto simp: nonneg_weights_def diamond_succ weight_def float_consts)

theorem solve_returns_path_witness:
  "\<exists>path actions. solve diamond 1 4 (\<lambda>_ _. 0) True = Some (Inr (path, actions)) \<and> distinct path"
  using solve_returns_path [OF diamond_nonneg, of 1 4 "\<lambda>_ _. 0"] by (auto split: if_splits)

text \<open>
  C6. The path is a cheapest one: where the heuristic is finite and never overestimates the cost that
  remains, no walk from the start to the goal costs less than the one \<open>solve\<close> returns.
\<close>
theorem solve_cheapest:
  assumes "nonneg_weights useUtility sg" and "admissible sg goal h useUtility" and "walk sg start fs goal"
  shows "\<exists>es. walk sg start es goal \<and> cost useUtility es \<le> cost useUtility fs \<and>
    solve sg start goal h useUtility = Some (Inr (walk_nodes start es, map edge_action es))"
proof (cases rule: solve_exit [OF assms(1), of start goal h])
  case 1
  with assms(3) show ?thesis by (auto simp: reaches_def)
next
  case (2 es)
  with assms(2,3) show ?thesis by blast
qed

lemma zero_admissible:
  assumes "nonneg_weights uu sg"
  shows "admissible sg goal (\<lambda>_ _. 0) uu"
  using cost_nonneg [OF assms] by (simp add: admissible_def float_consts)

theorem solve_cheapest_witness:
  "\<exists>es. walk diamond 1 es 4 \<and> cost True es \<le> 2 \<and>
     solve diamond 1 4 (\<lambda>_ _. 0) True = Some (Inr (walk_nodes 1 es, map edge_action es))"
proof -
  let ?fs = "[\<lparr>edge_node = 3, utility = 1, edge_action = zero_Action\<rparr>,
    \<lparr>edge_node = 4, utility = 1, edge_action = zero_Action\<rparr>]"
  have "walk diamond 1 ?fs 4" by (simp add: diamond_succ)
  moreover have "cost True ?fs = 2" by (simp add: weight_def float_consts)
  ultimately show ?thesis
    using solve_cheapest [OF diamond_nonneg zero_admissible [OF diamond_nonneg]] by metis
qed

end
