(* ===== verification/AStar_Planner.thy ===== *)
theory AStar_Planner
  imports AStar Configuration Actuators
begin

text \<open>
  \<^verbatim>\<open>pkg/planner/astar/astar_planner.go\<close>: the state graph built from the
  actuators, the plan found in it and what the planner does with a plan.  An
  actuator enters through its \<open>NextState\<close>; \<open>acts n\<close> are the actuators that the
  plugin manager's \<open>Iter\<close> visits while node \<open>n\<close> is expanded, in the order of
  that visit (the order over the registered plugins differs from call to call,
  and each node is expanded once).  The memory the nodes point into is the field
  \<open>memory\<close>; a fresh address is never reused.
\<close>

section \<open>The planner\<close>

definition emptyActionName :: string where
  "emptyActionName = ''done''"

definition opportunisticActionName :: string where
  "opportunisticActionName = ''opportunistic''"

definition empty_action :: Action where
  "empty_action = \<lparr>ActionName = emptyActionName, Properties = NilProps\<rparr>"

record graph_state =
  sg :: stateGraph
  memory :: "node \<Rightarrow> State"
  fresh :: node
  todo :: "node list"      \<comment> \<open>the variable \<open>queue\<close>\<close>
  hasGoal :: bool

definition startNode :: node where "startNode = 1"
definition endNode :: node where "endNode = 2"

definition new_node :: "State \<Rightarrow> graph_state \<Rightarrow> graph_state" where
  \<comment> \<open>\<open>sg.addNode(Node{&state})\<close>\<close>
  "new_node state g =
     g\<lparr>memory := (memory g)(fresh g := state), fresh := fresh g + 1, sg := addNode (fresh g) (sg g)\<rparr>"

definition init_graph :: "State \<Rightarrow> State \<Rightarrow> graph_state" where
  "init_graph start goal =
     \<lparr>sg = addNode endNode (addNode startNode newStateGraph),
      memory = (\<lambda>_. zero_State)(startNode := start, endNode := goal), fresh = 3,
      todo = [startNode], hasGoal = False\<rparr>"

definition getNodeForState :: "graph_state \<Rightarrow> State \<Rightarrow> node \<times> bool" where
  \<comment> \<open>the last node that holds an equal state, or the address of a new one\<close>
  "getNodeForState g state =
     (case find (\<lambda>n. state_deep_equal (memory g n) state) (rev (nodes (sg g))) of
        Some n \<Rightarrow> (n, True)
      | None \<Rightarrow> (fresh g, False))"

definition connect :: "node \<Rightarrow> node \<Rightarrow> float64 \<Rightarrow> Action \<Rightarrow> graph_state \<Rightarrow> graph_state" where
  "connect src trg u a g = g\<lparr>sg := addEdge src trg u a (sg g)\<rparr>"

definition add_candidate ::
  "State \<Rightarrow> profiles \<Rightarrow> node \<Rightarrow> float64 list \<Rightarrow> Action list \<Rightarrow> nat \<times> State \<Rightarrow> graph_state \<Rightarrow> graph_state go" where
  \<comment> \<open>the body of the loop over the candidates\<close>
  "add_candidate goal profiles current utils actions = (\<lambda>(i, state) g.
     (let (stateNode, found) = getNodeForState g state;
          g1 = (if \<not> found then (new_node state g)\<lparr>todo := todo g @ [stateNode]\<rparr> else g)
      in bindG (nthG utils i) (\<lambda>u. bindG (nthG actions i) (\<lambda>a.
           let g2 = connect current stateNode u a g1 in
           Inr (if IsBetter state goal profiles \<and> \<not> found
                then (connect stateNode endNode 0 empty_action g2)\<lparr>hasGoal := True\<rparr>
                else g2)))))"

definition expand_with ::
  "PlannerConfig \<Rightarrow> State \<Rightarrow> profiles \<Rightarrow> node \<Rightarrow> next_state \<Rightarrow> graph_state \<Rightarrow> graph_state go" where
  \<comment> \<open>the function \<open>itFct\<close> of \<open>generateStateGraph\<close>\<close>
  "expand_with cfg goal profiles current act g =
     bindG (act (memory g current) goal profiles) (\<lambda>(candidates, utils, actions).
       foldG (add_candidate goal profiles current utils actions)
         (enumerate 0 (take (nat (MaxCandidates cfg)) candidates)) g)"

definition expand_node ::
  "PlannerConfig \<Rightarrow> (node \<Rightarrow> next_state list) \<Rightarrow> State \<Rightarrow> profiles \<Rightarrow> graph_state \<Rightarrow> graph_state go" where
  "expand_node cfg acts goal profiles g =
     (case todo g of
        [] \<Rightarrow> Inr g
      | current # rest \<Rightarrow>
          foldG (expand_with cfg goal profiles current) (acts current) (g\<lparr>todo := rest\<rparr>))"

text \<open>A node that is added is also queued; this makes the loop end.\<close>

definition grows :: "graph_state \<Rightarrow> graph_state \<Rightarrow> bool" where
  "grows g g' \<longleftrightarrow>
     length (nodes (sg g)) \<le> length (nodes (sg g')) \<and>
     length (todo g') - length (todo g) = length (nodes (sg g')) - length (nodes (sg g)) \<and>
     length (todo g) \<le> length (todo g')"

lemma grows_refl [simp]: "grows g g"
  by (simp add: grows_def)

lemma grows_trans: "grows g g' \<Longrightarrow> grows g' g'' \<Longrightarrow> grows g g''"
  by (auto simp: grows_def)

lemma grows_candidate:
  "add_candidate goal profiles current utils actions ic g = Inr g' \<Longrightarrow> grows g g'"
  by (cases ic)
    (auto simp: add_candidate_def bindG_eq_Inr grows_def connect_def new_node_def Let_def
      split: prod.splits if_splits)

lemma grows_foldG:
  assumes "foldG f xs g = Inr g'" and "\<And>x g g'. f x g = Inr g' \<Longrightarrow> grows g g'"
  shows "grows g g'"
  by (rule foldG_invariant [OF assms(1), where P = "grows g"]) (use assms(2) grows_trans in auto)

lemma grows_expand_with: "expand_with cfg goal profiles current act g = Inr g' \<Longrightarrow> grows g g'"
  by (auto simp: expand_with_def bindG_eq_Inr elim!: grows_foldG intro: grows_candidate)

lemma grows_expand_node:
  "expand_node cfg acts goal profiles g = Inr g' \<Longrightarrow> todo g = current # rest \<Longrightarrow> grows (g\<lparr>todo := rest\<rparr>) g'"
  unfolding expand_node_def by (auto elim!: grows_foldG intro: grows_expand_with)

function build_graph ::
  "PlannerConfig \<Rightarrow> (node \<Rightarrow> next_state list) \<Rightarrow> State \<Rightarrow> profiles \<Rightarrow> graph_state \<Rightarrow> graph_state go" where
  \<comment> \<open>the loop of \<open>generateStateGraph\<close>\<close>
  "build_graph cfg acts goal profiles g =
     (if todo g \<noteq> [] \<and> int (length (nodes (sg g))) < MaxStates cfg
      then bindG (expand_node cfg acts goal profiles g) (build_graph cfg acts goal profiles)
      else Inr g)"
  by pat_completeness auto
termination
proof (relation "measures [\<lambda>(cfg, _, _, _, g). nat (MaxStates cfg - int (length (nodes (sg g)))),
    \<lambda>(_, _, _, _, g). length (todo g)]", goal_cases)
  case 1
  show ?case by simp
next
  case (2 cfg acts goal profiles g g')
  then obtain current rest where "todo g = current # rest" by (cases "todo g") auto
  with grows_expand_node [OF 2(2) this] 2(1) show ?case by (auto simp: grows_def)
qed

declare build_graph.simps [simp del]

definition hEmpty :: heuristic where
  "hEmpty = (\<lambda>_ _. 0)"

definition h_distance :: "(node \<Rightarrow> State) \<Rightarrow> profiles \<Rightarrow> heuristic" where
  \<comment> \<open>the function \<open>h\<close>\<close>
  "h_distance mem profiles one other = Distance (mem one) (mem other) profiles"

definition add_shortcut :: "State \<Rightarrow> node list \<Rightarrow> graph_state \<Rightarrow> graph_state go" where
  \<comment> \<open>the shortcut through an intermediate node, given the shortest path\<close>
  "add_shortcut start shortestPath g =
     (let tmp = float_of_int (int (length shortestPath) - 2) in
      bindG (nthG shortestPath (length shortestPath - 2)) (\<lambda>lastItem.
        let tmp = (if mlen (CurrentPods start) > mlen (CurrentPods (memory g lastItem)) \<or>
                      LessResources (memory g lastItem) start
                   then tmp * Fin 1.01 else tmp);
            copy = DeepCopy start;
            intermediate = copy\<lparr>IntentOf := (IntentOf copy)\<lparr>TargetKey := ''intermediate''\<rparr>\<rparr>;
            intermediateNode = fresh g
        in Inr ((connect intermediateNode endNode 0 empty_action
             (connect startNode intermediateNode tmp empty_action
               (new_node intermediate g)))\<lparr>hasGoal := True\<rparr>)))"

definition generateStateGraph ::
  "PlannerConfig \<Rightarrow> (node \<Rightarrow> next_state list) \<Rightarrow> State \<Rightarrow> State \<Rightarrow> profiles \<Rightarrow> graph_state go option" where
  "generateStateGraph cfg acts start goal profiles =
     (case build_graph cfg acts goal profiles (init_graph start goal) of
        Inl p \<Rightarrow> Some (Inl p)
      | Inr g \<Rightarrow>
          if IsBetter start goal profiles \<and> length (successors (sg g)) > 0 then
            (case solve (sg g) startNode endNode hEmpty False of
               None \<Rightarrow> None
             | Some (Inl p) \<Rightarrow> Some (Inl p)
             | Some (Inr (shortestPath, _)) \<Rightarrow>
                 if shortestPath \<noteq> [] then Some (add_shortcut start shortestPath g)
                 else Some (Inr g))
          else Some (Inr g))"

fun connect_closest :: "nat \<Rightarrow> node PriorityQueue \<Rightarrow> stateGraph \<Rightarrow> stateGraph" where
  \<comment> \<open>the second loop of \<open>addAdditionalStates\<close>\<close>
  "connect_closest 0 minDistances g = g"
| "connect_closest (Suc i) minDistances g =
     (if Len minDistances > 0 then
        (case heap_pop minDistances of
           Inl _ \<Rightarrow> g
         | Inr (item, minDistances') \<Rightarrow>
             connect_closest i minDistances'
               (addEdge (item_value item) endNode 0
                 \<lparr>ActionName = opportunisticActionName, Properties = NilProps\<rparr> g))
      else g)"

definition distance_queue :: "graph_state \<Rightarrow> profiles \<Rightarrow> node PriorityQueue" where
  \<comment> \<open>the first loop of \<open>addAdditionalStates\<close>\<close>
  "distance_queue g profiles =
     fold (\<lambda>n q. if n = endNode \<or> n = startNode then q
            else heap_push q \<lparr>item_value = n,
              priority = Distance (memory g n) (memory g endNode) profiles, index = 0\<rparr>)
       (nodes (sg g)) (heap_init [])"

definition addAdditionalStates :: "PlannerConfig \<Rightarrow> graph_state \<Rightarrow> profiles \<Rightarrow> stateGraph" where
  "addAdditionalStates cfg g profiles =
     connect_closest (nat (OpportunisticCandidates cfg)) (distance_queue g profiles) (sg g)"

definition final_plan :: "Action list \<Rightarrow> Action list" where
  "final_plan plan =
     filter (\<lambda>item. \<not> (ActionName item = emptyActionName \<or> ActionName item = opportunisticActionName)) plan"

definition plan_in :: "stateGraph \<Rightarrow> graph_state \<Rightarrow> profiles \<Rightarrow> Action list go option" where
  "plan_in graph g profiles =
     (case solve graph startNode endNode (h_distance (memory g) profiles) True of
        None \<Rightarrow> None
      | Some (Inl p) \<Rightarrow> Some (Inl p)
      | Some (Inr (_, actions)) \<Rightarrow> Some (Inr (final_plan actions)))"

definition CreatePlan ::
  "PlannerConfig \<Rightarrow> (node \<Rightarrow> next_state list) \<Rightarrow> State \<Rightarrow> State \<Rightarrow> profiles \<Rightarrow> Action list go option" where
  "CreatePlan cfg acts current desired profiles =
     (case generateStateGraph cfg acts current desired profiles of
        None \<Rightarrow> None
      | Some (Inl p) \<Rightarrow> Some (Inl p)
      | Some (Inr g) \<Rightarrow>
          if hasGoal g then plan_in (sg g) g profiles
          else if OpportunisticCandidates cfg > 0 then plan_in (addAdditionalStates cfg g profiles) g profiles
          else Some (Inr (final_plan [])))"

definition ExecutePlan :: "(State \<Rightarrow> Action list \<Rightarrow> 'c \<Rightarrow> 'c go) list \<Rightarrow> State \<Rightarrow> Action list \<Rightarrow> 'c \<Rightarrow> 'c go" where
  \<comment> \<open>each actuator the manager visits performs the plan on the cluster\<close>
  "ExecutePlan performs state plan = foldG (\<lambda>perform. perform state plan) performs"

section \<open>What the state graph means\<close>

definition same_state :: "State \<Rightarrow> State \<Rightarrow> bool" where
  "same_state a b \<longleftrightarrow> a = b \<or> state_deep_equal a b"

definition offers ::
  "PlannerConfig \<Rightarrow> (node \<Rightarrow> next_state list) \<Rightarrow> State \<Rightarrow> profiles \<Rightarrow> node \<Rightarrow> State \<Rightarrow>
   State \<Rightarrow> float64 \<Rightarrow> Action \<Rightarrow> bool" where
  \<comment> \<open>some actuator proposes the candidate within the number of candidates looked at\<close>
  "offers cfg acts goal profiles n s c u a \<longleftrightarrow>
     (\<exists>act \<in> set (acts n). \<exists>cs us as i. act s goal profiles = Inr (cs, us, as) \<and>
        i < length cs \<and> int i < MaxCandidates cfg \<and> cs ! i = c \<and>
        i < length us \<and> us ! i = u \<and> i < length as \<and> as ! i = a)"

definition goal_edge :: edge where
  "goal_edge = \<lparr>edge_node = endNode, utility = 0, edge_action = empty_action\<rparr>"

definition wf_graph :: "graph_state \<Rightarrow> bool" where
  "wf_graph g \<longleftrightarrow>
     distinct (nodes (sg g)) \<and> startNode \<in> set (nodes (sg g)) \<and> endNode \<in> set (nodes (sg g)) \<and>
     (\<forall>n \<in> set (nodes (sg g)). n < fresh g) \<and>
     (\<forall>n. \<forall>e \<in> set (succ_of (sg g) n).
        n \<in> set (nodes (sg g)) \<and> n \<noteq> endNode \<and> edge_node e \<in> set (nodes (sg g))) \<and>
     set (todo g) \<subseteq> set (nodes (sg g)) - {endNode}"

definition justified ::
  "PlannerConfig \<Rightarrow> (node \<Rightarrow> next_state list) \<Rightarrow> State \<Rightarrow> profiles \<Rightarrow> graph_state \<Rightarrow> bool" where
  \<comment> \<open>an edge leads from a state that is good enough to the goal, or to a proposed candidate\<close>
  "justified cfg acts goal profiles g \<longleftrightarrow>
     (\<forall>n. \<forall>e \<in> set (succ_of (sg g) n).
        e = goal_edge \<and> n \<noteq> startNode \<and> IsBetter (memory g n) goal profiles \<or>
        (\<exists>c. offers cfg acts goal profiles n (memory g n) c (utility e) (edge_action e) \<and>
           same_state (memory g (edge_node e)) c))"

definition rooted :: "graph_state \<Rightarrow> bool" where
  "rooted g \<longleftrightarrow> (\<forall>n \<in> set (nodes (sg g)) - {endNode}. reaches (sg g) startNode n)"

definition goal_marked :: "State \<Rightarrow> profiles \<Rightarrow> graph_state \<Rightarrow> bool" where
  \<comment> \<open>\<open>hasGoal\<close> tells whether a state of the graph other than the start is good enough\<close>
  "goal_marked goal profiles g \<longleftrightarrow>
     (hasGoal g \<longleftrightarrow> (\<exists>n \<in> set (nodes (sg g)) - {startNode, endNode}. IsBetter (memory g n) goal profiles)) \<and>
     (\<forall>n \<in> set (nodes (sg g)) - {startNode, endNode}. IsBetter (memory g n) goal profiles \<longrightarrow>
        goal_edge \<in> set (succ_of (sg g) n))"

definition planner_inv ::
  "PlannerConfig \<Rightarrow> (node \<Rightarrow> next_state list) \<Rightarrow> State \<Rightarrow> State \<Rightarrow> profiles \<Rightarrow> graph_state \<Rightarrow> bool" where
  "planner_inv cfg acts start goal profiles g \<longleftrightarrow>
     wf_graph g \<and> memory g startNode = start \<and> memory g endNode = goal \<and>
     justified cfg acts goal profiles g \<and> rooted g \<and> goal_marked goal profiles g"

definition extends :: "graph_state \<Rightarrow> graph_state \<Rightarrow> bool" where
  "extends g g' \<longleftrightarrow>
     set (nodes (sg g)) \<subseteq> set (nodes (sg g')) \<and>
     (\<forall>n \<in> set (nodes (sg g)). memory g' n = memory g n) \<and>
     (\<forall>n. set (succ_of (sg g) n) \<subseteq> set (succ_of (sg g') n)) \<and>
     set (todo g) \<subseteq> set (todo g') \<and> set (nodes (sg g')) \<subseteq> set (nodes (sg g)) \<union> set (todo g')"

lemma extends_refl [simp]: "extends g g"
  by (simp add: extends_def)

lemma extendsD:
  assumes "extends g g'"
  shows "n \<in> set (nodes (sg g)) \<Longrightarrow> n \<in> set (nodes (sg g'))"
    and "n \<in> set (nodes (sg g)) \<Longrightarrow> memory g' n = memory g n"
    and "e \<in> set (succ_of (sg g) n) \<Longrightarrow> e \<in> set (succ_of (sg g') n)"
  using assms unfolding extends_def by blast+

lemma extends_trans: "extends g g' \<Longrightarrow> extends g' g'' \<Longrightarrow> extends g g''"
  by (simp add: extends_def subset_iff) blast

lemma start_end [simp]: "startNode \<noteq> endNode" "endNode \<noteq> startNode"
  by (simp_all add: startNode_def endNode_def)

lemma init_graph_simps [simp]:
  "nodes (sg (init_graph start goal)) = [startNode, endNode]"
  "succ_of (sg (init_graph start goal)) n = []"
  "memory (init_graph start goal) startNode = start" "memory (init_graph start goal) endNode = goal"
  "todo (init_graph start goal) = [startNode]" "hasGoal (init_graph start goal) = False"
  "fresh (init_graph start goal) = 3"
  by (simp_all add: init_graph_def)

lemma planner_inv_init: "planner_inv cfg acts start goal ps (init_graph start goal)"
proof -
  have "wf_graph (init_graph start goal)"
    by (simp add: wf_graph_def) (simp add: startNode_def endNode_def)
  moreover have "justified cfg acts goal ps (init_graph start goal)"
    by (simp add: justified_def)
  moreover have "rooted (init_graph start goal)"
    by (auto simp: rooted_def)
  moreover have "goal_marked goal ps (init_graph start goal)"
    by (simp add: goal_marked_def)
  ultimately show ?thesis by (simp add: planner_inv_def)
qed

lemma same_state_refl [simp]: "same_state s s"
  by (simp add: same_state_def)

lemma connect_simps [simp]:
  "nodes (sg (connect a b u x g)) = nodes (sg g)" "memory (connect a b u x g) = memory g"
  "fresh (connect a b u x g) = fresh g" "todo (connect a b u x g) = todo g"
  "hasGoal (connect a b u x g) = hasGoal g"
  "sg (connect a b u x g) = addEdge a b u x (sg g)"
  by (simp_all add: connect_def)

lemma new_node_simps [simp]:
  "nodes (sg (new_node s g)) = nodes (sg g) @ [fresh g]" "succ_of (sg (new_node s g)) = succ_of (sg g)"
  "memory (new_node s g) = (memory g)(fresh g := s)" "fresh (new_node s g) = Suc (fresh g)"
  "todo (new_node s g) = todo g" "hasGoal (new_node s g) = hasGoal g"
  by (simp_all add: new_node_def)

lemma getNodeForState_cases:
  obtains (found) m where "getNodeForState g s = (m, True)" "m \<in> set (nodes (sg g))"
      "state_deep_equal (memory g m) s"
  | (fresh_node) "getNodeForState g s = (fresh g, False)"
proof (cases "find (\<lambda>n. state_deep_equal (memory g n) s) (rev (nodes (sg g)))")
  case None
  then show thesis using fresh_node by (simp add: getNodeForState_def)
next
  case (Some m)
  with find_SomeD [OF Some] show thesis using found by (simp add: getNodeForState_def)
qed

lemma extends_reaches: "extends g g' \<Longrightarrow> reaches (sg g) u v \<Longrightarrow> reaches (sg g') u v"
  unfolding reaches_def extends_def by (meson walk_mono)

definition link_new :: "State \<Rightarrow> node \<Rightarrow> float64 \<Rightarrow> Action \<Rightarrow> State \<Rightarrow> profiles \<Rightarrow> graph_state \<Rightarrow> graph_state" where
  \<comment> \<open>a candidate without a node in the graph gets one\<close>
  "link_new c cur u a goal ps g =
     (let g1 = connect cur (fresh g) u a ((new_node c g)\<lparr>todo := todo g @ [fresh g]\<rparr>) in
      if IsBetter c goal ps then (connect (fresh g) endNode 0 empty_action g1)\<lparr>hasGoal := True\<rparr> else g1)"

lemma add_candidate_cases:
  assumes "add_candidate goal ps cur us as (i, c) g = Inr g'"
  obtains (found) m where "m \<in> set (nodes (sg g))" "state_deep_equal (memory g m) c"
      "i < length us" "i < length as" "g' = connect cur m (us ! i) (as ! i) g"
  | (linked) "i < length us" "i < length as" "g' = link_new c cur (us ! i) (as ! i) goal ps g"
proof (cases rule: getNodeForState_cases [of g c])
  case (found m)
  with assms show thesis by (intro that(1) [of m]) (auto simp: add_candidate_def bindG_eq_Inr)
next
  case fresh_node
  with assms show thesis
    by (intro that(2)) (auto simp: add_candidate_def bindG_eq_Inr link_new_def Let_def)
qed

lemma link_new_simps:
  assumes "fresh g \<noteq> cur"
  shows "nodes (sg (link_new c cur u a goal ps g)) = nodes (sg g) @ [fresh g]"
    "memory (link_new c cur u a goal ps g) = (memory g)(fresh g := c)"
    "fresh (link_new c cur u a goal ps g) = Suc (fresh g)"
    "todo (link_new c cur u a goal ps g) = todo g @ [fresh g]"
    "hasGoal (link_new c cur u a goal ps g) = (hasGoal g \<or> IsBetter c goal ps)"
    "succ_of (sg (link_new c cur u a goal ps g)) n =
       (if n = cur then succ_of (sg g) n @ [\<lparr>edge_node = fresh g, utility = u, edge_action = a\<rparr>]
        else if n = fresh g \<and> IsBetter c goal ps then succ_of (sg g) n @ [goal_edge]
        else succ_of (sg g) n)"
  using assms by (simp_all add: link_new_def Let_def succ_of_addEdge goal_edge_def)

lemma extends_found: "extends g (connect cur m u a g)"
  by (auto simp: extends_def succ_of_addEdge)

lemma fresh_new: "wf_graph g \<Longrightarrow> fresh g \<notin> set (nodes (sg g)) \<and> fresh g \<noteq> endNode \<and> fresh g \<noteq> startNode
    \<and> succ_of (sg g) (fresh g) = []"
  unfolding wf_graph_def by (metis less_irrefl list.set_intros(1) neq_Nil_conv)

lemma extends_linked:
  assumes "wf_graph g" and "cur \<in> set (nodes (sg g))"
  shows "extends g (link_new c cur u a goal ps g)"
proof -
  have c: "fresh g \<noteq> cur" using fresh_new [OF assms(1)] assms(2) by auto
  show ?thesis
    using fresh_new [OF assms(1)] unfolding extends_def link_new_simps [OF c] by auto
qed

lemma wf_found:
  "wf_graph g \<Longrightarrow> cur \<in> set (nodes (sg g)) - {endNode} \<Longrightarrow> m \<in> set (nodes (sg g)) \<Longrightarrow>
     wf_graph (connect cur m u a g)"
  by (auto simp: wf_graph_def succ_of_addEdge)

lemma wf_linked:
  assumes "wf_graph g" and "cur \<in> set (nodes (sg g)) - {endNode}"
  shows "wf_graph (link_new c cur u a goal ps g)"
proof -
  note f = fresh_new [OF assms(1)]
  then have c: "fresh g \<noteq> cur" using assms(2) by auto
  show ?thesis
    using assms f unfolding wf_graph_def link_new_simps [OF c]
    by (auto simp: goal_edge_def less_Suc_eq)
qed

lemma planner_invD:
  assumes "planner_inv cfg acts start goal ps g"
  shows "wf_graph g" "memory g startNode = start" "memory g endNode = goal"
    "justified cfg acts goal ps g" "rooted g" "goal_marked goal ps g"
  using assms by (simp_all add: planner_inv_def)

lemma justified_extends:
  assumes "justified cfg acts goal ps g" and "wf_graph g" and ext: "extends g g'"
    and new: "\<And>n e. e \<in> set (succ_of (sg g') n) \<Longrightarrow> e \<notin> set (succ_of (sg g) n) \<Longrightarrow>
      e = goal_edge \<and> n \<noteq> startNode \<and> IsBetter (memory g' n) goal ps \<or>
      (\<exists>c. offers cfg acts goal ps n (memory g' n) c (utility e) (edge_action e) \<and>
         same_state (memory g' (edge_node e)) c)"
  shows "justified cfg acts goal ps g'"
  unfolding justified_def
proof (intro allI ballI)
  fix n e
  assume e: "e \<in> set (succ_of (sg g') n)"
  show "e = goal_edge \<and> n \<noteq> startNode \<and> IsBetter (memory g' n) goal ps \<or>
      (\<exists>c. offers cfg acts goal ps n (memory g' n) c (utility e) (edge_action e) \<and>
         same_state (memory g' (edge_node e)) c)"
  proof (cases "e \<in> set (succ_of (sg g) n)")
    case True
    then have "n \<in> set (nodes (sg g))" "edge_node e \<in> set (nodes (sg g))"
      using assms(2) by (auto simp: wf_graph_def)
    then have "memory g' n = memory g n" "memory g' (edge_node e) = memory g (edge_node e)"
      using extendsD(2) [OF ext] by auto
    with True assms(1) show ?thesis by (simp add: justified_def)
  next
    case False
    with e show ?thesis by (rule new)
  qed
qed

lemma rooted_extends:
  assumes "rooted g" and "extends g g'"
    and "\<And>n. n \<in> set (nodes (sg g')) \<Longrightarrow> n \<notin> set (nodes (sg g)) \<Longrightarrow> n \<noteq> endNode \<Longrightarrow> reaches (sg g') startNode n"
  shows "rooted g'"
  using assms extends_reaches unfolding rooted_def by blast

lemma goal_marked_extends:
  assumes "goal_marked goal ps g" and ext: "extends g g'" and "k \<notin> {startNode, endNode}"
    and "set (nodes (sg g')) = insert k (set (nodes (sg g)))" and "memory g' k = c"
    and "hasGoal g' \<longleftrightarrow> hasGoal g \<or> IsBetter c goal ps"
    and "k \<notin> set (nodes (sg g))" and "IsBetter c goal ps \<Longrightarrow> goal_edge \<in> set (succ_of (sg g') k)"
  shows "goal_marked goal ps g'"
proof -
  let ?N = "set (nodes (sg g)) - {startNode, endNode}"
  have N: "set (nodes (sg g')) - {startNode, endNode} = insert k ?N" using assms(3,4) by auto
  have old: "memory g' n = memory g n" if "n \<in> ?N" for n using that extendsD(2) [OF ext] by auto
  have "goal_edge \<in> set (succ_of (sg g') n)" if "n \<in> ?N" "IsBetter (memory g n) goal ps" for n
    using that assms(1) extendsD(3) [OF ext] by (auto simp: goal_marked_def)
  moreover have "hasGoal g \<longleftrightarrow> (\<exists>n \<in> ?N. IsBetter (memory g n) goal ps)"
    using assms(1) by (simp add: goal_marked_def)
  ultimately show ?thesis unfolding goal_marked_def N using old assms(5,6,8) by auto
qed

lemma planner_inv_found:
  assumes inv: "planner_inv cfg acts start goal ps g" and cur: "cur \<in> set (nodes (sg g)) - {endNode}"
    and m: "m \<in> set (nodes (sg g))" "state_deep_equal (memory g m) c"
    and off: "offers cfg acts goal ps cur (memory g cur) c u a"
  shows "planner_inv cfg acts start goal ps (connect cur m u a g)"
proof -
  let ?g = "connect cur m u a g"
  note i = planner_invD [OF inv]
  have "justified cfg acts goal ps ?g"
    by (rule justified_extends [OF i(4,1) extends_found])
      (use m off in \<open>auto simp: succ_of_addEdge same_state_def split: if_splits\<close>)
  moreover have "rooted ?g"
    by (rule rooted_extends [OF i(5) extends_found]) simp
  moreover have "goal_marked goal ps ?g"
    using i(6) by (auto simp: goal_marked_def succ_of_addEdge)
  moreover have "wf_graph ?g" by (rule wf_found [OF i(1) cur m(1)])
  ultimately show ?thesis using i(2,3) by (simp add: planner_inv_def)
qed

lemma planner_inv_linked:
  assumes inv: "planner_inv cfg acts start goal ps g" and cur: "cur \<in> set (nodes (sg g)) - {endNode}"
    and off: "offers cfg acts goal ps cur (memory g cur) c u a"
  shows "planner_inv cfg acts start goal ps (link_new c cur u a goal ps g)"
proof -
  let ?g = "link_new c cur u a goal ps g"
  note i = planner_invD [OF inv]
  note f = fresh_new [OF i(1)]
  have fc: "fresh g \<noteq> cur" using f cur by auto
  note l = link_new_simps [OF fc, of c u a goal ps]
  have ext: "extends g ?g" using extends_linked [OF i(1)] cur by blast
  have "justified cfg acts goal ps ?g"
  proof (rule justified_extends [OF i(4,1) ext])
    fix n e
    assume e: "e \<in> set (succ_of (sg ?g) n)" "e \<notin> set (succ_of (sg g) n)"
    then consider "n = cur" "e = \<lparr>edge_node = fresh g, utility = u, edge_action = a\<rparr>"
      | "n = fresh g" "IsBetter c goal ps" "e = goal_edge"
      by (auto simp: l split: if_splits)
    then show "e = goal_edge \<and> n \<noteq> startNode \<and> IsBetter (memory ?g n) goal ps \<or>
      (\<exists>c. offers cfg acts goal ps n (memory ?g n) c (utility e) (edge_action e) \<and>
         same_state (memory ?g (edge_node e)) c)"
      by cases (use off f fc in \<open>auto simp: l\<close>)
  qed
  moreover have "rooted ?g"
  proof (rule rooted_extends [OF i(5) ext])
    fix n
    assume "n \<in> set (nodes (sg ?g))" "n \<notin> set (nodes (sg g))"
    then have n: "n = fresh g" by (simp add: l)
    have "reaches (sg ?g) startNode cur"
      using i(5) cur extends_reaches [OF ext] by (auto simp: rooted_def)
    then have "reaches (sg ?g) startNode
        (edge_node \<lparr>edge_node = fresh g, utility = u, edge_action = a\<rparr>)"
      by (rule reaches_step) (simp add: l)
    then show "reaches (sg ?g) startNode n" by (simp add: n)
  qed
  moreover have "goal_marked goal ps ?g"
    by (rule goal_marked_extends [OF i(6) ext, where k = "fresh g" and c = c]) (use f fc in \<open>simp_all add: l\<close>)
  moreover have "wf_graph ?g" by (rule wf_linked [OF i(1) cur])
  moreover have "memory ?g startNode = start" "memory ?g endNode = goal"
    using i(2,3) f by (auto simp: l)
  ultimately show ?thesis by (simp add: planner_inv_def)
qed

section \<open>Building the graph\<close>

definition linked_candidate :: "graph_state \<Rightarrow> node \<Rightarrow> State \<Rightarrow> float64 \<Rightarrow> Action \<Rightarrow> bool" where
  "linked_candidate g n c u a \<longleftrightarrow>
     (\<exists>e \<in> set (succ_of (sg g) n). utility e = u \<and> edge_action e = a \<and>
        same_state (memory g (edge_node e)) c)"

definition closed_node ::
  "PlannerConfig \<Rightarrow> (node \<Rightarrow> next_state list) \<Rightarrow> State \<Rightarrow> profiles \<Rightarrow> graph_state \<Rightarrow> node \<Rightarrow> bool" where
  \<comment> \<open>every candidate proposed at the node is in the graph\<close>
  "closed_node cfg acts goal ps g n \<longleftrightarrow>
     (\<forall>c u a. offers cfg acts goal ps n (memory g n) c u a \<longrightarrow> linked_candidate g n c u a)"

lemma linked_candidate_extends:
  assumes "wf_graph g" and ext: "extends g g'" and "linked_candidate g n c u a"
  shows "linked_candidate g' n c u a"
proof -
  obtain e where e: "e \<in> set (succ_of (sg g) n)" "utility e = u" "edge_action e = a"
    "same_state (memory g (edge_node e)) c"
    using assms(3) by (auto simp: linked_candidate_def)
  have "edge_node e \<in> set (nodes (sg g))" using assms(1) e(1) by (auto simp: wf_graph_def)
  then have "same_state (memory g' (edge_node e)) c" using e(4) extendsD(2) [OF ext] by simp
  with e extendsD(3) [OF ext e(1)] show ?thesis by (auto simp: linked_candidate_def)
qed

lemma closed_node_extends:
  assumes "wf_graph g" and "extends g g'" and "closed_node cfg acts goal ps g n" and "n \<in> set (nodes (sg g))"
  shows "closed_node cfg acts goal ps g' n"
  using assms linked_candidate_extends [OF assms(1,2)] extendsD(2) [OF assms(2)]
  by (simp add: closed_node_def)

lemma linked_found:
  "state_deep_equal (memory g m) c \<Longrightarrow> linked_candidate (connect cur m u a g) cur c u a"
  by (auto simp: linked_candidate_def succ_of_addEdge same_state_def)

lemma linked_new:
  "fresh g \<noteq> cur \<Longrightarrow> linked_candidate (link_new c cur u a goal ps g) cur c u a"
  by (auto simp: linked_candidate_def link_new_simps)

lemma candidate_step:
  assumes inv: "planner_inv cfg acts start goal ps g" and cur: "cur \<in> set (nodes (sg g)) - {endNode}"
    and act: "act \<in> set (acts cur)" "act (memory g cur) goal ps = Inr (cs, us, as)"
    and i: "i < length cs" "int i < MaxCandidates cfg" "cs ! i = c"
    and step: "add_candidate goal ps cur us as (i, c) g = Inr g'"
  shows "planner_inv cfg acts start goal ps g'" and "extends g g'"
    and "i < length us" and "i < length as" and "linked_candidate g' cur c (us ! i) (as ! i)"
proof -
  have off: "i < length us \<Longrightarrow> i < length as \<Longrightarrow>
      offers cfg acts goal ps cur (memory g cur) c (us ! i) (as ! i)"
    unfolding offers_def using act i by blast
  have f: "fresh g \<noteq> cur" using fresh_new [OF planner_invD(1) [OF inv]] cur by auto
  have "planner_inv cfg acts start goal ps g' \<and> extends g g' \<and> i < length us \<and> i < length as \<and>
      linked_candidate g' cur c (us ! i) (as ! i)"
    using step
  proof (cases rule: add_candidate_cases)
    case (found m)
    then show ?thesis
      using planner_inv_found [OF inv cur found(1,2) off] extends_found linked_found by simp
  next
    case linked
    then show ?thesis
      using planner_inv_linked [OF inv cur off] extends_linked [OF planner_invD(1) [OF inv]]
        linked_new [OF f] cur by simp
  qed
  then show "planner_inv cfg acts start goal ps g'" "extends g g'" "i < length us" "i < length as"
    "linked_candidate g' cur c (us ! i) (as ! i)" by blast+
qed

lemma expand_with_step:
  assumes inv: "planner_inv cfg acts start goal ps g" and cur: "cur \<in> set (nodes (sg g)) - {endNode}"
    and act: "act \<in> set (acts cur)"
    and step: "expand_with cfg goal ps cur act g = Inr g'"
  shows "planner_inv cfg acts start goal ps g' \<and> extends g g' \<and>
    (\<exists>cs us as. act (memory g' cur) goal ps = Inr (cs, us, as) \<and>
       (\<forall>i < length cs. int i < MaxCandidates cfg \<longrightarrow>
          linked_candidate g' cur (cs ! i) (us ! i) (as ! i)))"
proof -
  obtain cs us as where cs: "act (memory g cur) goal ps = Inr (cs, us, as)"
    and fold: "foldG (add_candidate goal ps cur us as)
         (enumerate 0 (take (nat (MaxCandidates cfg)) cs)) g = Inr g'"
    using step by (auto simp: expand_with_def bindG_eq_Inr)
  let ?P = "\<lambda>h. planner_inv cfg acts start goal ps h \<and> extends g h"
  let ?Q = "\<lambda>(i, c) h. linked_candidate h cur c (us ! i) (as ! i)"
  have "?P g' \<and> extends g g' \<and> (\<forall>x \<in> set (enumerate 0 (take (nat (MaxCandidates cfg)) cs)). ?Q x g')"
  proof (rule foldG_trace [OF fold, where P = ?P])
    fix x h h'
    assume x: "x \<in> set (enumerate 0 (take (nat (MaxCandidates cfg)) cs))" and h: "?P h"
      and h': "add_candidate goal ps cur us as x h = Inr h'"
    obtain i where i: "x = (i, cs ! i)" "i < length cs" "int i < MaxCandidates cfg"
      using x that [of "fst x"] by (auto simp: in_set_enumerate_eq prod_eq_iff)
    have cur': "cur \<in> set (nodes (sg h)) - {endNode}" "memory h cur = memory g cur"
      using cur h extendsD(1,2) by blast+
    show "?P h' \<and> extends h h' \<and> ?Q x h'"
      using candidate_step [of cfg acts start goal ps h cur act cs us as i "cs ! i" h']
        h h' i act cs cur' extends_trans by auto
  next
    fix x h h'
    assume "?P h" "extends h h'" "?Q x h"
    then show "?Q x h'"
      using linked_candidate_extends [OF planner_invD(1)] by (cases x) blast
  qed (use inv extends_trans in auto)
  moreover have "(i, cs ! i) \<in> set (enumerate 0 (take (nat (MaxCandidates cfg)) cs))"
    if "i < length cs" "int i < MaxCandidates cfg" for i
    using that by (simp add: in_set_enumerate_eq)
  ultimately show ?thesis using cs cur extendsD(2) [of g g' cur] by fastforce
qed

lemma expand_node_step:
  assumes inv: "planner_inv cfg acts start goal ps g" and todo: "todo g = cur # rest"
    and step: "expand_node cfg acts goal ps g = Inr g'"
  shows "planner_inv cfg acts start goal ps g' \<and> extends (g\<lparr>todo := rest\<rparr>) g' \<and>
    closed_node cfg acts goal ps g' cur"
proof -
  let ?g = "g\<lparr>todo := rest\<rparr>"
  have inv1: "planner_inv cfg acts start goal ps ?g" and cur: "cur \<in> set (nodes (sg g)) - {endNode}"
    using inv todo by (auto simp: planner_inv_def wf_graph_def justified_def rooted_def goal_marked_def)
  have fold: "foldG (expand_with cfg goal ps cur) (acts cur) ?g = Inr g'"
    using step todo by (simp add: expand_node_def)
  let ?P = "\<lambda>h. planner_inv cfg acts start goal ps h \<and> cur \<in> set (nodes (sg h)) - {endNode}"
  let ?Q = "\<lambda>act h. cur \<in> set (nodes (sg h)) \<and>
    (\<exists>cs us as. act (memory h cur) goal ps = Inr (cs, us, as) \<and>
       (\<forall>i < length cs. int i < MaxCandidates cfg \<longrightarrow> linked_candidate h cur (cs ! i) (us ! i) (as ! i)))"
  have "?P g' \<and> extends ?g g' \<and> (\<forall>act \<in> set (acts cur). ?Q act g')"
  proof (rule foldG_trace [OF fold, where P = ?P])
    fix act h h'
    assume act: "act \<in> set (acts cur)" "?P h" "expand_with cfg goal ps cur act h = Inr h'"
    then have "planner_inv cfg acts start goal ps h' \<and> extends h h' \<and>
      (\<exists>cs us as. act (memory h' cur) goal ps = Inr (cs, us, as) \<and>
       (\<forall>i < length cs. int i < MaxCandidates cfg \<longrightarrow>
          linked_candidate h' cur (cs ! i) (us ! i) (as ! i)))"
      using expand_with_step by blast
    then show "?P h' \<and> extends h h' \<and> ?Q act h'"
      using act(2) extendsD(1) by blast
  next
    fix act h h'
    assume h: "?P h" "extends h h'" "?Q act h"
    then have "memory h' cur = memory h cur" using extendsD(2) by blast
    with h show "?Q act h'"
      using linked_candidate_extends [OF planner_invD(1)] extendsD(1) by (metis (no_types, lifting))
  next
    show "?P ?g" using inv1 cur by simp
  qed (use extends_trans in auto)
  moreover from this have "closed_node cfg acts goal ps g' cur"
    by (fastforce simp: closed_node_def offers_def)
  ultimately show ?thesis by blast
qed

definition explored ::
  "PlannerConfig \<Rightarrow> (node \<Rightarrow> next_state list) \<Rightarrow> State \<Rightarrow> profiles \<Rightarrow> graph_state \<Rightarrow> bool" where
  \<comment> \<open>every node that waits no longer is closed\<close>
  "explored cfg acts goal ps g \<longleftrightarrow>
     (\<forall>n \<in> set (nodes (sg g)) - {endNode} - set (todo g). closed_node cfg acts goal ps g n)"

lemma explored_expand:
  assumes inv: "planner_inv cfg acts start goal ps g" and todo: "todo g = cur # rest"
    and expl: "explored cfg acts goal ps g" and step: "expand_node cfg acts goal ps g = Inr g'"
  shows "explored cfg acts goal ps g'"
  unfolding explored_def
proof
  fix n
  assume n: "n \<in> set (nodes (sg g')) - {endNode} - set (todo g')"
  let ?g = "g\<lparr>todo := rest\<rparr>"
  note s = expand_node_step [OF inv todo step]
  then have ext: "extends ?g g'" by blast
  then have old: "n \<in> set (nodes (sg g))" "n \<notin> set rest"
    using n unfolding extends_def by auto
  show "closed_node cfg acts goal ps g' n"
  proof (cases "n = cur")
    case True
    with s show ?thesis by blast
  next
    case False
    then have "closed_node cfg acts goal ps ?g n"
      using expl old n todo by (auto simp: explored_def closed_node_def linked_candidate_def)
    moreover have "wf_graph ?g"
      using planner_invD(1) [OF inv] todo by (simp add: wf_graph_def)
    ultimately show ?thesis using closed_node_extends [OF _ ext] old by simp
  qed
qed

lemma build_graph_inv:
  assumes "build_graph cfg acts goal ps g = Inr g'"
    and "planner_inv cfg acts start goal ps g" and "explored cfg acts goal ps g"
  shows "planner_inv cfg acts start goal ps g' \<and> explored cfg acts goal ps g' \<and>
    (todo g' = [] \<or> MaxStates cfg \<le> int (length (nodes (sg g'))))"
  using assms
proof (induction cfg acts goal ps g rule: build_graph.induct)
  case (1 cfg acts goal ps g)
  show ?case
  proof (cases "todo g \<noteq> [] \<and> int (length (nodes (sg g))) < MaxStates cfg")
    case True
    then obtain h where h: "expand_node cfg acts goal ps g = Inr h"
      "build_graph cfg acts goal ps h = Inr g'"
      using "1.prems"(1) by (subst (asm) build_graph.simps) (auto simp: bindG_eq_Inr)
    obtain cur rest where todo: "todo g = cur # rest" using True by (cases "todo g") auto
    show ?thesis
      using "1.IH" [OF True h(1) h(2)] expand_node_step [OF "1.prems"(2) todo h(1)]
        explored_expand [OF "1.prems"(2) todo "1.prems"(3) h(1)] by blast
  next
    case False
    then have "build_graph cfg acts goal ps g = Inr g"
      by (subst build_graph.simps) auto
    then have "g' = g" using "1.prems"(1) by simp
    with False "1.prems" show ?thesis by auto
  qed
qed

section \<open>Actuators that keep their contract\<close>

definition all_behave :: "(State \<Rightarrow> bool) \<Rightarrow> State \<Rightarrow> profiles \<Rightarrow> (node \<Rightarrow> next_state list) \<Rightarrow> bool" where
  "all_behave ok goal profiles acts \<longleftrightarrow> (\<forall>n. list_all (well_behaved ok goal profiles) (acts n))"

definition sane_nodes :: "(State \<Rightarrow> bool) \<Rightarrow> graph_state \<Rightarrow> bool" where
  \<comment> \<open>the states the planner asks the actuators about keep their invariant\<close>
  "sane_nodes ok g \<longleftrightarrow> (\<forall>n \<in> set (nodes (sg g)) - {endNode}. ok (memory g n))"

lemma all_behaveD: "all_behave ok goal ps acts \<Longrightarrow> act \<in> set (acts n) \<Longrightarrow> well_behaved ok goal ps act"
  by (simp add: all_behave_def list_all_iff)

lemma sane_candidate:
  assumes wf: "wf_graph g" and cur: "cur \<in> set (nodes (sg g)) - {endNode}" and "sane_nodes ok g" and "ok c"
    and step: "add_candidate goal ps cur us as (i, c) g = Inr g'"
  shows "wf_graph g' \<and> sane_nodes ok g' \<and> cur \<in> set (nodes (sg g')) - {endNode} \<and> memory g' cur = memory g cur"
  using step
proof (cases rule: add_candidate_cases)
  case (found m)
  then show ?thesis using wf_found [OF wf cur found(1)] assms(2,3) by (simp add: sane_nodes_def)
next
  case linked
  note f = fresh_new [OF wf]
  then have fc: "fresh g \<noteq> cur" using cur by auto
  show ?thesis
    using linked(3) wf_linked [OF wf cur] assms(2-4) f fc
    by (auto simp: sane_nodes_def link_new_simps [OF fc])
qed

lemma expand_with_total:
  assumes "wf_graph g" and cur: "cur \<in> set (nodes (sg g)) - {endNode}" and sane: "sane_nodes ok g"
    and act: "well_behaved ok goal ps act"
  shows "\<exists>g'. expand_with cfg goal ps cur act g = Inr g' \<and>
    wf_graph g' \<and> sane_nodes ok g' \<and> cur \<in> set (nodes (sg g')) - {endNode}"
proof -
  have "ok (memory g cur)" using sane cur by (simp add: sane_nodes_def)
  with act obtain cs us as where cs: "act (memory g cur) goal ps = Inr (cs, us, as)"
    "length us = length cs" "length as = length cs" "\<forall>c \<in> set cs. ok c"
    by (rule well_behavedE) blast
  let ?P = "\<lambda>h. wf_graph h \<and> sane_nodes ok h \<and> cur \<in> set (nodes (sg h)) - {endNode}"
  have "\<exists>h'. foldG (add_candidate goal ps cur us as)
      (enumerate 0 (take (nat (MaxCandidates cfg)) cs)) g = Inr h' \<and> ?P h'"
  proof (rule foldG_total [where P = ?P])
    fix x h
    assume x: "x \<in> set (enumerate 0 (take (nat (MaxCandidates cfg)) cs))" and h: "?P h"
    obtain i where i: "x = (i, cs ! i)" "i < length cs"
      using x that [of "fst x"] by (auto simp: in_set_enumerate_eq prod_eq_iff)
    define c where "c = cs ! i"
    have x: "x = (i, c)" "i < length cs" "c \<in> set cs" using i by (simp_all add: c_def)
    then obtain h' where h': "add_candidate goal ps cur us as (i, c) h = Inr h'"
      using cs by (cases "getNodeForState h c") (simp add: add_candidate_def nthG_def Let_def)
    have "ok c" using x(3) cs(4) by blast
    with sane_candidate [of h cur ok c, OF _ _ _ _ h'] h x(1) h'
    show "\<exists>h'. add_candidate goal ps cur us as x h = Inr h' \<and> ?P h'" by auto
  qed (use assms in auto)
  with cs(1) show ?thesis by (auto simp: expand_with_def)
qed

lemma expand_total:
  assumes behave: "all_behave ok goal ps acts" and "wf_graph g" and "sane_nodes ok g"
  shows "\<exists>g'. expand_node cfg acts goal ps g = Inr g' \<and> wf_graph g' \<and> sane_nodes ok g'"
proof (cases "todo g")
  case Nil
  with assms show ?thesis by (simp add: expand_node_def)
next
  case (Cons cur rest)
  let ?P = "\<lambda>h. wf_graph h \<and> sane_nodes ok h \<and> cur \<in> set (nodes (sg h)) - {endNode}"
  have "\<exists>g'. foldG (expand_with cfg goal ps cur) (acts cur) (g\<lparr>todo := rest\<rparr>) = Inr g' \<and> ?P g'"
  proof (rule foldG_total [where P = ?P])
    show "?P (g\<lparr>todo := rest\<rparr>)" using assms Cons by (auto simp: wf_graph_def sane_nodes_def)
  qed (use expand_with_total all_behaveD [OF behave] in blast)
  with Cons show ?thesis by (auto simp: expand_node_def)
qed

lemma build_graph_total:
  "all_behave ok goal ps acts \<Longrightarrow> wf_graph g \<Longrightarrow> sane_nodes ok g \<Longrightarrow>
     \<exists>g'. build_graph cfg acts goal ps g = Inr g' \<and> sane_nodes ok g'"
proof (induction cfg acts goal ps g rule: build_graph.induct)
  case (1 cfg acts goal ps g)
  obtain h where h: "expand_node cfg acts goal ps g = Inr h" "wf_graph h" "sane_nodes ok h"
    using expand_total [OF "1.prems"] by blast
  show ?case
  proof (cases "todo g \<noteq> [] \<and> int (length (nodes (sg g))) < MaxStates cfg")
    case True
    with "1.IH" [OF True h(1) "1.prems"(1) h(2,3)] h(1) show ?thesis by (subst build_graph.simps) auto
  next
    case False
    then show ?thesis using "1.prems"(3) by (subst build_graph.simps) auto
  qed
qed

lemma goal_edge_simps [simp]:
  "edge_node goal_edge = endNode" "utility goal_edge = 0" "edge_action goal_edge = empty_action"
  by (simp_all add: goal_edge_def)

lemma planner_nonneg:
  assumes "planner_inv cfg acts start goal ps g" and "all_behave ok goal ps acts" and "sane_nodes ok g"
  shows "nonneg_weights True (sg g)"
  unfolding nonneg_weights_def
proof (intro allI ballI)
  fix n e
  assume "e \<in> set (succ_of (sg g) n)"
  with planner_invD(4) [OF assms(1)] consider "e = goal_edge"
    | c where "offers cfg acts goal ps n (memory g n) c (utility e) (edge_action e)"
    unfolding justified_def by blast
  then show "\<exists>w. 0 \<le> w \<and> weight True e = Fin w"
  proof cases
    case 1
    then show ?thesis by (simp add: weight_def float_consts)
  next
    case 2
    then obtain act cs us as i where act: "act \<in> set (acts n)" "act (memory g n) goal ps = Inr (cs, us, as)"
      "i < length us" "us ! i = utility e" unfolding offers_def by blast
    have "ok (memory g n)"
      using planner_invD(1) [OF assms(1)] assms(3) \<open>e \<in> set (succ_of (sg g) n)\<close>
      by (auto simp: wf_graph_def sane_nodes_def)
    with all_behaveD [OF assms(2) act(1)] obtain cs' us' as' where
      "act (memory g n) goal ps = Inr (cs', us', as')" "\<And>u. u \<in> set us' \<Longrightarrow> \<exists>w. 0 \<le> w \<and> u = Fin w"
      by (rule well_behavedE) blast
    then have "\<exists>w. 0 \<le> w \<and> utility e = Fin w" using act(2-4) by (metis Inr_inject nth_mem prod.inject)
    then show ?thesis by (simp add: weight_def)
  qed
qed

section \<open>What a walk through the graph does to the state\<close>

definition plan_step ::
  "PlannerConfig \<Rightarrow> (node \<Rightarrow> next_state list) \<Rightarrow> State \<Rightarrow> profiles \<Rightarrow> State \<Rightarrow> Action \<Rightarrow> State \<Rightarrow> bool" where
  "plan_step cfg acts goal profiles s a s' \<longleftrightarrow>
     (\<exists>n c u. offers cfg acts goal profiles n s c u a \<and> same_state s' c)"

inductive leads ::
  "PlannerConfig \<Rightarrow> (node \<Rightarrow> next_state list) \<Rightarrow> State \<Rightarrow> profiles \<Rightarrow> State \<Rightarrow> Action list \<Rightarrow> State \<Rightarrow> bool"
  for cfg acts goal profiles where
  leads_done: "leads cfg acts goal profiles s [] s"
| leads_step: "plan_step cfg acts goal profiles s a s' \<Longrightarrow> leads cfg acts goal profiles s' as s'' \<Longrightarrow>
    leads cfg acts goal profiles s (a # as) s''"

inductive_simps leads_simps [simp]:
  "leads cfg acts goal profiles s [] s'"
  "leads cfg acts goal profiles s (a # as) s'"

lemma leads_append:
  "leads cfg acts goal ps s as s' \<Longrightarrow> leads cfg acts goal ps s' bs s'' \<Longrightarrow>
     leads cfg acts goal ps s (as @ bs) s''"
  by (induction rule: leads.induct) auto

definition good_end :: "State \<Rightarrow> profiles \<Rightarrow> State \<Rightarrow> bool" where
  "good_end goal profiles s \<longleftrightarrow> IsBetter s goal profiles \<or> s = goal"

lemma final_plan_simps [simp]:
  "final_plan [] = []" "final_plan (as @ bs) = final_plan as @ final_plan bs"
  "final_plan [empty_action] = []"
  by (simp_all add: final_plan_def empty_action_def)

lemma edge_step:
  assumes inv: "planner_inv cfg acts start goal ps g" and e: "e \<in> set (succ_of (sg g) n)" "e \<noteq> goal_edge"
  shows "plan_step cfg acts goal ps (memory g n) (edge_action e) (memory g (edge_node e))"
  using planner_invD(4) [OF inv] e unfolding justified_def plan_step_def by blast

lemma walk_leads:
  assumes inv: "planner_inv cfg acts start goal ps g"
  shows "walk (sg g) u es v \<Longrightarrow> v \<noteq> endNode \<Longrightarrow>
    leads cfg acts goal ps (memory g u) (map edge_action es) (memory g v)"
proof (induction es arbitrary: u)
  case Nil
  then show ?case by simp
next
  case (Cons e es)
  have "succ_of (sg g) endNode = []"
    using planner_invD(1) [OF inv] by (metis wf_graph_def last_in_set)
  then have "edge_node e \<noteq> endNode" using Cons.prems by (cases es) auto
  then have "e \<noteq> goal_edge" by auto
  with Cons show ?case using edge_step [OF inv] by auto
qed

lemma walk_goal:
  assumes inv: "planner_inv cfg acts start goal ps g" and walk: "walk (sg g) startNode es endNode"
  shows "\<exists>as s. as \<noteq> [] \<and> leads cfg acts goal ps start as s \<and> good_end goal ps s \<and>
    final_plan (map edge_action es) = final_plan as"
proof -
  obtain fs e where es: "es = fs @ [e]"
    using walk by (cases es rule: rev_cases) auto
  then obtain m where m: "walk (sg g) startNode fs m" "e \<in> set (succ_of (sg g) m)" "edge_node e = endNode"
    using walk by (auto simp: walk_snoc)
  have ends: "m \<noteq> endNode" using planner_invD(1) [OF inv] m(2) by (auto simp: wf_graph_def)
  have leads: "leads cfg acts goal ps start (map edge_action fs) (memory g m)"
    using walk_leads [OF inv m(1) ends] planner_invD(2) [OF inv] by simp
  show ?thesis
  proof (cases "e = goal_edge")
    case True
    have "IsBetter (memory g m) goal ps \<and> m \<noteq> startNode \<or>
      (\<exists>c. offers cfg acts goal ps m (memory g m) c 0 empty_action \<and> same_state (memory g endNode) c)"
      using planner_invD(4) [OF inv] m(2) True unfolding justified_def by fastforce
    then show ?thesis
    proof
      assume better: "IsBetter (memory g m) goal ps \<and> m \<noteq> startNode"
      then have "fs \<noteq> []" using m(1) by auto
      with leads better True es show ?thesis
        by (intro exI [of _ "map edge_action fs"] exI [of _ "memory g m"]) (simp add: good_end_def)
    next
      assume "\<exists>c. offers cfg acts goal ps m (memory g m) c 0 empty_action \<and> same_state (memory g endNode) c"
      then have "plan_step cfg acts goal ps (memory g m) empty_action goal"
        using planner_invD(3) [OF inv] by (auto simp: plan_step_def)
      then have "leads cfg acts goal ps start (map edge_action fs @ [empty_action]) goal"
        by (intro leads_append [OF leads]) simp
      with True es show ?thesis
        by (intro exI [of _ "map edge_action fs @ [empty_action]"] exI [of _ goal]) (simp add: good_end_def)
    qed
  next
    case False
    have "plan_step cfg acts goal ps (memory g m) (edge_action e) goal"
      using edge_step [OF inv m(2) False] m(3) planner_invD(3) [OF inv] by simp
    then have "leads cfg acts goal ps start (map edge_action es) goal"
      unfolding es map_append by (intro leads_append [OF leads]) simp
    with es show ?thesis
      by (intro exI [of _ "map edge_action es"] exI [of _ goal]) (simp add: good_end_def)
  qed
qed

text \<open>The shortcut adds one way through a new node, from the start and back to it never.\<close>

definition shortcut_of :: "float64 \<Rightarrow> graph_state \<Rightarrow> graph_state \<Rightarrow> bool" where
  "shortcut_of tmp g g' \<longleftrightarrow>
     hasGoal g' \<and> finite_float tmp \<and> 0 \<le> tmp \<and>
     (\<forall>n. succ_of (sg g') n = succ_of (sg g) n @
        (if n = startNode then [\<lparr>edge_node = fresh g, utility = tmp, edge_action = empty_action\<rparr>]
         else if n = fresh g then [goal_edge] else []))"

lemma add_shortcut_spec:
  assumes inv: "planner_inv cfg acts start goal ps g" and path: "2 \<le> length path"
  shows "\<exists>tmp g'. add_shortcut start path g = Inr g' \<and> shortcut_of tmp g g'"
proof -
  note f = fresh_new [OF planner_invD(1) [OF inv]]
  have d: "0 \<le> int (length path) - 2" "length path - 2 < length path" using path by auto
  then show ?thesis
    using f
    by (auto simp: add_shortcut_def nthG_def Let_def shortcut_of_def succ_of_addEdge goal_edge_def
        float_of_int_def float_consts)
qed

lemma shortcut_nonneg:
  assumes "nonneg_weights True (sg g)" and s: "shortcut_of tmp g g'"
  shows "nonneg_weights True (sg g')"
proof -
  obtain w where "tmp = Fin w" "0 \<le> w"
    using s by (cases tmp) (auto simp: shortcut_of_def float_consts finite_float_def)
  with assms show ?thesis
    by (auto simp: nonneg_weights_def shortcut_of_def weight_def float_consts)
qed

lemma edge_target:
  assumes inv: "planner_inv cfg acts start goal ps g" and e: "e \<in> set (succ_of (sg g) n)"
  shows "edge_node e \<noteq> fresh g"
proof -
  have "edge_node e \<in> set (nodes (sg g))"
    using planner_invD(1) [OF inv] e unfolding wf_graph_def by blast
  then show ?thesis using fresh_new [OF planner_invD(1) [OF inv]] by auto
qed

lemma walk_shortcut:
  assumes inv: "planner_inv cfg acts start goal ps g" and s: "shortcut_of tmp g g'"
  shows "walk (sg g') u es v \<Longrightarrow> startNode \<notin> set (walk_nodes u es) \<Longrightarrow> u \<noteq> fresh g \<Longrightarrow> walk (sg g) u es v"
proof (induction es arbitrary: u)
  case Nil
  then show ?case by simp
next
  case (Cons e es)
  then have "u \<noteq> startNode" by (simp add: walk_nodes_def)
  then have e: "e \<in> set (succ_of (sg g) u)" using Cons.prems s by (simp add: shortcut_of_def)
  then have "edge_node e \<noteq> fresh g" by (rule edge_target [OF inv])
  with Cons e show ?case by (simp add: walk_nodes_def)
qed

lemma no_succ_end: "planner_inv cfg acts start goal ps g \<Longrightarrow> succ_of (sg g) endNode = []"
  unfolding planner_inv_def wf_graph_def by (metis last_in_set)

lemma walk_goal_shortcut:
  assumes inv: "planner_inv cfg acts start goal ps g" and s: "shortcut_of tmp g g'"
    and walk: "walk (sg g') startNode es endNode" and simple: "distinct (walk_nodes startNode es)"
  shows "walk (sg g) startNode es endNode \<or> final_plan (map edge_action es) = []"
proof -
  note f = fresh_new [OF planner_invD(1) [OF inv]]
  obtain e fs where es: "es = e # fs" using walk by (cases es) auto
  have e: "e \<in> set (succ_of (sg g) startNode) \<or>
      e = \<lparr>edge_node = fresh g, utility = tmp, edge_action = empty_action\<rparr>"
    using walk s es by (auto simp: shortcut_of_def)
  show ?thesis
  proof (cases "e \<in> set (succ_of (sg g) startNode)")
    case True
    then have "edge_node e \<noteq> fresh g"
      by (rule edge_target [OF inv])
    then have "walk (sg g) (edge_node e) fs endNode"
      by (intro walk_shortcut [OF inv s]) (use walk simple es in \<open>auto simp: walk_nodes_def\<close>)
    with True es show ?thesis by simp
  next
    case False
    with e have e: "e = \<lparr>edge_node = fresh g, utility = tmp, edge_action = empty_action\<rparr>" by blast
    then have "walk (sg g') (fresh g) fs endNode" using walk es by simp
    moreover have "succ_of (sg g') (fresh g) = [goal_edge]" "succ_of (sg g') endNode = []"
      using s f no_succ_end [OF inv] by (auto simp: shortcut_of_def)
    ultimately have "fs = [goal_edge]"
      using f by (cases fs) (auto, metis walk.simps(2) neq_Nil_conv list.set(1) empty_iff)
    with e es show ?thesis by (simp add: final_plan_def empty_action_def)
  qed
qed

text \<open>Opportunistic planning adds edges to the goal only.\<close>

definition opportunistic_edge :: edge where
  "opportunistic_edge =
     \<lparr>edge_node = endNode, utility = 0,
      edge_action = \<lparr>ActionName = opportunisticActionName, Properties = NilProps\<rparr>\<rparr>"

lemma heap_pop_item: "heap_pop q = Inr (x, q') \<Longrightarrow> item_value x \<in> item_value ` set q"
  using pqueue_view_in by (fastforce simp: pq_contents_def item_view_def)

lemma heap_pop_values: "heap_pop q = Inr (x, q') \<Longrightarrow> item_value ` set q' \<subseteq> item_value ` set q"
  using pqueue.pop_set by (fastforce simp: pq_contents_def item_view_def image_iff)

definition closest :: "nat \<Rightarrow> node PriorityQueue \<Rightarrow> node list" where
  "closest k q = map item_value (fst (drain heap_pop k q))"

lemma closest_simps [simp]:
  "closest 0 q = []"
  "closest (Suc k) q = (case heap_pop q of Inl _ \<Rightarrow> [] | Inr (x, q') \<Rightarrow> item_value x # closest k q')"
  by (auto simp: closest_def split: sum.splits prod.splits)

lemma connect_closest_edges:
  "nodes (connect_closest k q h) = nodes h \<and>
   (\<forall>n. succ_of (connect_closest k q h) n =
      succ_of h n @ replicate (count_list (closest k q) n) opportunistic_edge)"
proof (induction k q h rule: connect_closest.induct)
  case (1 q h)
  then show ?case by simp
next
  case (2 i q h)
  show ?case
  proof (cases "q = []")
    case True
    then show ?thesis by (simp add: Len_def heap_pop_def)
  next
    case False
    then obtain item q' where pop: "heap_pop q = Inr (item, q')"
      using pqueue.pop_total [of q] by (auto simp: pq_contents_def)
    with "2.IH" [OF _ pop refl] False show ?thesis
      by (simp add: Len_def succ_of_addEdge opportunistic_edge_def replicate_app_Cons_same)
  qed
qed

lemma closest_values: "set (closest k q) \<subseteq> item_value ` set q"
proof -
  obtain xs r where d: "drain heap_pop k q = (xs, r)" by (cases "drain heap_pop k q")
  from pqueue.drain_mset [OF d] have "set (pq_contents q) = item_view ` set xs \<union> set (pq_contents r)"
    by (metis image_set set_mset_mset set_mset_union)
  then have "item_view ` set xs \<subseteq> set (pq_contents q)" by blast
  then have "fst ` item_view ` set xs \<subseteq> fst ` set (pq_contents q)" by blast
  then show ?thesis by (simp add: closest_def d image_image item_view_def pq_contents_def)
qed

lemma addAdditionalStates_edges:
  obtains picks where "set picks \<subseteq> item_value ` set (distance_queue g ps)"
    "\<And>n. succ_of (addAdditionalStates cfg g ps) n =
       succ_of (sg g) n @ replicate (count_list picks n) opportunistic_edge"
  using connect_closest_edges closest_values that unfolding addAdditionalStates_def by blast

lemma heap_push_values: "item_value ` set (heap_push q it) = insert (item_value it) (item_value ` set q)"
proof -
  have "fst ` set (pq_contents (heap_push q it)) = fst ` insert (item_view it) (set (pq_contents q))"
    by (simp only: pqueue.push_set)
  then show ?thesis by (simp add: pq_contents_def item_view_def image_image)
qed

lemma distance_queue_fold:
  "item_value ` set (fold (\<lambda>n q. if n = endNode \<or> n = startNode then q
       else heap_push q \<lparr>item_value = n, priority = p n, index = 0\<rparr>) ns q) =
   item_value ` set q \<union> (set ns - {endNode, startNode})"
  by (induction ns arbitrary: q) (auto simp: heap_push_values)

lemma distance_queue_values:
  "item_value ` set (distance_queue g ps) = set (nodes (sg g)) - {endNode, startNode}"
  using distance_queue_fold [of "\<lambda>n. Distance (memory g n) (memory g endNode) ps" "nodes (sg g)" "[]"]
  by (simp add: distance_queue_def)

lemma walk_goal_opportunistic:
  assumes inv: "planner_inv cfg acts start goal ps g"
    and walk: "walk (addAdditionalStates cfg g ps) startNode es endNode"
  shows "\<exists>as s. leads cfg acts goal ps start as s \<and> final_plan (map edge_action es) = final_plan as"
proof -
  let ?h = "addAdditionalStates cfg g ps"
  obtain picks where p: "set picks \<subseteq> set (nodes (sg g)) - {endNode, startNode}"
    "\<And>n. succ_of ?h n = succ_of (sg g) n @ replicate (count_list picks n) opportunistic_edge"
    using addAdditionalStates_edges [of g ps cfg] unfolding distance_queue_values by metis
  have target: "edge_node e = endNode \<or> e \<in> set (succ_of (sg g) n)" if "e \<in> set (succ_of ?h n)" for e n
    using that p(2) by (auto simp: opportunistic_edge_def split: if_splits)
  have "succ_of ?h endNode = []"
    using p no_succ_end [OF inv] by (auto simp: count_list_0_iff)
  then have inner: "walk ?h u fs v \<Longrightarrow> v \<noteq> endNode \<Longrightarrow> walk (sg g) u fs v" for u fs v
  proof (induction fs arbitrary: u)
    case Nil
    then show ?case by simp
  next
    case (Cons e fs)
    then have "edge_node e \<noteq> endNode" by (cases fs) auto
    with target Cons show ?case by auto
  qed
  obtain fs e where es: "es = fs @ [e]" using walk by (cases es rule: rev_cases) auto
  then obtain m where m: "walk ?h startNode fs m" "e \<in> set (succ_of ?h m)" "edge_node e = endNode"
    using walk by (auto simp: walk_snoc)
  have "m \<noteq> endNode" using m(2) \<open>succ_of ?h endNode = []\<close> by auto
  then have fs: "walk (sg g) startNode fs m" using inner m(1) by blast
  show ?thesis
  proof (cases "e \<in> set (succ_of (sg g) m)")
    case True
    then have "walk (sg g) startNode es endNode" using fs m(3) es by (auto simp: walk_snoc)
    then show ?thesis using walk_goal [OF inv] by blast
  next
    case False
    then have "e = opportunistic_edge" using m(2) p(2) by (auto split: if_splits)
    then have "final_plan (map edge_action es) = final_plan (map edge_action fs)"
      using es by (simp add: opportunistic_edge_def final_plan_def)
    then show ?thesis using walk_leads [OF inv fs \<open>m \<noteq> endNode\<close>] planner_invD(2) [OF inv] by blast
  qed
qed

lemma opportunistic_nonneg:
  assumes "nonneg_weights True (sg g)"
  shows "nonneg_weights True (addAdditionalStates cfg g ps)"
proof -
  obtain picks where "\<And>n. succ_of (addAdditionalStates cfg g ps) n =
      succ_of (sg g) n @ replicate (count_list picks n) opportunistic_edge"
    using addAdditionalStates_edges [of g ps cfg] by metis
  with assms show ?thesis
    by (auto simp: nonneg_weights_def weight_def opportunistic_edge_def float_consts split: if_splits)
qed

section \<open>Planning\<close>

lemma solve_plan:
  assumes "nonneg_weights True graph"
  obtains (unreachable) "\<not> reaches graph startNode endNode" "plan_in graph g ps = Some (Inr [])"
  | (found) es where "walk graph startNode es endNode" "distinct (walk_nodes startNode es)"
      "plan_in graph g ps = Some (Inr (final_plan (map edge_action es)))"
proof (cases rule: solve_exit [OF assms, of startNode endNode "h_distance (memory g) ps"])
  case 1
  then show thesis by (intro unreachable) (simp_all add: plan_in_def)
next
  case (2 es)
  then show thesis by (intro found [of es]) (simp_all add: plan_in_def)
qed

lemma built_graph:
  assumes "all_behave ok goal ps acts" and "ok start"
  obtains g where "build_graph cfg acts goal ps (init_graph start goal) = Inr g"
    "planner_inv cfg acts start goal ps g" "explored cfg acts goal ps g" "nonneg_weights True (sg g)"
    "todo g = [] \<or> MaxStates cfg \<le> int (length (nodes (sg g)))"
proof -
  obtain g where g: "build_graph cfg acts goal ps (init_graph start goal) = Inr g"
      and sane: "sane_nodes ok g"
    using build_graph_total [OF assms(1) planner_invD(1) [OF planner_inv_init]] assms(2)
    by (fastforce simp: sane_nodes_def)
  moreover have "explored cfg acts goal ps (init_graph start goal)"
    by (auto simp: explored_def)
  ultimately show thesis
    using build_graph_inv [OF g planner_inv_init] planner_nonneg [OF _ assms(1) sane] that by blast
qed

lemma generated_graph:
  assumes g: "build_graph cfg acts goal ps (init_graph start goal) = Inr g"
    and inv: "planner_inv cfg acts start goal ps g"
  shows "generateStateGraph cfg acts start goal ps = Some (Inr g) \<or>
    (\<exists>h tmp. generateStateGraph cfg acts start goal ps = Some (Inr h) \<and> shortcut_of tmp g h \<and>
       IsBetter start goal ps)"
proof (cases "IsBetter start goal ps \<and> length (successors (sg g)) > 0")
  case False
  with g show ?thesis by (auto simp: generateStateGraph_def)
next
  case True
  show ?thesis
  proof (cases rule: solve_exit [OF unit_weights, of "sg g" startNode endNode hEmpty])
    case 1
    with True g show ?thesis by (simp add: generateStateGraph_def)
  next
    case (2 es)
    then have "2 \<le> length (walk_nodes startNode es)"
      by (cases es) (auto simp: walk_nodes_def)
    from add_shortcut_spec [OF inv this] True g 2 show ?thesis
      by (auto simp: generateStateGraph_def walk_nodes_def)
  qed
qed

lemma has_goal_reaches:
  assumes inv: "planner_inv cfg acts start goal ps g" and "hasGoal g"
  shows "reaches (sg g) startNode endNode"
proof -
  obtain n where n: "n \<in> set (nodes (sg g))" "n \<noteq> endNode" "goal_edge \<in> set (succ_of (sg g) n)"
    using planner_invD(6) [OF inv] assms(2) unfolding goal_marked_def by blast
  then have "reaches (sg g) startNode n" using planner_invD(5) [OF inv] by (simp add: rooted_def)
  from reaches_step [OF this n(3)] show ?thesis by simp
qed

definition leads_well ::
  "PlannerConfig \<Rightarrow> (node \<Rightarrow> next_state list) \<Rightarrow> State \<Rightarrow> profiles \<Rightarrow> State \<Rightarrow> Action list \<Rightarrow> bool" where
  \<comment> \<open>the plan is made of the actions of a way from the state to one that is good enough\<close>
  "leads_well cfg acts goal profiles s plan \<longleftrightarrow>
     (\<exists>as s'. as \<noteq> [] \<and> leads cfg acts goal profiles s as s' \<and> good_end goal profiles s' \<and>
        plan = final_plan as)"

lemma plan_with_goal:
  assumes inv: "planner_inv cfg acts start goal ps g" and nn: "nonneg_weights True (sg g)" and "hasGoal g"
  shows "\<exists>plan. plan_in (sg g) g ps = Some (Inr plan) \<and> leads_well cfg acts goal ps start plan"
proof (cases rule: solve_plan [OF nn, of g ps])
  case 1
  with has_goal_reaches [OF inv assms(3)] show ?thesis by blast
next
  case (2 es)
  with walk_goal [OF inv 2(1)] show ?thesis by (auto simp: leads_well_def)
qed

lemma CreatePlan_cases:
  assumes behave: "all_behave ok goal ps acts" and start: "ok start"
    and g: "build_graph cfg acts goal ps (init_graph start goal) = Inr g"
  obtains (planned) plan where "hasGoal g" "\<not> IsBetter start goal ps"
      "CreatePlan cfg acts start goal ps = Some (Inr plan)" "leads_well cfg acts goal ps start plan"
  | (satisfied) plan where "IsBetter start goal ps" "CreatePlan cfg acts start goal ps = Some (Inr plan)"
      "plan = [] \<or> leads_well cfg acts goal ps start plan \<or>
       \<not> hasGoal g \<and> OpportunisticCandidates cfg > 0 \<and>
         (\<exists>as s. leads cfg acts goal ps start as s \<and> plan = final_plan as)"
  | (opportunistic) as s where "\<not> hasGoal g" "\<not> IsBetter start goal ps" "OpportunisticCandidates cfg > 0"
      "CreatePlan cfg acts start goal ps = Some (Inr (final_plan as))" "leads cfg acts goal ps start as s"
  | (no_way) "\<not> hasGoal g" "\<not> IsBetter start goal ps" "OpportunisticCandidates cfg \<le> 0"
      "CreatePlan cfg acts start goal ps = Some (Inr [])"
proof -
  obtain g' where "build_graph cfg acts goal ps (init_graph start goal) = Inr g'"
    and inv': "planner_inv cfg acts start goal ps g'" and nn': "nonneg_weights True (sg g')"
    by (rule built_graph [OF behave start])
  with g have inv: "planner_inv cfg acts start goal ps g" and nn: "nonneg_weights True (sg g)" by simp_all
  have opp: "\<exists>as s. plan_in (addAdditionalStates cfg g ps) g ps = Some (Inr (final_plan as)) \<and>
      leads cfg acts goal ps start as s"
  proof (cases rule: solve_plan [OF opportunistic_nonneg [OF nn], of cfg ps g ps])
    case 1
    then show ?thesis by (intro exI [of _ "[]"]) simp
  next
    case (2 es)
    then show ?thesis using walk_goal_opportunistic [OF inv 2(1)] by metis
  qed
  show thesis
  proof (cases "generateStateGraph cfg acts start goal ps = Some (Inr g)")
    case True
    show thesis
    proof (cases "hasGoal g")
      case goal: True
      with plan_with_goal [OF inv nn goal] True show thesis
        using planned satisfied by (cases "IsBetter start goal ps") (auto simp: CreatePlan_def)
    next
      case False
      show thesis
      proof (cases "OpportunisticCandidates cfg > 0")
        case pos: True
        with True False opp show thesis using satisfied opportunistic
          by (cases "IsBetter start goal ps") (auto simp: CreatePlan_def)
      next
        case none: False
        with True False have "CreatePlan cfg acts start goal ps = Some (Inr [])"
          by (simp add: CreatePlan_def)
        moreover have "OpportunisticCandidates cfg \<le> 0" using none by simp
        ultimately show thesis using False satisfied [of "[]"] no_way
          by (cases "IsBetter start goal ps") blast+
      qed
    qed
  next
    case False
    then obtain h tmp where h: "generateStateGraph cfg acts start goal ps = Some (Inr h)"
      "shortcut_of tmp g h" "IsBetter start goal ps"
      using generated_graph [OF g inv] by blast
    have "hasGoal h" using h(2) by (simp add: shortcut_of_def)
    then have eq: "CreatePlan cfg acts start goal ps = plan_in (sg h) h ps"
      using h(1) by (simp add: CreatePlan_def)
    show thesis
    proof (cases rule: solve_plan [OF shortcut_nonneg [OF nn h(2)], of h ps])
      case 1
      with eq h(3) show thesis by (intro satisfied [of "[]"]) simp_all
    next
      case (2 es)
      from walk_goal_shortcut [OF inv h(2) 2(1,2)] show thesis
      proof
        assume "walk (sg g) startNode es endNode"
        from walk_goal [OF inv this] have "leads_well cfg acts goal ps start (final_plan (map edge_action es))"
          by (auto simp: leads_well_def)
        with 2 eq h(3) show thesis by (intro satisfied) auto
      next
        assume "final_plan (map edge_action es) = []"
        with 2 eq h(3) show thesis by (intro satisfied) auto
      qed
    qed
  qed
qed

lemma leads_actions:
  assumes "leads cfg acts goal ps s as s'" and "\<And>n s c u a. offers cfg acts goal ps n s c u a \<Longrightarrow> P a"
  shows "\<forall>a \<in> set as. P a"
  using assms(1)
proof (induction rule: leads.induct)
  case (leads_step s a s' as s'')
  then show ?case using assms(2) by (auto simp: plan_step_def)
qed simp

lemma planned_actions:
  \<comment> \<open>every action of a plan was proposed by an actuator\<close>
  assumes behave: "all_behave ok goal ps acts" and start: "ok start"
    and plan: "CreatePlan cfg acts start goal ps = Some (Inr plan)"
    and P: "\<And>n s c u a. offers cfg acts goal ps n s c u a \<Longrightarrow> P a"
  shows "\<forall>a \<in> set plan. P a"
proof -
  have final: "\<forall>a \<in> set (final_plan as). P a" if "leads cfg acts goal ps start as s'" for as s'
    using leads_actions [OF that, of P] P by (auto simp: final_plan_def)
  obtain g where "build_graph cfg acts goal ps (init_graph start goal) = Inr g"
    by (rule built_graph [OF behave start])
  then show ?thesis
    by (cases rule: CreatePlan_cases [OF behave start]) (use plan final in \<open>auto simp: leads_well_def\<close>)
qed

section \<open>The size of the graph\<close>

lemma candidate_nodes:
  "add_candidate goal ps cur us as ic g = Inr g' \<Longrightarrow>
     length (nodes (sg g')) \<le> length (nodes (sg g)) + 1"
  by (cases ic)
    (auto simp: add_candidate_def bindG_eq_Inr connect_def new_node_def Let_def split: prod.splits if_splits)

lemma expand_with_nodes:
  assumes "expand_with cfg goal ps cur act g = Inr g'"
  shows "length (nodes (sg g')) \<le> length (nodes (sg g)) + nat (MaxCandidates cfg)"
proof -
  obtain cs us as where "foldG (add_candidate goal ps cur us as)
      (enumerate 0 (take (nat (MaxCandidates cfg)) cs)) g = Inr g'"
    using assms by (auto simp: expand_with_def bindG_eq_Inr)
  from foldG_count [OF this, of "\<lambda>g. length (nodes (sg g))" 1] candidate_nodes
  have "length (nodes (sg g')) \<le> length (nodes (sg g)) + min (length cs) (nat (MaxCandidates cfg))"
    by simp
  then show ?thesis by simp
qed

lemma expand_node_nodes:
  assumes "expand_node cfg acts goal ps g = Inr g'" and "\<And>n. length (acts n) \<le> k"
  shows "length (nodes (sg g')) \<le> length (nodes (sg g)) + k * nat (MaxCandidates cfg)"
proof (cases "todo g")
  case Nil
  with assms show ?thesis by (simp add: expand_node_def)
next
  case (Cons cur rest)
  with assms(1) have "foldG (expand_with cfg goal ps cur) (acts cur) (g\<lparr>todo := rest\<rparr>) = Inr g'"
    by (simp add: expand_node_def)
  from foldG_count [OF this, of "\<lambda>g. length (nodes (sg g))" "nat (MaxCandidates cfg)"] expand_with_nodes
  have "length (nodes (sg g')) \<le> length (nodes (sg g)) + length (acts cur) * nat (MaxCandidates cfg)"
    by simp
  also have "\<dots> \<le> length (nodes (sg g)) + k * nat (MaxCandidates cfg)" using assms(2) by simp
  finally show ?thesis .
qed

lemma build_graph_nodes:
  assumes "build_graph cfg acts goal ps g = Inr g'" and "\<And>n. length (acts n) \<le> k"
    and "length (nodes (sg g)) \<le> m" and "nat (MaxStates cfg) - 1 + k * nat (MaxCandidates cfg) \<le> m"
  shows "length (nodes (sg g')) \<le> m"
  using assms
proof (induction cfg acts goal ps g rule: build_graph.induct)
  case (1 cfg acts goal ps g)
  show ?case
  proof (cases "todo g \<noteq> [] \<and> int (length (nodes (sg g))) < MaxStates cfg")
    case True
    then obtain h where h: "expand_node cfg acts goal ps g = Inr h"
      "build_graph cfg acts goal ps h = Inr g'"
      using "1.prems"(1) by (subst (asm) build_graph.simps) (auto simp: bindG_eq_Inr)
    have "length (nodes (sg h)) \<le> m"
      using expand_node_nodes [OF h(1) "1.prems"(2)] True "1.prems"(4) by linarith
    with "1.IH" [OF True h] "1.prems" show ?thesis by simp
  next
    case False
    then have "build_graph cfg acts goal ps g = Inr g" by (subst build_graph.simps) auto
    with "1.prems" show ?thesis by simp
  qed
qed

section \<open>The candidates of opportunistic planning\<close>

abbreviation goal_distance :: "graph_state \<Rightarrow> profiles \<Rightarrow> node \<Rightarrow> float64" where
  "goal_distance g ps n \<equiv> Distance (memory g n) (memory g endNode) ps"

lemma distance_queue_views:
  assumes "distinct ns"
  shows "mset (pq_contents (fold (\<lambda>n q. if n = endNode \<or> n = startNode then q
       else heap_push q \<lparr>item_value = n, priority = p n, index = 0\<rparr>) ns q)) =
     mset (pq_contents q) + image_mset (\<lambda>n. (n, p n)) (mset_set (set ns - {endNode, startNode}))"
  using assms
proof (induction ns arbitrary: q)
  case Nil
  then show ?case by simp
next
  case (Cons n ns)
  show ?case
  proof (cases "n = endNode \<or> n = startNode")
    case True
    then have "set (n # ns) - {endNode, startNode} = set ns - {endNode, startNode}" by auto
    with Cons True show ?thesis by simp
  next
    case False
    then have "set (n # ns) - {endNode, startNode} = insert n (set ns - {endNode, startNode})" by auto
    with Cons False show ?thesis by (simp add: pqueue.push_mset item_view_def)
  qed
qed

lemma distance_queue_contents:
  "distinct (nodes (sg g)) \<Longrightarrow> mset (pq_contents (distance_queue g ps)) =
     image_mset (\<lambda>n. (n, goal_distance g ps n)) (mset_set (set (nodes (sg g)) - {endNode, startNode}))"
  unfolding distance_queue_def by (subst distance_queue_views) (simp_all add: pq_contents_def)

lemma distance_queue_invar:
  assumes "\<And>n. n \<in> set (nodes (sg g)) \<Longrightarrow> goal_distance g ps n \<noteq> NaN"
  shows "pq_invar (distance_queue g ps)"
proof -
  have "pq_invar (fold (\<lambda>n q. if n = endNode \<or> n = startNode then q
       else heap_push q \<lparr>item_value = n, priority = goal_distance g ps n, index = 0\<rparr>) ns q)"
    if "pq_invar q" "set ns \<subseteq> set (nodes (sg g))" for ns q
    using that
  proof (induction ns arbitrary: q)
    case (Cons n ns)
    then have "goal_distance g ps n \<noteq> NaN" using assms by simp
    with Cons show ?case by (simp add: pqueue.push_invar item_view_def)
  qed simp
  then show ?thesis by (simp add: distance_queue_def)
qed

lemma closest_nodes:
  assumes dist: "distinct (nodes (sg g))" and nan: "\<And>n. n \<in> set (nodes (sg g)) \<Longrightarrow> goal_distance g ps n \<noteq> NaN"
  fixes k :: nat
  defines "N \<equiv> set (nodes (sg g)) - {endNode, startNode}" and "picks \<equiv> closest k (distance_queue g ps)"
  shows "distinct picks" and "set picks \<subseteq> N" and "length picks = min k (card N)"
    and "p \<in> set picks \<Longrightarrow> n \<in> N - set picks \<Longrightarrow> goal_distance g ps p \<le> goal_distance g ps n"
proof -
  obtain xs r where d: "drain heap_pop k (distance_queue g ps) = (xs, r)"
    by (cases "drain heap_pop k (distance_queue g ps)")
  have picks: "picks = map (fst \<circ> item_view) xs"
    by (simp add: picks_def closest_def d item_view_def comp_def)
  have all: "mset (map item_view xs) + mset (pq_contents r) =
      image_mset (\<lambda>n. (n, goal_distance g ps n)) (mset_set N)"
    using pqueue.drain_mset [OF d] distance_queue_contents [OF dist, of ps] by (simp add: N_def)
  from arg_cong [OF all, of "image_mset fst"]
  have fsts: "mset picks + mset (map fst (pq_contents r)) = mset_set N"
    by (simp add: picks multiset.map_comp comp_def)
  have fin: "finite N" by (simp add: N_def)
  obtain ns where ns: "distinct ns" "set ns = N" using finite_distinct_list [OF fin] by blast
  then have "mset (picks @ map fst (pq_contents r)) = mset ns"
    using fsts by (metis mset_append mset_set_set)
  then have "distinct (picks @ map fst (pq_contents r))"
    using ns(1) mset_eq_imp_distinct_iff by blast
  then show "distinct picks" by simp
  have sets: "set picks \<union> fst ` set (pq_contents r) = N"
    using arg_cong [OF fsts, of set_mset] fin by simp
  then show "set picks \<subseteq> N" by blast
  have "length (pq_contents (distance_queue g ps)) = card N"
    using arg_cong [OF distance_queue_contents [OF dist, of ps], of size] by (simp add: N_def)
  then show "length picks = min k (card N)"
    using pqueue.drain_length [OF d] by (simp add: picks)
  have keys: "snd e = goal_distance g ps (fst e)" if "e \<in> set (map item_view xs) \<union> set (pq_contents r)" for e
  proof -
    have "e \<in># image_mset (\<lambda>n. (n, goal_distance g ps n)) (mset_set N)"
      unfolding all [symmetric] using that by auto
    then show ?thesis by auto
  qed
  assume p: "p \<in> set picks" and n: "n \<in> N - set picks"
  obtain x where x: "x \<in> set xs" "p = fst (item_view x)" using p by (auto simp: picks)
  obtain y where y: "y \<in> set (pq_contents r)" "n = fst y" using n sets by auto
  have "snd (item_view x) \<le> snd y"
    using pqueue.drain_sorted [OF distance_queue_invar [OF nan] d] x(1) y(1) by blast
  then show "goal_distance g ps p \<le> goal_distance g ps n"
    using keys [of "item_view x"] keys [of y] x y by simp
qed

section \<open>A small cluster\<close>

text \<open>
  The witnesses plan for one objective: a latency of 20 that has to come down to
  10, and an actuator that always proposes the state with a latency of 5.
\<close>

definition demo_state :: "real \<Rightarrow> State" where
  "demo_state v = zero_State\<lparr>IntentOf := zero_Intent\<lparr>Objectives := Some [(''p99'', Fin v)]\<rparr>\<rparr>"

definition demo_profiles :: profiles where
  "demo_profiles = Some [(''p99'', zero_Profile\<lparr>ProfileKey := ''p99'', TypeOf := Latency, Minimize := True\<rparr>)]"

definition demo_action :: Action where
  "demo_action = \<lparr>ActionName = ''tune'', Properties = NilProps\<rparr>"

definition demo_act :: next_state where
  "demo_act s goal profiles = Inr ([demo_state 5], [1], [demo_action])"

definition demo_cfg :: PlannerConfig where
  "demo_cfg = \<lparr>OpportunisticCandidates = 1, MaxStates = 3, MaxCandidates = 2,
     PluginManagerEndpoint = ''localhost'', PluginManagerPort = 33333\<rparr>"

lemma demo_behaves: "all_behave (\<lambda>_. True) (demo_state 10) demo_profiles (\<lambda>_. [demo_act])"
  by (simp add: all_behave_def well_behaved_def proposal_ok_def demo_act_def float_consts)

lemma demo_better: "IsBetter (demo_state v) (demo_state w) demo_profiles \<longleftrightarrow> v \<le> w"
  by (simp add: IsBetter_def demo_state_def better_objective_def demo_profiles_def profile_of_def mget_def)

lemma demo_equal: "state_deep_equal (demo_state v) (demo_state w) \<longleftrightarrow> v = w"
  by (simp add: state_deep_equal_def intent_deep_equal_def demo_state_def zero_State_def zero_Intent_def
      map_deep_equal_def float_consts)

definition demo_graph :: "real \<Rightarrow> graph_state go" where
  "demo_graph v = build_graph demo_cfg (\<lambda>_. [demo_act]) (demo_state 10) demo_profiles
     (init_graph (demo_state v) (demo_state 10))"

lemma demo_build:
  "demo_graph 20 = Inr (link_new (demo_state 5) startNode 1 demo_action (demo_state 10) demo_profiles
     ((init_graph (demo_state 20) (demo_state 10))\<lparr>todo := []\<rparr>))"
proof -
  let ?g = "(init_graph (demo_state 20) (demo_state 10))\<lparr>todo := []\<rparr>"
  have "expand_node demo_cfg (\<lambda>_. [demo_act]) (demo_state 10) demo_profiles
      (init_graph (demo_state 20) (demo_state 10)) =
    add_candidate (demo_state 10) demo_profiles startNode [1] [demo_action] (0, demo_state 5) ?g"
    by (simp add: expand_node_def expand_with_def demo_act_def demo_cfg_def bindG_def split: sum.splits)
  also have "\<dots> = Inr (link_new (demo_state 5) startNode 1 demo_action (demo_state 10) demo_profiles ?g)"
    by (simp add: add_candidate_def getNodeForState_def demo_equal link_new_def Let_def nthG_def)
  finally have "expand_node demo_cfg (\<lambda>_. [demo_act]) (demo_state 10) demo_profiles
      (init_graph (demo_state 20) (demo_state 10)) =
    Inr (link_new (demo_state 5) startNode 1 demo_action (demo_state 10) demo_profiles ?g)" .
  then show ?thesis
    unfolding demo_graph_def
    by (subst build_graph.simps, simp add: demo_cfg_def, subst build_graph.simps)
      (simp add: link_new_simps startNode_def demo_cfg_def)
qed

section \<open>The properties of the planner\<close>

lemma build_graph_init_inv:
  assumes "build_graph cfg acts goal ps (init_graph start goal) = Inr g"
  shows "planner_inv cfg acts start goal ps g \<and> explored cfg acts goal ps g \<and>
    (todo g = [] \<or> MaxStates cfg \<le> int (length (nodes (sg g))))"
  by (rule build_graph_inv [OF assms planner_inv_init]) (auto simp: explored_def)

text \<open>
  C7. The state graph means what the search takes it to mean: the nodes are distinct, every node but
  the goal is reachable from the start, every edge is either a candidate that an actuator proposed at
  its source or leads to the goal from a state that is good enough, \<open>hasGoal\<close> tells whether such a
  state was found, and every node taken from the queue has all its candidates in the graph; expansion
  ends only when the queue is empty or the limit on states is reached.
\<close>
theorem build_graph_meaning:
  assumes "build_graph cfg acts goal profiles (init_graph start goal) = Inr g"
  shows "planner_inv cfg acts start goal profiles g \<and> explored cfg acts goal profiles g \<and>
    (todo g = [] \<or> MaxStates cfg \<le> int (length (nodes (sg g))))"
  by (rule build_graph_init_inv [OF assms])

theorem build_graph_meaning_witness:
  "case demo_graph 20 of Inl _ \<Rightarrow> False
   | Inr g \<Rightarrow> explored demo_cfg (\<lambda>_. [demo_act]) (demo_state 10) demo_profiles g"
  using build_graph_meaning [OF demo_build [unfolded demo_graph_def]] demo_build by simp





text \<open>
  The limit on states bounds the graph up to one expansion: a node is expanded only below the limit,
  so the graph outgrows it by at most the candidates of one node.
\<close>
theorem build_graph_size:
  assumes "build_graph cfg acts goal profiles (init_graph start goal) = Inr g"
    and "\<And>n. length (acts n) \<le> k"
  shows "length (nodes (sg g)) \<le> max 2 (nat (MaxStates cfg) - 1 + k * nat (MaxCandidates cfg))"
  by (rule build_graph_nodes [OF assms]) auto

theorem build_graph_size_witness:
  "case demo_graph 20 of Inl _ \<Rightarrow> False
   | Inr g \<Rightarrow> length (nodes (sg g)) \<le> 4"
  using build_graph_size [OF demo_build [unfolded demo_graph_def], of 1] demo_build
  by (simp add: demo_cfg_def)

text \<open>
  C8. Opportunistic planning connects the goal with the states closest to it: exactly the configured
  number of nodes (or all there are), none farther from the goal than a node left out.
\<close>
theorem opportunistic_closest:
  assumes "build_graph cfg acts goal profiles (init_graph start goal) = Inr g"
    and "\<forall>n \<in> set (nodes (sg g)). finite_objectives (memory g n)"
  shows "\<exists>picks. distinct picks \<and> set picks \<subseteq> set (nodes (sg g)) - {endNode, startNode} \<and>
    length picks = min (nat (OpportunisticCandidates cfg)) (card (set (nodes (sg g)) - {endNode, startNode})) \<and>
    (\<forall>p \<in> set picks. \<forall>n \<in> set (nodes (sg g)) - {endNode, startNode} - set picks.
       Distance (memory g p) goal profiles \<le> Distance (memory g n) goal profiles) \<and>
    (\<forall>n. succ_of (addAdditionalStates cfg g profiles) n =
       succ_of (sg g) n @ (if n \<in> set picks then [opportunistic_edge] else []))"
proof -
  have inv: "planner_inv cfg acts start goal profiles g" using build_graph_init_inv [OF assms(1)] by blast
  have dist: "distinct (nodes (sg g))" and "endNode \<in> set (nodes (sg g))"
    using planner_invD(1) [OF inv] by (simp_all add: wf_graph_def)
  then have "finite_float (goal_distance g profiles n)" if "n \<in> set (nodes (sg g))" for n
    using assms(2) that by (intro Distance_finite) auto
  then have nan: "goal_distance g profiles n \<noteq> NaN" if "n \<in> set (nodes (sg g))" for n
    using that finite_not_nan by blast
  let ?picks = "closest (nat (OpportunisticCandidates cfg)) (distance_queue g profiles)"
  note c = closest_nodes [OF dist nan, where k = "nat (OpportunisticCandidates cfg)"]
  have "succ_of (addAdditionalStates cfg g profiles) n =
       succ_of (sg g) n @ (if n \<in> set ?picks then [opportunistic_edge] else [])" for n
    using connect_closest_edges c(1) by (auto simp: addAdditionalStates_def count_distinct)
  then show ?thesis using c planner_invD(3) [OF inv] by (intro exI [of _ ?picks]) auto
qed

theorem opportunistic_closest_witness:
  "case demo_graph 20 of Inl _ \<Rightarrow> False
   | Inr g \<Rightarrow> \<exists>picks. distinct picks \<and> length picks = 1 \<and>
      (\<forall>n. succ_of (addAdditionalStates demo_cfg g demo_profiles) n =
         succ_of (sg g) n @ (if n \<in> set picks then [opportunistic_edge] else []))"
proof -
  let ?g = "link_new (demo_state 5) startNode 1 demo_action (demo_state 10) demo_profiles
     ((init_graph (demo_state 20) (demo_state 10))\<lparr>todo := []\<rparr>)"
  have nodes: "set (nodes (sg ?g)) = {startNode, endNode, 3}"
    by (auto simp: link_new_simps startNode_def)
  then have "set (nodes (sg ?g)) - {endNode, startNode} = {3}"
    by (auto simp: startNode_def endNode_def)
  moreover have "\<forall>n \<in> set (nodes (sg ?g)). finite_objectives (memory ?g n)"
    by (simp add: link_new_simps startNode_def endNode_def init_graph_def finite_objectives_def demo_state_def)
  ultimately obtain picks where "distinct picks"
    "length picks = min (nat (OpportunisticCandidates demo_cfg)) (card {3 :: node})"
    "\<forall>n. succ_of (addAdditionalStates demo_cfg ?g demo_profiles) n =
       succ_of (sg ?g) n @ (if n \<in> set picks then [opportunistic_edge] else [])"
    using opportunistic_closest [OF demo_build [unfolded demo_graph_def]] by auto
  moreover have "OpportunisticCandidates demo_cfg = 1" by (simp add: demo_cfg_def)
  ultimately show ?thesis unfolding demo_build sum.case by (intro exI [of _ picks]) simp
qed

text \<open>
  The shortcut is priced by the depth of the graph: with the empty heuristic and unit costs, the
  path \<open>generateStateGraph\<close> measures has the fewest edges of all walks to the goal.
\<close>
theorem shortest_path_fewest_edges:
  "\<exists>path actions. solve graph start goal hEmpty False = Some (Inr (path, actions)) \<and>
     (\<forall>es. walk graph start es goal \<longrightarrow> path \<noteq> [] \<and> length path \<le> length (walk_nodes start es))"
proof (cases rule: solve_exit [OF unit_weights, of graph start goal hEmpty])
  case 1
  then show ?thesis by (auto simp: reaches_def)
next
  case (2 es)
  have "admissible graph goal hEmpty False"
    using zero_admissible [OF unit_weights] by (simp add: hEmpty_def)
  with 2 show ?thesis by (auto simp: unit_cost walk_nodes_def)
qed

theorem shortest_path_fewest_edges_witness:
  "\<exists>path actions. solve diamond 1 4 hEmpty False = Some (Inr (path, actions)) \<and> length path \<le> 2"
proof -
  have "walk diamond 1 [\<lparr>edge_node = 4, utility = 5, edge_action = zero_Action\<rparr>] 4"
    by (simp add: diamond_succ)
  then show ?thesis
    using shortest_path_fewest_edges [of diamond 1 4] by (fastforce simp: walk_nodes_def)
qed

definition overestimated :: "node \<Rightarrow> State" where
  "overestimated n = (if n = 3 then demo_state 20 else if n = 4 then demo_state 10 else demo_state 11)"

lemma demo_distance: "w \<le> v \<Longrightarrow> Distance (demo_state v) (demo_state w) demo_profiles = Fin (v - w)"
  by (auto simp: Distance_def squares_sum_def demo_better Let_def)
    (auto simp: demo_state_def mget_def float_consts)


end
