(* ===== verification/Rm_Pod.thy ===== *)
theory Rm_Pod
  imports Scale_Out
begin

text \<open>
  \<^verbatim>\<open>pkg/planner/actuators/scaling/rm_pod.go\<close>: the actuator that removes single
  pods.  It proposes one follow-up state for each running pod of the workload and
  shares the knowledge base entries of the scale out actuator.
\<close>

record RmPodConfig = PluginConfig +
  MinPods :: int
  rm_LookBack :: int

section \<open>Follow-up states\<close>

fun rm_objectives ::
  "RmPodConfig \<Rightarrow> ScaleOutEffect knowledge \<Rightarrow> State \<Rightarrow> string \<Rightarrow> profiles \<Rightarrow> string list \<Rightarrow> State \<times> float64 \<Rightarrow>
   (State \<times> float64) option go" where
  \<comment> \<open>the loop over the objectives; None is the early return\<close>
  "rm_objectives cfg effects state tput profiles [] acc = Inr (Some acc)"
| "rm_objectives cfg effects state tput profiles (k # ks) (newState, util) =
     (if is_latency profiles k then
        (case effects (IntentKey (IntentOf state)) scalingGroupName k (rm_LookBack cfg) of
           None \<Rightarrow> Inr None
         | Some res \<Rightarrow>
             bindG (set_objective k (predicted_latency res state tput newState) newState) (\<lambda>newState.
               rm_objectives cfg effects state tput profiles ks (newState, util)))
      else if is_availability profiles k then
        bindG (set_objective k (PodSetAvailability (CurrentPods newState)) newState) (\<lambda>newState.
          rm_objectives cfg effects state tput profiles ks (newState, mget 0 (objectives newState) k))
      else rm_objectives cfg effects state tput profiles ks (newState, util))"

definition without_pod :: "State \<Rightarrow> string \<Rightarrow> State" where
  "without_pod state podName =
     (let newState = DeepCopy state in newState\<lparr>CurrentPods := mdelete (CurrentPods newState) podName\<rparr>)"

definition rm_action :: "string \<Rightarrow> Action" where
  "rm_action podName =
     \<lparr>ActionName = rmPodActionName, Properties = StrProps (Some [(''name'', podName)])\<rparr>"

definition removable :: "string \<times> PodState \<Rightarrow> bool" where
  "removable = (\<lambda>(podName, podState). \<not> (has_substring podName ''dummy@'' \<or> Phase podState \<noteq> ''Running''))"

fun rm_loop ::
  "RmPodConfig \<Rightarrow> ScaleOutEffect knowledge \<Rightarrow> State \<Rightarrow> State \<Rightarrow> string \<Rightarrow> profiles \<Rightarrow>
   (string \<times> PodState) list \<Rightarrow> proposal \<Rightarrow> proposal go" where
  \<comment> \<open>the loop over the pods\<close>
  "rm_loop cfg effects state goal tput profiles [] acc = Inr acc"
| "rm_loop cfg effects state goal tput profiles (pod # pods) (states, utilities, actions) =
     (if \<not> removable pod then rm_loop cfg effects state goal tput profiles pods (states, utilities, actions)
      else
        bindG (rm_objectives cfg effects state tput profiles (mkeys (objectives state))
                 (without_pod state (fst pod), 1)) (\<lambda>r.
          case r of
            None \<Rightarrow> Inr (states, utilities, actions)
          | Some (newState, util) \<Rightarrow>
              rm_loop cfg effects state goal tput profiles pods
                (if MinPods cfg \<le> int (mlen (CurrentPods newState))
                 then (states @ [newState], utilities @ [util * Priority (IntentOf goal)],
                       actions @ [rm_action (fst pod)])
                 else (states, utilities, actions))))"

definition rmPod_NextState :: "RmPodConfig \<Rightarrow> ScaleOutEffect knowledge \<Rightarrow> next_state" where
  "rmPod_NextState cfg effects state goal profiles =
     (let throughputObjective = throughput_objective state profiles in
      if length throughputObjective = 0 then Inr no_proposal
      else rm_loop cfg effects state goal throughputObjective profiles (entries (CurrentPods state)) no_proposal)"

section \<open>Performing a plan\<close>

definition delete_pod :: "string \<Rightarrow> Action \<Rightarrow> cluster \<Rightarrow> cluster go" where
  \<comment> \<open>one action of the plan\<close>
  "delete_pod namespace item c =
     (if ActionName item = rmPodActionName then
        (case Properties item of
           StrProps m \<Rightarrow>
             bindG (retry_on_conflict DefaultRetry (\<lambda>c. Inr (DeletePod namespace (mget '''' m ''name'') c)) c)
               (\<lambda>(c', retryErr). Inr c')
         | _ \<Rightarrow> Inl TypeAssertion)
      else Inr c)"

definition rmPod_Perform :: "State \<Rightarrow> Action list \<Rightarrow> cluster \<Rightarrow> cluster go" where
  "rmPod_Perform state plan c =
     (let tmp = split_on (CHR ''/'') (TargetKey (IntentOf state)) in
      bindG (nthG tmp 0) (\<lambda>namespace. foldG (delete_pod namespace) plan c))"

section \<open>What the proposals are\<close>

lemma without_pod_simps [simp]:
  "IntentOf (without_pod s n) = IntentOf (DeepCopy s)" "CurrentPods (without_pod s n) = mdelete (CurrentPods (DeepCopy s)) n"
  "writable (without_pod s n)"
  using writable_DeepCopy [of s] by (simp_all add: without_pod_def Let_def writable_def del: writable_DeepCopy)

definition unit_interval :: "float64 \<Rightarrow> bool" where
  "unit_interval x \<longleftrightarrow> (\<exists>a. x = Fin a \<and> 0 \<le> a \<and> a \<le> 1)"

lemma rm_objectives_total:
  assumes "writable ns"
  shows "\<exists>r. rm_objectives cfg effects state tput ps ks (ns, util) = Inr r \<and>
    (\<forall>ns' util'. r = Some (ns', util') \<longrightarrow> CurrentPods ns' = CurrentPods ns \<and>
       (util' = util \<or> util' = PodSetAvailability (CurrentPods ns)))"
  using assms
proof (induction ks arbitrary: ns util)
  case (Cons k ks)
  have set: "\<exists>s'. set_objective k v ns = Inr s' \<and> writable s' \<and> CurrentPods s' = CurrentPods ns \<and>
    mget 0 (objectives s') k = v" for v
    using set_objective_writable [OF Cons.prems, of k v] by (auto simp: mget_def)
  then obtain f where f: "\<And>v. set_objective k v ns = Inr (f v)" "\<And>v. writable (f v)"
    "\<And>v. CurrentPods (f v) = CurrentPods ns" "\<And>v. mget 0 (objectives (f v)) k = v" by metis
  have step: "\<exists>r. rm_objectives cfg effects state tput ps ks (f v, u) = Inr r \<and>
    (\<forall>ns' util'. r = Some (ns', util') \<longrightarrow> CurrentPods ns' = CurrentPods ns \<and>
       (util' = util \<or> util' = PodSetAvailability (CurrentPods ns)))"
    if "u = util \<or> u = PodSetAvailability (CurrentPods ns)" for v u
    using Cons.IH [OF f(2), of v u] f(3) that by auto
  show ?case
    using step [of util] step [of "PodSetAvailability (CurrentPods ns)" "PodSetAvailability (CurrentPods ns)"]
      Cons.IH [OF Cons.prems, of util] f(1,4)
    by (cases "effects (IntentKey (IntentOf state)) scalingGroupName k (rm_LookBack cfg)") simp_all
qed simp

definition rm_candidate :: "RmPodConfig \<Rightarrow> State \<Rightarrow> State \<Rightarrow> State \<Rightarrow> float64 \<Rightarrow> Action \<Rightarrow> bool" where
  "rm_candidate cfg state goal c u a \<longleftrightarrow>
     (\<exists>name v. (name, v) \<in> set (entries (CurrentPods state)) \<and> removable (name, v) \<and>
        CurrentPods c = mdelete (copy_map (CurrentPods state)) name \<and> a = rm_action name \<and>
        MinPods cfg \<le> int (mlen (CurrentPods c)) \<and>
        (u = 1 * Priority (IntentOf goal) \<or> u = PodSetAvailability (CurrentPods c) * Priority (IntentOf goal)))"

lemma rm_loop_spec:
  assumes "set pods \<subseteq> set (entries (CurrentPods state))" and "each_proposal (rm_candidate cfg state goal) p"
  shows "\<exists>q. rm_loop cfg effects state goal tput ps pods p = Inr q \<and> each_proposal (rm_candidate cfg state goal) q"
  using assms
proof (induction pods arbitrary: p)
  case (Cons pod pods)
  obtain states utils acts where p: "p = (states, utils, acts)" by (cases p)
  obtain name v where pod: "pod = (name, v)" by (cases pod)
  have sub: "set pods \<subseteq> set (entries (CurrentPods state))" using Cons.prems(1) by simp
  show ?case
  proof (cases "removable pod")
    case False
    with Cons.IH [OF sub Cons.prems(2)] p show ?thesis by simp
  next
    case True
    obtain r where r: "rm_objectives cfg effects state tput ps (mkeys (objectives state)) (without_pod state name, 1) = Inr r"
      "\<And>ns' util'. r = Some (ns', util') \<Longrightarrow> CurrentPods ns' = mdelete (CurrentPods (DeepCopy state)) name \<and>
       (util' = 1 \<or> util' = PodSetAvailability (mdelete (CurrentPods (DeepCopy state)) name))"
      using rm_objectives_total [of "without_pod state name" cfg effects state tput ps "mkeys (objectives state)" 1]
      by auto
    show ?thesis
    proof (cases r)
      case None
      with r(1) True p pod Cons.prems(2) show ?thesis by simp
    next
      case (Some nu)
      obtain ns u where nu: "nu = (ns, u)" by (cases nu)
      define q where "q = (if MinPods cfg \<le> int (mlen (CurrentPods ns))
        then (states @ [ns], utils @ [u * Priority (IntentOf goal)], acts @ [rm_action name])
        else (states, utils, acts))"
      have ns: "CurrentPods ns = mdelete (copy_map (CurrentPods state)) name"
        "u = 1 \<or> u = PodSetAvailability (mdelete (copy_map (CurrentPods state)) name)"
        using r(2) [of ns u] Some nu by simp_all
      have "rm_candidate cfg state goal ns (u * Priority (IntentOf goal)) (rm_action name)"
        if "MinPods cfg \<le> int (mlen (CurrentPods ns))"
        unfolding rm_candidate_def using ns that Cons.prems(1) True pod
        by (intro exI [of _ name] exI [of _ v]) auto
      then have "each_proposal (rm_candidate cfg state goal) q"
        using each_proposal_snoc Cons.prems(2) p by (simp add: q_def)
      from Cons.IH [OF sub this]
      have "\<exists>q'. rm_loop cfg effects state goal tput ps pods q = Inr q' \<and>
        each_proposal (rm_candidate cfg state goal) q'" .
      moreover have "rm_loop cfg effects state goal tput ps (pod # pods) p =
          rm_loop cfg effects state goal tput ps pods q"
        using r(1) Some nu True p pod by (simp add: q_def)
      ultimately show ?thesis by (simp only:)
    qed
  qed
qed (use assms in simp)

lemma rmPod_NextState_spec:
  "\<exists>p. rmPod_NextState cfg effects state goal ps = Inr p \<and> each_proposal (rm_candidate cfg state goal) p"
proof (cases "length (throughput_objective state ps) = 0")
  case True
  then show ?thesis by (intro exI [of _ no_proposal]) (simp add: rmPod_NextState_def)
next
  case False
  then show ?thesis using rm_loop_spec [of "entries (CurrentPods state)" state cfg goal no_proposal]
    by (simp add: rmPod_NextState_def Let_def)
qed

section \<open>The properties of the actuator\<close>

lemma removed_entries: "set (entries (mdelete (copy_map m) k)) \<subseteq> set (entries m)"
  by (cases m) (auto simp: mdelete_def copy_map_def AList.delete_eq)

lemma rm_candidate_ok:
  assumes "rm_candidate cfg state goal c u a" and ok: "pods_ok state" and prio: "positive_priority goal ps"
  shows "pods_ok c \<and> finite_float u \<and> 0 \<le> u"
proof -
  obtain name v where nv: "(name, v) \<in> set (entries (CurrentPods state))" "removable (name, v)"
    "CurrentPods c = mdelete (copy_map (CurrentPods state)) name"
    "u = 1 * Priority (IntentOf goal) \<or> u = PodSetAvailability (CurrentPods c) * Priority (IntentOf goal)"
    using assms(1) unfolding rm_candidate_def by blast
  from nv(1,2) ok have "\<forall>(_, v) \<in> set (entries (CurrentPods state)). availability_ok v"
    by (auto simp: pods_ok_def removable_def)
  then have all: "\<forall>(_, v) \<in> set (entries (CurrentPods c)). availability_ok v"
    using removed_entries nv(3) by fastforce
  obtain p where p: "Priority (IntentOf goal) = Fin p" "0 < p" using prio by (auto simp: positive_priority_def)
  obtain a where "PodSetAvailability (CurrentPods c) = Fin a" "0 \<le> a" "a \<le> 1"
    using set_availability_ok [OF all] by blast
  with nv(4) p have "finite_float u \<and> 0 \<le> u" by (auto simp: float_consts)
  with all show ?thesis by (simp add: pods_ok_def)
qed

lemma rm_proposal_ok:
  assumes "pods_ok state" and "positive_priority goal ps"
  shows "proposal_ok pods_ok (rmPod_NextState cfg effects state goal ps)"
proof -
  obtain p where p: "rmPod_NextState cfg effects state goal ps = Inr p"
    "each_proposal (rm_candidate cfg state goal) p" using rmPod_NextState_spec by blast
  have "each_proposal (\<lambda>c u a. pods_ok c \<and> finite_float u \<and> 0 \<le> u) p"
    using p(2) by (rule each_proposal_mono) (rule rm_candidate_ok [OF _ assms])
  with p(1) show ?thesis by (simp add: each_proposal_ok)
qed

interpretation rm_pod: actuator "rmPod_NextState cfg effects" pods_ok positive_priority for cfg effects
  by (rule actuatorI) (rule rm_proposal_ok)

definition str_properties :: "string \<Rightarrow> Action \<Rightarrow> bool" where
  "str_properties name a \<longleftrightarrow> (ActionName a = name \<longrightarrow> (\<exists>m. Properties a = StrProps m))"

definition removed_pods :: "string \<Rightarrow> Action list \<Rightarrow> (string \<times> string) list" where
  \<comment> \<open>the pods a plan asks to remove\<close>
  "removed_pods namespace plan =
     map (\<lambda>a. (namespace, case Properties a of StrProps m \<Rightarrow> mget '''' m ''name'' | _ \<Rightarrow> ''''))
       (filter (\<lambda>a. ActionName a = rmPodActionName) plan)"

lemma rmPod_Perform_quiet:
  assumes "\<forall>a \<in> set plan. str_properties rmPodActionName a" and "outcomes c = []"
  shows "\<exists>c'. foldG (delete_pod namespace) plan c = Inr c' \<and> workloads c' = workloads c \<and>
    deleted_pods c' = deleted_pods c @ removed_pods namespace plan"
  using assms
proof (induction plan arbitrary: c)
  case Nil
  then show ?case by (simp add: removed_pods_def)
next
  case (Cons a plan)
  show ?case
  proof (cases "ActionName a = rmPodActionName")
    case False
    with Cons show ?thesis by (simp add: delete_pod_def removed_pods_def)
  next
    case True
    then obtain m where m: "Properties a = StrProps m" using Cons.prems(1) by (auto simp: str_properties_def)
    let ?c = "c\<lparr>deleted_pods := deleted_pods c @ [(namespace, mget '''' m ''name'')]\<rparr>"
    have "delete_pod namespace a c = Inr ?c"
      using True m DeletePod_quiet [OF Cons.prems(2)]
      by (simp add: delete_pod_def DefaultRetry_def numeral_eq_Suc)
    with Cons.IH [of ?c] Cons.prems True m show ?thesis by (auto simp: removed_pods_def)
  qed
qed

text \<open>
  C29. Removing pods is safe: \<open>NextState\<close> does not panic, each candidate is the state without one of its
  running pods, named by the action and never one of the hypothetical pods of a scale out, and no
  candidate has fewer pods than the configured minimum; \<open>Perform\<close> deletes exactly the pods named by
  the plan's actions, in the namespace of the workload.
\<close>
theorem rm_pod_candidates:
  "(\<exists>cs us as. rmPod_NextState cfg effects state goal profiles = Inr (cs, us, as) \<and>
      length us = length cs \<and> length as = length cs \<and>
      (\<forall>i < length cs. \<exists>name pod. (name, pod) \<in> set (entries (CurrentPods state)) \<and>
         Phase pod = ''Running'' \<and> \<not> has_substring name ''dummy@'' \<and>
         mlookup (CurrentPods (cs ! i)) = (mlookup (CurrentPods state))(name := None) \<and>
         as ! i = rm_action name \<and> MinPods cfg \<le> int (mlen (CurrentPods (cs ! i))))) \<and>
   ((\<forall>a \<in> set plan. str_properties rmPodActionName a) \<and> outcomes c = [] \<longrightarrow>
      (\<exists>c'. rmPod_Perform state plan c = Inr c' \<and> workloads c' = workloads c \<and>
         deleted_pods c' = deleted_pods c @
           removed_pods (hd (split_on (CHR ''/'') (TargetKey (IntentOf state)))) plan))"
proof (intro conjI impI)
  obtain cs us as where p: "rmPod_NextState cfg effects state goal profiles = Inr (cs, us, as)"
    "each_proposal (rm_candidate cfg state goal) (cs, us, as)"
    using rmPod_NextState_spec [of cfg effects state goal profiles] by auto
  have "\<exists>name pod. (name, pod) \<in> set (entries (CurrentPods state)) \<and>
         Phase pod = ''Running'' \<and> \<not> has_substring name ''dummy@'' \<and>
         mlookup (CurrentPods (cs ! i)) = (mlookup (CurrentPods state))(name := None) \<and>
         as ! i = rm_action name \<and> MinPods cfg \<le> int (mlen (CurrentPods (cs ! i)))"
    if "i < length cs" for i
    using each_proposal_nth [OF p(2) that] unfolding rm_candidate_def removable_def
    by (fastforce simp: fun_eq_iff mlookup_mdelete)
  with p show "\<exists>cs us as. rmPod_NextState cfg effects state goal profiles = Inr (cs, us, as) \<and>
      length us = length cs \<and> length as = length cs \<and>
      (\<forall>i < length cs. \<exists>name pod. (name, pod) \<in> set (entries (CurrentPods state)) \<and>
         Phase pod = ''Running'' \<and> \<not> has_substring name ''dummy@'' \<and>
         mlookup (CurrentPods (cs ! i)) = (mlookup (CurrentPods state))(name := None) \<and>
         as ! i = rm_action name \<and> MinPods cfg \<le> int (mlen (CurrentPods (cs ! i))))"
    by (simp add: each_proposal_def)
next
  assume "(\<forall>a \<in> set plan. str_properties rmPodActionName a) \<and> outcomes c = []"
  then show "\<exists>c'. rmPod_Perform state plan c = Inr c' \<and> workloads c' = workloads c \<and>
         deleted_pods c' = deleted_pods c @
           removed_pods (hd (split_on (CHR ''/'') (TargetKey (IntentOf state)))) plan"
    using rmPod_Perform_quiet [of plan c "hd (split_on (CHR ''/'') (TargetKey (IntentOf state)))"]
    by (cases "split_on (CHR ''/'') (TargetKey (IntentOf state))") (simp_all add: rmPod_Perform_def nthG_def)
qed

theorem rm_pod_candidates_witness:
  "\<exists>c. rmPod_Perform (busy_state 20) [rm_action ''a''] (busy_cluster\<lparr>outcomes := []\<rparr>) = Inr c \<and>
     deleted_pods c = [(''ns'', ''a'')]"
proof -
  have plan: "\<forall>a \<in> set [rm_action ''a'']. str_properties rmPodActionName a"
    by (simp add: str_properties_def rm_action_def)
  have "removed_pods (hd (split_on (CHR ''/'') (TargetKey (IntentOf (busy_state 20))))) [rm_action ''a''] = [(''ns'', ''a'')]"
    by (simp add: removed_pods_def rm_action_def busy_state_def mget_def)
  then show ?thesis
    using rm_pod_candidates [of "\<lparr>PluginEndpoint = ''rm'', PluginPort = 33335, ManagerEndpoint = ''ido'',
        ManagerPort = 33333, Mongo = '''', MinPods = 1, rm_LookBack = 20\<rparr>" "\<lambda>_ _ _ _. Some flat_effect"
        "busy_state 20" "busy_state 10" busy_profiles "[rm_action ''a'']" "busy_cluster\<lparr>outcomes := []\<rparr>"] plan
    by (auto simp: busy_cluster_def)
qed

end
