(* ===== verification/Rdt.thy ===== *)
theory Rdt
  imports Scale_Out
begin

text \<open>
  \<^verbatim>\<open>pkg/planner/actuators/platform/rdt.go\<close>: the actuator that picks one of the
  configured Intel RDT options for a workload.  The prediction service is the
  argument \<open>post\<close>: what its endpoint answers to a request.
\<close>

section \<open>Data\<close>

definition rdtActionName :: string where
  "rdtActionName = ''configureRDT''"

definition rdtGroupName :: string where
  "rdtGroupName = ''rdt''"

record RdtConfig = PluginConfig +
  rdt_Interpreter :: string
  rdt_Analytics :: string
  rdt_Prediction :: string
  Options :: "string list"
  AnnotationName :: string

record RdtRequest =
  rdt_Name :: string
  rdt_Target :: string
  rdt_CPU :: float64
  rdt_Option :: string
  rdt_Replicas :: int

datatype prediction_reply = NoReply | ReadError | NotDecoded | Val float64

definition rdt_doQuery :: "(RdtRequest \<Rightarrow> prediction_reply) \<Rightarrow> RdtRequest \<Rightarrow> float64" where
  "rdt_doQuery post body =
     (case post body of
        NoReply \<Rightarrow> - 1
      | ReadError \<Rightarrow> - 1
      | NotDecoded \<Rightarrow> - 1
      | Val v \<Rightarrow> v)"

section \<open>Follow-up states\<close>

fun rdt_getResources :: "(string \<times> int64) list \<Rightarrow> int64 \<Rightarrow> int \<Rightarrow> int64 go" where
  \<comment> \<open>the loop over the resources, with the variables \<open>cpu\<close> and \<open>index\<close>\<close>
  "rdt_getResources [] cpu idx = Inr cpu"
| "rdt_getResources ((key, value) # kvs) cpu idx =
     (let name = split_on (CHR ''_'') key in
      case atoi (name ! 0) of
        None \<Rightarrow> Inr 0
      | Some containerIdx \<Rightarrow>
          bindG (nthG name 1) (\<lambda>n1.
            if n1 = ''cpu'' \<and> containerIdx > idx then
              bindG (nthG name 2) (\<lambda>n2.
                if n2 = ''limits'' then rdt_getResources kvs value containerIdx
                else rdt_getResources kvs cpu idx)
            else rdt_getResources kvs cpu idx))"

definition rdt_request :: "State \<Rightarrow> string \<Rightarrow> string \<Rightarrow> int64 \<Rightarrow> RdtRequest" where
  \<comment> \<open>the quotient is one of integers: the constant has the type of the variable\<close>
  "rdt_request newState k option cpu =
     \<lparr>rdt_Name = IntentKey (IntentOf newState), rdt_Target = k,
      rdt_CPU = float_of_int64 (word_of_int (sint cpu sdiv 1000)), rdt_Option = option,
      rdt_Replicas = int (mlen (CurrentPods newState))\<rparr>"

record rdt_sums =
  tempSum :: float64
  tempPredSum :: float64
  is_candidate :: bool
  was_found :: bool

fun rdt_objectives ::
  "(RdtRequest \<Rightarrow> prediction_reply) \<Rightarrow> State \<Rightarrow> State \<Rightarrow> profiles \<Rightarrow> string \<Rightarrow> string list \<Rightarrow> State \<times> rdt_sums \<Rightarrow>
   (State \<times> rdt_sums) go" where
  \<comment> \<open>the loop over the objectives of one option\<close>
  "rdt_objectives post start goal profiles option [] (newState, s) = Inr (newState, s)"
| "rdt_objectives post start goal profiles option (k # ks) (newState, s) =
     (if \<not> is_latency profiles k then rdt_objectives post start goal profiles option ks (newState, s)
      else bindG (rdt_getResources (entries (Resources start)) 0 (- 1)) (\<lambda>cpu.
        let predictedValue = rdt_doQuery post (rdt_request newState k option cpu) in
        if feq predictedValue (- 1) then Inr (newState, s\<lparr>was_found := False\<rparr>)
        else bindG (set_objective k predictedValue newState) (\<lambda>newState.
          rdt_objectives post start goal profiles option ks
            (newState, s\<lparr>tempPredSum := tempPredSum s + predictedValue,
               tempSum := tempSum s + mget 0 (objectives goal) k,
               is_candidate := is_candidate s \<or> mget 0 (objectives newState) k \<le> mget 0 (objectives goal) k\<rparr>))))"

definition rdt_action :: "string \<Rightarrow> Action" where
  "rdt_action option = \<lparr>ActionName = rdtActionName, Properties = StrProps (Some [(''option'', option)])\<rparr>"

definition mark_visited :: "State \<Rightarrow> State go" where
  "mark_visited newState =
     (if mlen (Annotations newState) > 0
      then bindG (mput (Annotations newState) ''rdtVisited'' '''') (\<lambda>m. Inr (newState\<lparr>Annotations := m\<rparr>))
      else Inr (newState\<lparr>Annotations := Some [(''rdtVisited'', '''')]\<rparr>))"

definition rdt_utility :: "State \<Rightarrow> rdt_sums \<Rightarrow> float64" where
  "rdt_utility goal s =
     (if tempPredSum s < tempSum s then tempPredSum s / tempSum s * Priority (IntentOf goal)
      else tempPredSum s / tempSum s * 1 / Priority (IntentOf goal))"

fun rdt_options ::
  "(RdtRequest \<Rightarrow> prediction_reply) \<Rightarrow> State \<Rightarrow> State \<Rightarrow> profiles \<Rightarrow> string \<Rightarrow> string list \<Rightarrow> proposal \<Rightarrow> proposal go" where
  \<comment> \<open>the loop over the options\<close>
  "rdt_options post start goal profiles currentOption [] found_so_far = Inr found_so_far"
| "rdt_options post start goal profiles currentOption (option # options) (candidates, utilities, actions) =
     bindG (rdt_objectives post start goal profiles option (mkeys (objectives (DeepCopy start)))
        (DeepCopy start, \<lparr>tempSum = 0, tempPredSum = 0, is_candidate = False, was_found = True\<rparr>)) (\<lambda>(newState, s).
       if option = ''None'' \<and> IsBetter newState goal profiles \<and> was_found s then
         (if currentOption \<noteq> ''None'' then Inr ([newState], [0], [rdt_action ''None'']) else Inr no_proposal)
       else if is_candidate s \<and> was_found s then
         bindG (mark_visited newState) (\<lambda>newState.
           let acc = (if option \<noteq> currentOption
                      then (candidates @ [newState], utilities @ [rdt_utility goal s], actions @ [rdt_action option])
                      else (candidates, utilities, actions))
           in if IsBetter newState goal profiles then Inr acc
              else rdt_options post start goal profiles currentOption options acc)
       else rdt_options post start goal profiles currentOption options (candidates, utilities, actions))"

definition rdt_findStates ::
  "RdtConfig \<Rightarrow> (RdtRequest \<Rightarrow> prediction_reply) \<Rightarrow> State \<Rightarrow> State \<Rightarrow> profiles \<Rightarrow> string \<Rightarrow> proposal go" where
  "rdt_findStates cfg post start goal profiles currentOption =
     rdt_options post start goal profiles currentOption (Options cfg) no_proposal"

definition first_pod_guaranteed :: "State \<Rightarrow> bool" where
  \<comment> \<open>the loop over the pods ends after the first one\<close>
  "first_pod_guaranteed state =
     (case entries (CurrentPods state) of [] \<Rightarrow> True | (_, podState) # _ \<Rightarrow> QoSClass podState = ''Guaranteed'')"

definition rdt_NextState :: "RdtConfig \<Rightarrow> (RdtRequest \<Rightarrow> prediction_reply) \<Rightarrow> next_state" where
  "rdt_NextState cfg post state goal profiles =
     (let currentOption = mget ''None'' (Annotations state) (AnnotationName cfg) in
      if mlookup (Annotations state) ''rdtVisited'' \<noteq> None then Inr no_proposal
      else if \<not> first_pod_guaranteed state then Inr no_proposal
      else rdt_findStates cfg post state goal profiles currentOption)"

section \<open>Performing a plan\<close>

definition chosen_option :: "Action list \<Rightarrow> string go" where
  "chosen_option plan =
     foldG (\<lambda>item option.
       if ActionName item = rdtActionName then
         (case Properties item of StrProps m \<Rightarrow> Inr (mget '''' m ''option'') | _ \<Rightarrow> Inl TypeAssertion)
       else Inr option) plan ''n/a''"

definition annotate :: "RdtConfig \<Rightarrow> string \<Rightarrow> workload \<Rightarrow> workload go" where
  \<comment> \<open>\<open>podAnnotations\<close> is the map of the copied workload only if that one is not nil; the map made
      otherwise is not stored in the workload\<close>
  "annotate cfg option w =
     (let podAnnotations = (if template_annotations w = None then mmake else template_annotations w) in
      bindG (if option \<noteq> ''None'' then mput podAnnotations (AnnotationName cfg) option
             else Inr (mdelete podAnnotations (AnnotationName cfg))) (\<lambda>m.
        Inr (if template_annotations w = None then w else w\<lparr>template_annotations := m\<rparr>)))"

definition rdt_Perform :: "RdtConfig \<Rightarrow> State \<Rightarrow> Action list \<Rightarrow> cluster \<Rightarrow> cluster go" where
  "rdt_Perform cfg state plan c =
     bindG (chosen_option plan) (\<lambda>option.
       if option = ''n/a'' then Inr c
       else
         (let tmp = split_on (CHR ''/'') (TargetKey (IntentOf state)) in
          bindG (nthG tmp 0) (\<lambda>namespace.
            case kind_of (TargetKind (IntentOf state)) of
              None \<Rightarrow> Inr c
            | Some knd \<Rightarrow> bindG (nthG tmp 1) (\<lambda>name.
                case Get knd (namespace, name) c of
                  None \<Rightarrow> Inr c
                | Some w \<Rightarrow> bindG (annotate cfg option w) (\<lambda>w'. Inr (fst (Update knd (namespace, name) w' c)))))))"

definition rdt_Effect :: "RdtConfig \<Rightarrow> State \<Rightarrow> profiles \<Rightarrow> string list list" where
  \<comment> \<open>the command lines that are run, one after the other\<close>
  "rdt_Effect cfg state profiles =
     (if rdt_Analytics cfg = ''None'' then []
      else map (\<lambda>name. [rdt_Interpreter cfg, rdt_Analytics cfg, IntentKey (IntentOf state), name, AnnotationName cfg])
        (filter (is_latency profiles) (mkeys (objectives state))))"

definition NewRdtActuator :: "RdtConfig \<Rightarrow> int option \<Rightarrow> (RdtConfig \<times> int) go" where
  \<comment> \<open>the process of the prediction script: None where it could not be started\<close>
  "NewRdtActuator cfg process = (case process of None \<Rightarrow> Inl NilDereference | Some pid \<Rightarrow> Inr (cfg, pid))"

section \<open>The contract\<close>

definition keys_ok :: "State \<Rightarrow> bool" where
  \<comment> \<open>the keys of the resources have a position, a name and a suffix\<close>
  "keys_ok s \<longleftrightarrow> (\<forall>k \<in> set (mkeys (Resources s)). 3 \<le> length (split_on (CHR ''_'') k))"

definition knows_objectives :: "string set \<Rightarrow> State \<Rightarrow> bool" where
  \<comment> \<open>all objectives of the state are among those given\<close>
  "knows_objectives K s \<longleftrightarrow> set (mkeys (objectives s)) \<subseteq> K"

definition rdt_ok :: "string set \<Rightarrow> State \<Rightarrow> bool" where
  "rdt_ok K s \<longleftrightarrow> keys_ok s \<and> knows_objectives K s"

definition rdt_env :: "string set \<Rightarrow> (RdtRequest \<Rightarrow> prediction_reply) \<Rightarrow> State \<Rightarrow> profiles \<Rightarrow> bool" where
  \<comment> \<open>the latencies among the objectives are positive, and predicted ones at least not negative\<close>
  "rdt_env K post goal profiles \<longleftrightarrow>
     positive_priority goal profiles \<and>
     (\<forall>k \<in> K. is_latency profiles k \<longrightarrow> (\<exists>x. mget 0 (objectives goal) k = Fin x \<and> 0 < x)) \<and>
     (\<forall>r. feq (rdt_doQuery post r) (- 1) \<or> (\<exists>x. rdt_doQuery post r = Fin x \<and> 0 \<le> x))"

definition sums_ok :: "rdt_sums \<Rightarrow> bool" where
  "sums_ok s \<longleftrightarrow>
     (\<exists>a b. tempSum s = Fin a \<and> tempPredSum s = Fin b \<and> 0 \<le> a \<and> 0 \<le> b \<and> (is_candidate s \<longrightarrow> 0 < a))"

lemma getResources_total:
  "\<forall>k \<in> fst ` set kvs. 3 \<le> length (split_on (CHR ''_'') k) \<Longrightarrow> \<exists>v. rdt_getResources kvs cpu idx = Inr v"
proof (induction kvs arbitrary: cpu idx)
  case (Cons kv kvs)
  obtain k v where kv: "kv = (k, v)" by (cases kv)
  have len: "3 \<le> length (split_on (CHR ''_'') k)" using Cons.prems kv by simp
  then have "nthG (split_on (CHR ''_'') k) 1 = Inr (split_on (CHR ''_'') k ! 1)"
    "nthG (split_on (CHR ''_'') k) 2 = Inr (split_on (CHR ''_'') k ! 2)" by simp_all
  moreover have "\<exists>v. rdt_getResources kvs cpu idx = Inr v" for cpu idx by (rule Cons.IH) (use Cons.prems in simp)
  ultimately show ?case
    using kv len by (cases "atoi (split_on (CHR ''_'') k ! 0)") (simp_all add: Let_def nthG_def)
qed simp

lemma keys_resources: "keys_ok start \<Longrightarrow> \<exists>v. rdt_getResources (entries (Resources start)) cpu idx = Inr v"
  by (rule getResources_total) (simp add: keys_ok_def mkeys_def)

lemma rdt_objectives_total:
  assumes keys: "keys_ok start" and env: "rdt_env K post goal profiles"
  shows "writable ns \<Longrightarrow> sums_ok s \<Longrightarrow> set ks \<subseteq> K \<Longrightarrow> knows_objectives K ns \<Longrightarrow>
    \<exists>ns' s'. rdt_objectives post start goal profiles option ks (ns, s) = Inr (ns', s') \<and>
    sums_ok s' \<and> Resources ns' = Resources ns \<and> CurrentPods ns' = CurrentPods ns \<and> knows_objectives K ns'"
proof (induction ks arbitrary: ns s)
  case (Cons k ks)
  obtain cpu where cpu: "rdt_getResources (entries (Resources start)) 0 (- 1) = Inr cpu"
    using keys_resources [OF keys] by blast
  define v where "v = rdt_doQuery post (rdt_request ns k option cpu)"
  show ?case
  proof (cases "is_latency profiles k")
    case False
    then show ?thesis using Cons.IH Cons.prems by simp
  next
    case lat: True
    obtain x where x: "mget 0 (objectives goal) k = Fin x" "0 < x" using env lat Cons.prems(3) by (auto simp: rdt_env_def)
    show ?thesis
    proof (cases "feq v (- 1)")
      case True
      then have "rdt_objectives post start goal profiles option (k # ks) (ns, s) = Inr (ns, s\<lparr>was_found := False\<rparr>)"
        using lat cpu by (simp add: v_def Let_def)
      moreover have "sums_ok (s\<lparr>was_found := False\<rparr>)" using Cons.prems(2) by (simp add: sums_ok_def)
      ultimately show ?thesis using Cons.prems(4) by blast
    next
      case False
      then obtain y where y: "v = Fin y" "0 \<le> y" using env unfolding rdt_env_def v_def by blast
      obtain t where t: "set_objective k v ns = Inr t" "writable t" "Resources t = Resources ns" "CurrentPods t = CurrentPods ns"
        using set_objective_writable [OF Cons.prems(1)] by blast
      have t': "knows_objectives K t"
        using t(1) Cons.prems(3,4) by (auto simp: set_objective_def bindG_eq_Inr knows_objectives_def dest!: mkeys_mput)
      let ?s = "s\<lparr>tempPredSum := tempPredSum s + v, tempSum := tempSum s + mget 0 (objectives goal) k,
        is_candidate := is_candidate s \<or> mget 0 (objectives t) k \<le> mget 0 (objectives goal) k\<rparr>"
      have "sums_ok ?s" using Cons.prems(2) x y by (auto simp: sums_ok_def)
      from Cons.IH [OF t(2) this _ t'] t(3,4) Cons.prems(3) obtain ns' s' where
        "rdt_objectives post start goal profiles option ks (t, ?s) = Inr (ns', s')" "sums_ok s'"
        "Resources ns' = Resources ns" "CurrentPods ns' = CurrentPods ns" "knows_objectives K ns'" by auto
      moreover have "rdt_objectives post start goal profiles option (k # ks) (ns, s) =
          rdt_objectives post start goal profiles option ks (t, ?s)"
        using lat cpu t(1) False by (simp add: v_def Let_def)
      ultimately show ?thesis by auto
    qed
  qed
qed auto

lemma mark_visited_total:
  "\<exists>t. mark_visited s = Inr t \<and> Resources t = Resources s \<and> CurrentPods t = CurrentPods s \<and> IntentOf t = IntentOf s"
proof (cases "Annotations s")
  case (Some kvs)
  then show ?thesis by (cases "kvs = []") (simp_all add: mark_visited_def)
qed (simp add: mark_visited_def)

lemma rdt_utility_ok:
  assumes "sums_ok s" and "is_candidate s" and "positive_priority goal ps"
  shows "finite_float (rdt_utility goal s) \<and> 0 \<le> rdt_utility goal s"
  using assms by (auto simp: sums_ok_def positive_priority_def rdt_utility_def float_consts)

definition rdt_candidate :: "string set \<Rightarrow> string list \<Rightarrow> string \<Rightarrow> State \<Rightarrow> State \<Rightarrow> float64 \<Rightarrow> Action \<Rightarrow> bool" where
  "rdt_candidate K options currentOption start c u a \<longleftrightarrow>
     knows_objectives K c \<and> Resources c = Resources (DeepCopy start) \<and> CurrentPods c = CurrentPods (DeepCopy start) \<and>
     finite_float u \<and> 0 \<le> u \<and> (\<exists>option \<in> set options. option \<noteq> currentOption \<and> a = rdt_action option)"

lemma rdt_options_spec:
  assumes ok: "rdt_ok K start" and env: "rdt_env K post goal profiles" and "set opts \<subseteq> set options"
    and "each_proposal (rdt_candidate K options cur start) (cs, us, as)"
  shows "\<exists>p. rdt_options post start goal profiles cur opts (cs, us, as) = Inr p \<and>
    each_proposal (rdt_candidate K options cur start) p"
  using assms(3,4)
proof (induction opts arbitrary: cs us as)
  case (Cons option opts)
  let ?init = "\<lparr>tempSum = 0, tempPredSum = 0, is_candidate = False, was_found = True\<rparr>"
  have "sums_ok ?init" by (simp add: sums_ok_def float_consts)
  moreover have "keys_ok start" "knows_objectives K (DeepCopy start)"
    using ok by (cases "objectives start"; simp add: rdt_ok_def knows_objectives_def DeepCopy_def copy_map_def)+
  moreover from this(2) have "set (mkeys (objectives (DeepCopy start))) \<subseteq> K" by (simp add: knows_objectives_def)
  ultimately have "\<exists>ns s. rdt_objectives post start goal profiles option (mkeys (objectives (DeepCopy start)))
      (DeepCopy start, ?init) = Inr (ns, s) \<and> sums_ok s \<and> Resources ns = Resources (DeepCopy start) \<and>
      CurrentPods ns = CurrentPods (DeepCopy start) \<and> knows_objectives K ns"
    by (intro rdt_objectives_total [OF _ env writable_DeepCopy]) simp_all
  then
  obtain ns s where ns: "rdt_objectives post start goal profiles option (mkeys (objectives (DeepCopy start)))
      (DeepCopy start, ?init) = Inr (ns, s)" "sums_ok s"
    "Resources ns = Resources (DeepCopy start)" "CurrentPods ns = CurrentPods (DeepCopy start)" "knows_objectives K ns" by blast
  obtain t where t: "mark_visited ns = Inr t" "Resources t = Resources ns" "CurrentPods t = CurrentPods ns"
    "IntentOf t = IntentOf ns" using mark_visited_total by blast
  then have t': "knows_objectives K t" using ns(5) by (simp add: knows_objectives_def)
  have opt: "option \<in> set options" "set opts \<subseteq> set options" using Cons.prems(1) by auto
  have none: "each_proposal (rdt_candidate K options cur start) ([ns], [0], [rdt_action ''None''])"
    if "option = ''None''" "cur \<noteq> ''None''"
    using that opt ns(3-5) by (auto simp: rdt_candidate_def float_consts)
  let ?acc = "if option \<noteq> cur then (cs @ [t], us @ [rdt_utility goal s], as @ [rdt_action option]) else (cs, us, as)"
  have acc: "each_proposal (rdt_candidate K options cur start) ?acc" if "is_candidate s"
  proof (cases "option = cur")
    case True
    with Cons.prems(2) show ?thesis by simp
  next
    case False
    have "rdt_candidate K options cur start t (rdt_utility goal s) (rdt_action option)"
      using rdt_utility_ok [OF ns(2) that] env False opt ns(3,4) t t'
      by (auto simp: rdt_candidate_def rdt_env_def)
    with False each_proposal_snoc [OF Cons.prems(2)] show ?thesis by simp
  qed
  have ih: "\<exists>p. rdt_options post start goal profiles cur opts q = Inr p \<and> each_proposal (rdt_candidate K options cur start) p"
    if "each_proposal (rdt_candidate K options cur start) q" for q
    using Cons.IH [OF opt(2)] that by (cases q) blast
  have eq: "rdt_options post start goal profiles cur (option # opts) (cs, us, as) =
    (if option = ''None'' \<and> IsBetter ns goal profiles \<and> was_found s then
       (if cur \<noteq> ''None'' then Inr ([ns], [0], [rdt_action ''None'']) else Inr no_proposal)
     else if is_candidate s \<and> was_found s then
       (if IsBetter t goal profiles then Inr ?acc else rdt_options post start goal profiles cur opts ?acc)
     else rdt_options post start goal profiles cur opts (cs, us, as))"
    unfolding rdt_options.simps(2) ns(1) bindG_Inr prod.case t(1) Let_def by simp
  have no: "\<exists>p. Inr no_proposal = (Inr p :: proposal go) \<and> each_proposal (rdt_candidate K options cur start) p"
    by (intro exI [of _ no_proposal]) simp
  show ?case unfolding eq using none acc ih no Cons.prems(2) by (auto simp del: split_paired_Ex split_paired_All)
qed auto

lemma rdt_proposal_ok:
  assumes "rdt_ok K s" and "rdt_env K post goal profiles"
  shows "proposal_ok (rdt_ok K) (rdt_NextState cfg post s goal profiles)"
proof -
  obtain p where p: "rdt_findStates cfg post s goal profiles (mget ''None'' (Annotations s) (AnnotationName cfg)) = Inr p"
    "each_proposal (rdt_candidate K (Options cfg) (mget ''None'' (Annotations s) (AnnotationName cfg)) s) p"
    using rdt_options_spec [OF assms order_refl, of "Options cfg" _ "[]" "[]" "[]"]
    unfolding rdt_findStates_def no_proposal_def by (metis each_proposal_none(2))
  have "each_proposal (\<lambda>c u a. rdt_ok K c \<and> finite_float u \<and> 0 \<le> u) p"
    using p(2)
  proof (rule each_proposal_mono)
    fix c u a
    assume c: "rdt_candidate K (Options cfg) (mget ''None'' (Annotations s) (AnnotationName cfg)) s c u a"
    have "mkeys (Resources (DeepCopy s)) = mkeys (Resources s)"
      by (cases "Resources s") (simp_all add: DeepCopy_def copy_map_def)
    with c assms(1) show "rdt_ok K c \<and> finite_float u \<and> 0 \<le> u" by (simp add: rdt_candidate_def rdt_ok_def keys_ok_def)
  qed
  then have "proposal_ok (rdt_ok K) (Inr p)" by (rule each_proposal_ok)
  with p(1) show ?thesis by (simp add: rdt_NextState_def Let_def)
qed

interpretation rdt: actuator "rdt_NextState cfg post" "rdt_ok K" "rdt_env K post" for cfg post K
  by (rule actuatorI) (rule rdt_proposal_ok)

section \<open>What performing a plan does\<close>

definition annotated :: "RdtConfig \<Rightarrow> string \<Rightarrow> workload \<Rightarrow> workload \<Rightarrow> bool" where
  \<comment> \<open>only the annotation of the option changes\<close>
  "annotated cfg option w w' \<longleftrightarrow>
     mlookup (template_annotations w') =
       (mlookup (template_annotations w))(AnnotationName cfg := (if option = ''None'' then None else Some option)) \<and>
     w' = w\<lparr>template_annotations := template_annotations w'\<rparr>"

lemma annotate_spec:
  "\<exists>w'. annotate cfg option w = Inr w' \<and>
     (if template_annotations w = None then w' = w else annotated cfg option w w')"
proof (cases "template_annotations w")
  case None
  then show ?thesis by (cases "option = ''None''") (auto simp: annotate_def mmake_def)
next
  case (Some kvs)
  then show ?thesis
    by (cases "option = ''None''")
      (auto simp: annotate_def annotated_def fun_eq_iff mlookup_mdelete update_conv' mlookup_def [symmetric] mdelete_def delete_conv')
qed

lemma chosen_option_typed:
  assumes "\<forall>a \<in> set plan. ActionName a = rdtActionName \<longrightarrow> (\<exists>m. Properties a = StrProps m)"
  shows "\<exists>option. chosen_option plan = Inr option"
proof -
  have "\<exists>option. chosen_option plan = Inr option \<and> True"
    unfolding chosen_option_def by (rule foldG_total) (use assms in auto)
  then show ?thesis by blast
qed

text \<open>
  C39. Performing an RDT plan on a workload loses the option where the pod template has no annotations
  yet: the workload is written back unchanged, whatever the option is, because the map made for it is
  never stored. Where the template has annotations exactly the configured one is set, or removed for
  the option None. In no case another workload changes, and nothing changes when the server refuses.
\<close>
theorem rdt_performs:
  assumes "chosen_option plan = Inr option" and "option \<noteq> ''n/a''"
    and "split_on (CHR ''/'') (TargetKey (IntentOf state)) = ns # name # rest"
    and "kind_of (TargetKind (IntentOf state)) = Some knd" and "Get knd (ns, name) c = Some w"
  shows "\<exists>c'. rdt_Perform cfg state plan c = Inr c' \<and>
    (\<forall>knd' key. (knd', key) \<noteq> (knd, (ns, name)) \<longrightarrow> Get knd' key c' = Get knd' key c) \<and>
    (outcomes c = [] \<or> hd (outcomes c) = Accepted \<longrightarrow>
       (if template_annotations w = None then Get knd (ns, name) c' = Some w
        else \<exists>w'. Get knd (ns, name) c' = Some w' \<and> annotated cfg option w w')) \<and>
    (outcomes c \<noteq> [] \<and> hd (outcomes c) = Refused \<longrightarrow> Get knd (ns, name) c' = Some w)"
proof -
  obtain w' where w': "annotate cfg option w = Inr w'"
    "if template_annotations w = None then w' = w else annotated cfg option w w'"
    using annotate_spec by blast
  let ?c = "fst (Update knd (ns, name) w' c)"
  have "rdt_Perform cfg state plan c = Inr ?c"
    using assms w'(1) by (simp add: rdt_Perform_def nthG_def)
  moreover have "Get knd' key ?c = Get knd' key c" if "(knd', key) \<noteq> (knd, (ns, name))" for knd' key
    using Update_others [OF that] .
  moreover have "Get knd (ns, name) ?c = Some w'" if "outcomes c = [] \<or> hd (outcomes c) = Accepted"
    using Update_accepted [OF that] by simp
  moreover have "Get knd (ns, name) ?c = Some w" if "outcomes c \<noteq> []" "hd (outcomes c) = Refused"
    using that assms(5) by (simp add: Update_def Let_def)
  ultimately show ?thesis using w'(2) by (intro exI [of _ ?c]) auto
qed

definition rdt_cfg :: RdtConfig where
  "rdt_cfg = \<lparr>PluginEndpoint = ''rdt'', PluginPort = 33336, ManagerEndpoint = ''ido'', ManagerPort = 33333, Mongo = '''',
     rdt_Interpreter = ''python3'', rdt_Analytics = ''analyze.py'', rdt_Prediction = ''predict.py'',
     Options = [''None'', ''COS1''], AnnotationName = ''rdt''\<rparr>"

theorem rdt_performs_witness:
  "\<exists>c'. rdt_Perform rdt_cfg (busy_state 20) [rdt_action ''COS1''] (busy_cluster\<lparr>outcomes := []\<rparr>) = Inr c' \<and>
     map_option template_annotations (Get Deployment (''ns'', ''app'') c') = Some None"
proof -
  let ?c = "busy_cluster\<lparr>outcomes := []\<rparr>"
  let ?w = "\<lparr>replicas = Some 2, selector = None, template_annotations = None, template_containers = []\<rparr>"
  have "chosen_option [rdt_action ''COS1''] = Inr ''COS1''"
    by (simp add: chosen_option_def rdt_action_def mget_def)
  moreover have "split_on (CHR ''/'') (TargetKey (IntentOf (busy_state 20))) = ''ns'' # ''app'' # []"
    "kind_of (TargetKind (IntentOf (busy_state 20))) = Some Deployment"
    by (simp_all add: busy_state_def kind_of_def)
  moreover have "Get Deployment (''ns'', ''app'') ?c = Some ?w" by (simp add: Get_def busy_cluster_def)
  ultimately show ?thesis
    using rdt_performs [of "[rdt_action ''COS1'']" "''COS1''" "busy_state 20" "''ns''" "''app''" "[]" Deployment ?c ?w rdt_cfg]
    by auto
qed

end
