(* ===== verification/Power_Profiles.thy ===== *)
theory Power_Profiles
  imports Scale_Out
begin

text \<open>
  \<^verbatim>\<open>pkg/planner/actuators/energy/power.go\<close>: the actuator that picks a power
  profile for a workload, by the forecasts of a prediction service and the share of
  renewable energy.  The service is the argument \<open>post\<close>: what its endpoint answers
  to a request.
\<close>

section \<open>Data\<close>

definition powerActionName :: string where
  "powerActionName = ''setPowerProfile''"

definition powerGroupName :: string where
  "powerGroupName = ''energy''"

record PowerActuatorConfig = PluginConfig +
  pow_Interpreter :: string
  PowerProfiles :: "string list"
  pow_Prediction :: string
  pow_Analytics :: string
  ProactiveCandidates :: bool
  RenewableLimit :: float64
  StepDown :: int

record PowerRequest =
  pow_Intent :: string
  pow_Objectives :: "string list"
  pow_Cores :: int

type_synonym forecasts = "(string, float64 list) gomap"

datatype forecast_reply = Unreachable | Status int | NotJson | Forecasts forecasts

definition power_doQuery :: "(PowerRequest \<Rightarrow> forecast_reply) \<Rightarrow> PowerRequest \<Rightarrow> forecasts" where
  "power_doQuery post body =
     (case post body of
        Unreachable \<Rightarrow> None
      | Status _ \<Rightarrow> None
      | NotJson \<Rightarrow> None
      | Forecasts res \<Rightarrow> res)"

definition contains :: "string list \<Rightarrow> string \<Rightarrow> bool" where
  "contains values value \<longleftrightarrow> list_ex (\<lambda>v. value = v) values"

section \<open>Finding a profile\<close>

type_synonym options = "(string, (string, float64) gomap) gomap"

fun profile_fits :: "forecasts \<Rightarrow> (string, float64) gomap \<Rightarrow> nat \<Rightarrow> string list \<Rightarrow> bool \<Rightarrow> bool option go" where
  \<comment> \<open>the loop over the objectives for the profile \<open>i\<close>; None is the early return of no option\<close>
  "profile_fits tmp targets i [] found = Inr (Some found)"
| "profile_fits tmp targets i (objective # objs) found =
     (case mlookup tmp objective of
        None \<Rightarrow> Inr None
      | Some forecast \<Rightarrow>
          bindG (nthG forecast i) (\<lambda>v.
            if v \<le> mget 0 targets objective then profile_fits tmp targets i objs True
            else Inr (Some False)))"

definition fill_forecast :: "forecasts \<Rightarrow> nat \<Rightarrow> string list \<Rightarrow> (string, float64) gomap \<Rightarrow> (string, float64) gomap go" where
  "fill_forecast tmp i objs m =
     foldG (\<lambda>objective m. bindG (nthG (mget [] tmp objective) i) (\<lambda>v. mput m objective v)) objs m"

fun profile_loop ::
  "forecasts \<Rightarrow> string list \<Rightarrow> (string, float64) gomap \<Rightarrow> bool \<Rightarrow> (nat \<times> string) list \<Rightarrow>
   (string, float64) gomap \<times> string \<Rightarrow> (options + (string, float64) gomap \<times> string) go" where
  \<comment> \<open>the loop over the profiles; \<open>Inl\<close> is an early return\<close>
  "profile_loop tmp objs targets onlyPower [] acc = Inr (Inr acc)"
| "profile_loop tmp objs targets onlyPower ((i, profile) # ps) (candidate, profileName) =
     bindG (profile_fits tmp targets i objs False) (\<lambda>r.
       case r of
         None \<Rightarrow> Inr (Inl mmake)
       | Some found \<Rightarrow>
           if found then
             bindG (fill_forecast tmp i objs candidate) (\<lambda>candidate.
               if \<not> onlyPower then Inr (Inl (Some [(profile, candidate)]))
               else profile_loop tmp objs targets onlyPower ps (candidate, profile))
           else profile_loop tmp objs targets onlyPower ps (candidate, profileName))"

definition all_options :: "forecasts \<Rightarrow> string list \<Rightarrow> string list \<Rightarrow> options go" where
  \<comment> \<open>the proactive mode: every profile with its forecast\<close>
  "all_options tmp objs profileNames =
     foldG (\<lambda>(i, profile) options. bindG (fill_forecast tmp i objs mmake) (\<lambda>forecast. mput options profile forecast))
       (enumerate 0 profileNames) mmake"

definition findProfile ::
  "PowerActuatorConfig \<Rightarrow> (PowerRequest \<Rightarrow> forecast_reply) \<Rightarrow> string \<Rightarrow> string list \<Rightarrow> (string, float64) gomap \<Rightarrow>
   int64 \<Rightarrow> bool \<Rightarrow> options go" where
  "findProfile cfg post intentKey objs targets cpuAsk onlyPower =
     (let tmp = power_doQuery post
        \<lparr>pow_Intent = intentKey, pow_Objectives = objs, pow_Cores = sint cpuAsk sdiv 1000\<rparr> in
      if tmp = None then Inr mmake
      else bindG (profile_loop tmp objs targets onlyPower (enumerate 0 (PowerProfiles cfg)) (mmake, ''None'')) (\<lambda>r.
        case r of
          Inl options \<Rightarrow> Inr options
        | Inr (candidate, profileName) \<Rightarrow>
            if onlyPower then Inr (Some [(profileName, candidate)])
            else if ProactiveCandidates cfg then all_options tmp objs (PowerProfiles cfg)
            else Inr mmake))"

section \<open>The current profile\<close>

record power_scan =
  currentProfile :: string
  cpuAsk :: int64
  cpuAllocated :: int64
  lastCont :: int

definition power_entry :: "PowerActuatorConfig \<Rightarrow> string list \<Rightarrow> int \<Rightarrow> int64 \<Rightarrow> power_scan \<Rightarrow> power_scan" where
  \<comment> \<open>the body of the loop over the resources, where the container is not before the last one\<close>
  "power_entry cfg tmp currentContainerID value s =
     (let s = s\<lparr>lastCont := currentContainerID\<rparr>;
          s = (if tmp ! 1 = ''cpu'' \<and> tmp ! 2 = ''requests'' then s\<lparr>cpuAsk := value\<rparr> else s) in
      case find (\<lambda>profile. has_substring (tmp ! 1) profile \<and> tmp ! 2 = ''requests'') (PowerProfiles cfg) of
        None \<Rightarrow> s
      | Some profile \<Rightarrow> s\<lparr>currentProfile := profile, cpuAllocated := value\<rparr>)"

fun scan_profile :: "PowerActuatorConfig \<Rightarrow> (string \<times> int64) list \<Rightarrow> power_scan \<Rightarrow> power_scan option" where
  \<comment> \<open>the loop over the resources; None is the early return\<close>
  "scan_profile cfg [] s = Some s"
| "scan_profile cfg ((resourceKey, value) # kvs) s =
     (let tmp = split_on (CHR ''_'') resourceKey in
      if length tmp \<noteq> 3 then scan_profile cfg kvs s
      else (case atoi (tmp ! 0) of
          None \<Rightarrow> None
        | Some currentContainerID \<Rightarrow>
            scan_profile cfg kvs
              (if currentContainerID \<ge> lastCont s then power_entry cfg tmp currentContainerID value s else s)))"

definition power_objectives :: "State \<Rightarrow> profiles \<Rightarrow> string list" where
  "power_objectives goal profiles =
     filter (\<lambda>key. is_latency profiles key \<or> is_power profiles key) (mkeys (objectives goal))"

definition only_power :: "State \<Rightarrow> profiles \<Rightarrow> bool" where
  "only_power goal profiles \<longleftrightarrow> \<not> list_ex (is_latency profiles) (mkeys (objectives goal))"

definition renewable_ratio :: "State \<Rightarrow> float64" where
  \<comment> \<open>the first entry visited\<close>
  "renewable_ratio state =
     (case entries (mget None (CurrentData state) ''renewable_energy_ratio'') of [] \<Rightarrow> 100 | (_, item) # _ \<Rightarrow> item)"

section \<open>Follow-up states\<close>

definition power_action :: "string \<Rightarrow> Action" where
  "power_action profile = \<lparr>ActionName = powerActionName, Properties = StrProps (Some [(''profile'', profile)])\<rparr>"

definition power_state :: "string list \<Rightarrow> (string, float64) gomap \<Rightarrow> State \<Rightarrow> State go" where
  \<comment> \<open>a copy marked as done, with new values of the objectives\<close>
  "power_state objectiveNames values state =
     bindG (set_data powerActionName (Some [(powerActionName, 1)]) (DeepCopy state)) (\<lambda>newState.
       foldG (\<lambda>key. set_objective key (mget 0 values key)) objectiveNames newState)"

definition slice_index :: "string list \<Rightarrow> string \<Rightarrow> int" where
  \<comment> \<open>\<open>slices.Index\<close>: the first position, -1 where there is none\<close>
  "slice_index xs x = (let n = length (takeWhile (\<lambda>y. y \<noteq> x) xs) in if n < length xs then int n else - 1)"

definition stepped_down :: "PowerActuatorConfig \<Rightarrow> string \<Rightarrow> string go" where
  "stepped_down cfg newProfile =
     (let idx = slice_index (PowerProfiles cfg) newProfile;
          idx = (if idx - StepDown cfg \<ge> 1 then idx - StepDown cfg else 0)
      in nthG (PowerProfiles cfg) (nat idx))"

definition best_profile ::
  "PowerActuatorConfig \<Rightarrow> State \<Rightarrow> State \<Rightarrow> power_scan \<Rightarrow> string list \<Rightarrow> float64 \<Rightarrow> string \<Rightarrow> (string, float64) gomap \<Rightarrow>
   proposal go" where
  \<comment> \<open>the case of one forecast\<close>
  "best_profile cfg state goal s objectiveNames rer newProfile values =
     (if (contains (PowerProfiles cfg) newProfile \<and> currentProfile s \<noteq> newProfile \<or>
          currentProfile s = newProfile \<and> cpuAsk s \<noteq> cpuAllocated s \<and> cpuAllocated s \<noteq> - 1) \<and>
         RenewableLimit cfg \<le> rer then
        bindG (power_state objectiveNames values state) (\<lambda>newState.
          Inr ([newState], [0], [power_action newProfile]))
      else if rer < RenewableLimit cfg \<and> currentProfile s \<noteq> ''None'' then
        bindG (power_state objectiveNames (objectives goal) state) (\<lambda>newState.
          bindG (stepped_down cfg newProfile) (\<lambda>profile.
            if profile \<noteq> currentProfile s
            then Inr ([newState], [Priority (IntentOf state)], [power_action profile])
            else Inr no_proposal))
      else Inr no_proposal)"

definition power_candidates :: "State \<Rightarrow> string list \<Rightarrow> options \<Rightarrow> proposal go" where
  \<comment> \<open>the proactive case\<close>
  "power_candidates state objectiveNames forecast =
     foldG (\<lambda>(profile, values) (states, utils, actions).
       bindG (power_state objectiveNames values state) (\<lambda>newState.
         Inr (states @ [newState], utils @ [0], actions @ [power_action profile])))
       (entries forecast) no_proposal"

definition power_guaranteed :: "State \<Rightarrow> bool" where
  \<comment> \<open>the loop over the pods ends after the first one\<close>
  "power_guaranteed state =
     (case entries (CurrentPods state) of [] \<Rightarrow> True | (_, podState) # _ \<Rightarrow> QoSClass podState = ''Guaranteed'')"

definition power_NextState :: "PowerActuatorConfig \<Rightarrow> (PowerRequest \<Rightarrow> forecast_reply) \<Rightarrow> next_state" where
  "power_NextState cfg post state goal profiles =
     (if mlookup (CurrentData state) powerActionName \<noteq> None then Inr no_proposal
      else if mlen (CurrentPods state) < 1 then Inr no_proposal
      else if \<not> power_guaranteed state then Inr no_proposal
      else (case scan_profile cfg (entries (Resources state))
                   \<lparr>currentProfile = ''None'', cpuAsk = - 1, cpuAllocated = - 1, lastCont = - 1\<rparr> of
          None \<Rightarrow> Inr no_proposal
        | Some s \<Rightarrow>
            let objectiveNames = power_objectives goal profiles; rer = renewable_ratio state in
            bindG (findProfile cfg post (IntentKey (IntentOf state)) objectiveNames (objectives goal) (cpuAsk s)
                     (only_power goal profiles)) (\<lambda>forecast.
              if mlen forecast = 1 then
                (case hd (entries forecast) of (newProfile, values) \<Rightarrow>
                   best_profile cfg state goal s objectiveNames rer newProfile values)
              else if mlen forecast > 1 \<and> RenewableLimit cfg \<le> rer then
                power_candidates state objectiveNames forecast
              else Inr no_proposal)))"

section \<open>Performing a plan\<close>

fun chosen_profile :: "Action list \<Rightarrow> string option go" where
  \<comment> \<open>of the first action that is one of this actuator\<close>
  "chosen_profile [] = Inr None"
| "chosen_profile (item # plan) =
     (if ActionName item = powerActionName then
        (case Properties item of StrProps m \<Rightarrow> Inr (Some (mget '''' m ''profile'')) | _ \<Rightarrow> Inl TypeAssertion)
      else chosen_profile plan)"

definition set_container_profile :: "PowerActuatorConfig \<Rightarrow> string \<Rightarrow> container \<Rightarrow> container go" where
  \<comment> \<open>the loop works on a copy of the container, but the two maps are those of the workload\<close>
  "set_container_profile cfg profile cont =
     (let resourceRequests = fold (\<lambda>candidate m. mdelete m candidate) (PowerProfiles cfg) (requests cont);
          resourceLimits = fold (\<lambda>candidate m. mdelete m candidate) (PowerProfiles cfg) (limits cont) in
      if profile \<noteq> ''None'' then
        bindG (mput resourceRequests profile (mget 0 resourceRequests ''cpu'')) (\<lambda>resourceRequests.
        bindG (mput resourceLimits profile (mget 0 resourceRequests ''cpu'')) (\<lambda>resourceLimits.
          Inr (cont\<lparr>requests := resourceRequests, limits := resourceLimits\<rparr>)))
      else Inr (cont\<lparr>requests := resourceRequests, limits := resourceLimits\<rparr>))"

fun set_profiles :: "PowerActuatorConfig \<Rightarrow> string \<Rightarrow> container list \<Rightarrow> container list go" where
  "set_profiles cfg profile [] = Inr []"
| "set_profiles cfg profile (cont # conts) =
     bindG (set_container_profile cfg profile cont) (\<lambda>cont'.
     bindG (set_profiles cfg profile conts) (\<lambda>conts'. Inr (cont' # conts')))"

definition power_Perform :: "PowerActuatorConfig \<Rightarrow> State \<Rightarrow> Action list \<Rightarrow> cluster \<Rightarrow> cluster go" where
  "power_Perform cfg state plan c =
     bindG (chosen_profile plan) (\<lambda>r.
       case r of
         None \<Rightarrow> Inr c
       | Some profile \<Rightarrow>
           (let tmp = split_on (CHR ''/'') (TargetKey (IntentOf state)) in
            bindG (nthG tmp 0) (\<lambda>namespace. bindG (nthG tmp 1) (\<lambda>name.
              if TargetKind (IntentOf state) = ''Deployment'' then
                (case Get Deployment (namespace, name) c of
                   None \<Rightarrow> Inr c
                 | Some w \<Rightarrow>
                     bindG (set_profiles cfg profile (template_containers w)) (\<lambda>conts.
                       Inr (fst (Update Deployment (namespace, name) (w\<lparr>template_containers := conts\<rparr>) c))))
              else Inr c))))"

definition power_Effect :: "PowerActuatorConfig \<Rightarrow> State \<Rightarrow> profiles \<Rightarrow> string list" where
  \<comment> \<open>the command line that is run\<close>
  "power_Effect cfg state profiles =
     [pow_Interpreter cfg, pow_Analytics cfg, IntentKey (IntentOf state),
      join_with (CHR '','')
        (filter (\<lambda>name. is_latency profiles name \<or> is_power profiles name) (mkeys (objectives state))),
      join_with (CHR '','') (PowerProfiles cfg)]"

section \<open>The contract\<close>

definition power_env :: "PowerActuatorConfig \<Rightarrow> (PowerRequest \<Rightarrow> forecast_reply) \<Rightarrow> bool" where
  \<comment> \<open>an answer has a value for each requested objective and each profile\<close>
  "power_env cfg post \<longleftrightarrow>
     (\<forall>r objective. power_doQuery post r \<noteq> None \<and> objective \<in> set (pow_Objectives r) \<longrightarrow>
        (\<exists>f. mlookup (power_doQuery post r) objective = Some f \<and> length (PowerProfiles cfg) \<le> length f))"

definition complete_forecast :: "nat \<Rightarrow> string list \<Rightarrow> forecasts \<Rightarrow> bool" where
  "complete_forecast n objs tmp \<longleftrightarrow> (\<forall>objective \<in> set objs. \<exists>f. mlookup tmp objective = Some f \<and> n \<le> length f)"

lemma profile_fits_total:
  assumes "complete_forecast n objs tmp" and "i < n"
  shows "\<exists>found. profile_fits tmp targets i objs b = Inr (Some found)"
  using assms(1)
proof (induction objs arbitrary: b)
  case (Cons objective objs)
  then obtain f where "mlookup tmp objective = Some f" "i < length f"
    using assms(2) by (auto simp: complete_forecast_def)
  moreover have "complete_forecast n objs tmp" using Cons.prems by (simp add: complete_forecast_def)
  ultimately show ?case using Cons.IH [of True]
    by (cases "f ! i \<le> mget 0 targets objective") (simp_all add: nthG_def ex_bool_eq)
qed simp

lemma fill_forecast_total:
  assumes "complete_forecast n objs tmp" and "i < n" and "m \<noteq> None"
  shows "\<exists>m'. fill_forecast tmp i objs m = Inr m' \<and> m' \<noteq> None"
  unfolding fill_forecast_def
proof (rule foldG_total [where P = "\<lambda>m. m \<noteq> None"])
  fix objective and m :: "(string, float64) gomap"
  assume o: "objective \<in> set objs" and m: "m \<noteq> None"
  then obtain f where f: "mlookup tmp objective = Some f" "i < length f"
    using assms(1,2) by (auto simp: complete_forecast_def)
  obtain m' where "mput m objective (f ! i) = Inr m'" using mput_nonnil [OF m] by blast
  then show "\<exists>m'. bindG (nthG (mget [] tmp objective) i) (mput m objective) = Inr m' \<and> m' \<noteq> None"
    using f mput_not_nil by (fastforce simp: nthG_def mget_def)
qed (rule assms)

lemma profile_loop_total:
  assumes tmp: "complete_forecast n objs tmp"
  shows "\<forall>(i, p) \<in> set ps. i < n \<and> p \<in> set names \<Longrightarrow> cand \<noteq> None \<Longrightarrow>
    \<exists>r. profile_loop tmp objs targets onlyPower ps (cand, name) = Inr r \<and>
      (\<forall>opts. r = Inl opts \<longrightarrow> fst ` set (entries opts) \<subseteq> set names)"
proof (induction ps arbitrary: cand name)
  case (Cons ip ps)
  obtain i p where ip: "ip = (i, p)" by (cases ip)
  then have i: "i < n" "p \<in> set names" using Cons.prems(1) by auto
  obtain found where f: "profile_fits tmp targets i objs False = Inr (Some found)"
    using profile_fits_total [OF tmp i(1)] by blast
  obtain m where m: "fill_forecast tmp i objs cand = Inr m" "m \<noteq> None"
    using fill_forecast_total [OF tmp i(1) Cons.prems(2)] by blast
  have ih: "\<exists>r. profile_loop tmp objs targets onlyPower ps (c, nm) = Inr r \<and>
      (\<forall>opts. r = Inl opts \<longrightarrow> fst ` set (entries opts) \<subseteq> set names)" if "c \<noteq> None" for c nm
    by (rule Cons.IH [OF _ that]) (use Cons.prems(1) in simp)
  show ?case
  proof (cases "found \<and> \<not> onlyPower")
    case True
    then show ?thesis using f m i(2) by (simp add: ip)
  next
    case False
    then have "profile_loop tmp objs targets onlyPower (ip # ps) (cand, name) =
        (if found then profile_loop tmp objs targets onlyPower ps (m, p)
         else profile_loop tmp objs targets onlyPower ps (cand, name))"
      using f m by (simp add: ip)
    then show ?thesis using ih [OF m(2)] ih [OF Cons.prems(2)] by simp
  qed
qed auto

lemma all_options_total:
  assumes "complete_forecast (length names) objs tmp"
  shows "\<exists>opts. all_options tmp objs names = Inr opts \<and> opts \<noteq> None"
  unfolding all_options_def
proof (rule foldG_total [where P = "\<lambda>m. m \<noteq> None"])
  fix ip :: "nat \<times> string" and m :: options
  assume ip: "ip \<in> set (enumerate 0 names)" and m: "m \<noteq> None"
  obtain i p where ip': "ip = (i, p)" by (cases ip)
  then have "i < length names" using ip by (simp add: in_set_enumerate_eq)
  from fill_forecast_total [OF assms this] obtain f where f: "fill_forecast tmp i objs mmake = Inr f"
    by (metis mmake_simps(5))
  obtain m' where m': "mput m p f = Inr m'" using mput_nonnil [OF m, of p f] by (elim exE)
  from f m' mput_not_nil [OF m'] show "\<exists>m'. (case ip of (i, profile) \<Rightarrow> \<lambda>options. bindG (fill_forecast tmp i objs mmake) (mput options profile)) m = Inr m' \<and> m' \<noteq> None"
    by (intro exI [of _ m']) (simp add: ip' del: not_None_eq)
qed simp

lemma findProfile_total:
  assumes "power_env cfg post"
  shows "\<exists>opts. findProfile cfg post key objs targets cpu onlyPower = Inr opts"
proof -
  let ?r = "\<lparr>pow_Intent = key, pow_Objectives = objs, pow_Cores = sint cpu sdiv 1000\<rparr>"
  let ?tmp = "power_doQuery post ?r"
  show ?thesis
  proof (cases "?tmp = None")
    case True
    then show ?thesis by (simp add: findProfile_def)
  next
    case False
    have tmp: "complete_forecast (length (PowerProfiles cfg)) objs ?tmp"
      unfolding complete_forecast_def
    proof
      fix objective
      assume "objective \<in> set objs"
      then show "\<exists>f. mlookup ?tmp objective = Some f \<and> length (PowerProfiles cfg) \<le> length f"
        using assms False unfolding power_env_def by (metis PowerRequest.select_convs(2))
    qed
    have idx: "\<forall>(i, p) \<in> set (enumerate 0 (PowerProfiles cfg)). i < length (PowerProfiles cfg) \<and> p \<in> set (PowerProfiles cfg)"
      by (auto simp: in_set_enumerate_eq)
    obtain r where "profile_loop ?tmp objs targets onlyPower (enumerate 0 (PowerProfiles cfg)) (mmake, ''None'') = Inr r"
      using profile_loop_total [OF tmp idx mmake_simps(5)] by blast
    moreover obtain opts where "all_options ?tmp objs (PowerProfiles cfg) = Inr opts"
      using all_options_total [OF tmp] by blast
    ultimately show ?thesis using False
      by (cases r) (auto simp: findProfile_def Let_def simp del: not_None_eq split: prod.splits)
  qed
qed

definition state_priority :: "State \<Rightarrow> bool" where
  "state_priority s \<longleftrightarrow> (\<exists>x. Priority (IntentOf s) = Fin x \<and> 0 \<le> x)"

lemma set_objective_priority: "set_objective k v s = Inr t \<Longrightarrow> Priority (IntentOf t) = Priority (IntentOf s)"
  by (auto simp: set_objective_def bindG_eq_Inr)

lemma power_state_total:
  "\<exists>t. power_state names values s = Inr t \<and> Priority (IntentOf t) = Priority (IntentOf s)"
proof -
  obtain u where u: "set_data powerActionName (Some [(powerActionName, 1)]) (DeepCopy s) = Inr u" "writable u"
    "IntentOf u = IntentOf (DeepCopy s)"
    using set_data_writable [OF writable_DeepCopy] by blast
  have "\<exists>t. foldG (\<lambda>key. set_objective key (mget 0 values key)) names u = Inr t \<and>
      (writable t \<and> Priority (IntentOf t) = Priority (IntentOf u))"
  proof (rule foldG_total)
    fix k t
    assume t: "writable t \<and> Priority (IntentOf t) = Priority (IntentOf u)"
    then obtain t' where "set_objective k (mget 0 values k) t = Inr t'" "writable t'"
      using set_objective_writable [of t k "mget 0 values k"] by blast
    with t set_objective_priority show "\<exists>t'. set_objective k (mget 0 values k) t = Inr t' \<and>
        writable t' \<and> Priority (IntentOf t') = Priority (IntentOf u)" by fastforce
  qed (simp add: u)
  with u show ?thesis by (auto simp: power_state_def DeepCopy_def)
qed

definition power_proposal :: "State \<Rightarrow> State \<Rightarrow> float64 \<Rightarrow> Action \<Rightarrow> bool" where
  "power_proposal state c u a \<longleftrightarrow>
     Priority (IntentOf c) = Priority (IntentOf state) \<and> (u = 0 \<or> u = Priority (IntentOf state)) \<and>
     (\<exists>profile. a = power_action profile)"

definition known_profile :: "PowerActuatorConfig \<Rightarrow> power_scan \<Rightarrow> bool" where
  "known_profile cfg s \<longleftrightarrow> currentProfile s = ''None'' \<or> currentProfile s \<in> set (PowerProfiles cfg)"

lemma power_entry_known: "known_profile cfg s \<Longrightarrow> known_profile cfg (power_entry cfg tmp n v s)"
  unfolding power_entry_def known_profile_def Let_def
  by (auto dest: find_SomeD split: option.splits)

lemma scan_profile_known: "scan_profile cfg kvs s = Some t \<Longrightarrow> known_profile cfg s \<Longrightarrow> known_profile cfg t"
proof (induction kvs arbitrary: s)
  case (Cons kv kvs)
  obtain key v where kv: "kv = (key, v)" by (cases kv)
  show ?case
  proof (cases "length (split_on (CHR ''_'') key) = 3")
    case False
    with Cons kv show ?thesis by (simp add: Let_def)
  next
    case True
    then obtain n where "atoi (split_on (CHR ''_'') key ! 0) = Some n"
      using Cons.prems(1) kv by (cases "atoi (split_on (CHR ''_'') key ! 0)") (simp_all add: Let_def)
    with True Cons.prems(1) kv have "scan_profile cfg kvs
        (if lastCont s \<le> n then power_entry cfg (split_on (CHR ''_'') key) n v s else s) = Some t"
      by (simp add: Let_def)
    then show ?thesis by (rule Cons.IH) (use Cons.prems(2) power_entry_known in simp)
  qed
qed simp

lemma stepped_down_total:
  assumes "PowerProfiles cfg \<noteq> []" and "0 \<le> StepDown cfg"
  shows "\<exists>p. stepped_down cfg new = Inr p"
proof -
  have "slice_index (PowerProfiles cfg) new < int (length (PowerProfiles cfg))"
    using assms(1) by (auto simp: slice_index_def Let_def)
  then show ?thesis using assms by (auto simp: stepped_down_def Let_def nthG_def)
qed

lemma best_profile_spec:
  assumes "currentProfile s \<noteq> ''None'' \<longrightarrow> PowerProfiles cfg \<noteq> []" and "0 \<le> StepDown cfg"
  shows "\<exists>p. best_profile cfg state goal s names rer new values = Inr p \<and> each_proposal (power_proposal state) p"
proof -
  obtain t where t: "power_state names values state = Inr t" "Priority (IntentOf t) = Priority (IntentOf state)"
    using power_state_total by blast
  obtain t' where t': "power_state names (objectives goal) state = Inr t'"
    "Priority (IntentOf t') = Priority (IntentOf state)"
    using power_state_total by blast
  have none: "\<exists>p. Inr no_proposal = (Inr p :: proposal go) \<and> each_proposal (power_proposal state) p"
    by (intro exI [of _ no_proposal]) simp
  have one: "\<exists>p. Inr ([c], [u], [power_action n]) = (Inr p :: proposal go) \<and> each_proposal (power_proposal state) p"
    if "Priority (IntentOf c) = Priority (IntentOf state)" "u = 0 \<or> u = Priority (IntentOf state)" for c u n
    by (intro exI [of _ "([c], [u], [power_action n])"]) (use that in \<open>auto simp: power_proposal_def\<close>)
  show ?thesis
  proof (cases "currentProfile s = ''None''")
    case True
    then show ?thesis using t none one [OF t(2)] by (simp add: best_profile_def del: split_paired_Ex)
  next
    case False
    then obtain p where "stepped_down cfg new = Inr p" using stepped_down_total assms by blast
    with t t' none one [OF t(2)] one [OF t'(2)] show ?thesis by (simp add: best_profile_def del: split_paired_Ex)
  qed
qed

lemma power_candidates_spec:
  "\<exists>p. power_candidates state names opts = Inr p \<and> each_proposal (power_proposal state) p"
  unfolding power_candidates_def
proof (rule foldG_total [where P = "each_proposal (power_proposal state)"])
  fix e :: "string \<times> (string, float64) gomap" and p :: "State list \<times> float64 list \<times> Action list"
  assume p: "each_proposal (power_proposal state) p"
  obtain profile vals where e: "e = (profile, vals)" by (cases e)
  obtain cs us as where pp: "p = (cs, us, as)" by (cases p)
  obtain t where t: "power_state names vals state = Inr t" "Priority (IntentOf t) = Priority (IntentOf state)"
    using power_state_total by blast
  then have "power_proposal state t 0 (power_action profile)" by (auto simp: power_proposal_def)
  with p pp have "each_proposal (power_proposal state) (cs @ [t], us @ [0], as @ [power_action profile])"
    using each_proposal_snoc by blast
  then show "\<exists>q. (case e of (profile, values) \<Rightarrow> \<lambda>(states, utils, actions). bindG (power_state names values state)
      (\<lambda>newState. Inr (states @ [newState], utils @ [0], actions @ [power_action profile]))) p = Inr q \<and>
      each_proposal (power_proposal state) q"
    using t(1) by (intro exI [of _ "(cs @ [t], us @ [0], as @ [power_action profile])"]) (simp add: e pp)
qed simp

lemma power_NextState_spec:
  assumes env: "power_env cfg post" and step: "0 \<le> StepDown cfg"
  shows "\<exists>p. power_NextState cfg post state goal profiles = Inr p \<and> each_proposal (power_proposal state) p"
proof -
  have none: "\<exists>p. Inr no_proposal = (Inr p :: proposal go) \<and> each_proposal (power_proposal state) p"
    by (intro exI [of _ no_proposal]) simp
  let ?init = "\<lparr>currentProfile = ''None'', cpuAsk = - 1, cpuAllocated = - 1, lastCont = - 1\<rparr>"
  show ?thesis
  proof (cases "scan_profile cfg (entries (Resources state)) ?init")
    case None
    then have "power_NextState cfg post state goal profiles = Inr no_proposal" by (simp add: power_NextState_def)
    then show ?thesis using none by simp
  next
    case (Some s)
    have s: "currentProfile s \<noteq> ''None'' \<longrightarrow> PowerProfiles cfg \<noteq> []"
      using scan_profile_known [OF Some] by (auto simp: known_profile_def)
    obtain opts where opts: "findProfile cfg post (IntentKey (IntentOf state)) (power_objectives goal profiles)
        (objectives goal) (cpuAsk s) (only_power goal profiles) = Inr opts"
      using findProfile_total [OF env] by blast
    obtain new vals where hd: "hd (entries opts) = (new, vals)" by (cases "hd (entries opts)")
    have "power_NextState cfg post state goal profiles =
      (if mlookup (CurrentData state) powerActionName \<noteq> None \<or> mlen (CurrentPods state) < 1 \<or> \<not> power_guaranteed state
       then Inr no_proposal
       else if mlen opts = 1 then best_profile cfg state goal s (power_objectives goal profiles) (renewable_ratio state) new vals
       else if mlen opts > 1 \<and> RenewableLimit cfg \<le> renewable_ratio state
         then power_candidates state (power_objectives goal profiles) opts
       else Inr no_proposal)"
      using Some opts hd by (simp add: power_NextState_def Let_def)
    then show ?thesis
      using none best_profile_spec [OF s step] power_candidates_spec by presburger
  qed
qed

lemma power_proposal_ok:
  assumes "state_priority s" and "power_env cfg post \<and> 0 \<le> StepDown cfg"
  shows "proposal_ok state_priority (power_NextState cfg post s goal profiles)"
proof -
  obtain p where p: "power_NextState cfg post s goal profiles = Inr p" "each_proposal (power_proposal s) p"
    using power_NextState_spec assms(2) by blast
  have "each_proposal (\<lambda>c u a. state_priority c \<and> finite_float u \<and> 0 \<le> u) p"
    using p(2) by (rule each_proposal_mono) (use assms(1) in \<open>auto simp: power_proposal_def state_priority_def float_consts\<close>)
  with p(1) show ?thesis by (simp add: each_proposal_ok)
qed

interpretation power: actuator "power_NextState cfg post" state_priority
    "\<lambda>goal profiles. power_env cfg post \<and> 0 \<le> StepDown cfg" for cfg post
  by (rule actuatorI) (rule power_proposal_ok)

section \<open>What performing a plan does\<close>

definition requested_cpu :: "container \<Rightarrow> int64" where
  "requested_cpu cont = mget 0 (requests cont) ''cpu''"

definition with_profile ::
  "PowerActuatorConfig \<Rightarrow> string \<Rightarrow> int64 \<Rightarrow> (string, int64) gomap \<Rightarrow> (string, int64) gomap \<Rightarrow> bool" where
  \<comment> \<open>no configured profile is left but the chosen one, with the amount of CPU\<close>
  "with_profile cfg profile cpu m m' \<longleftrightarrow>
     (\<forall>n. mlookup m' n =
        (if profile \<noteq> ''None'' \<and> n = profile then Some cpu
         else if n \<in> set (PowerProfiles cfg) then None else mlookup m n))"

definition profiled :: "PowerActuatorConfig \<Rightarrow> string \<Rightarrow> container \<Rightarrow> container \<Rightarrow> bool" where
  "profiled cfg profile cont cont' \<longleftrightarrow>
     with_profile cfg profile (requested_cpu cont) (requests cont) (requests cont') \<and>
     with_profile cfg profile (requested_cpu cont) (limits cont) (limits cont')"

lemma mlookup_deletes: "mlookup (fold (\<lambda>k m. mdelete m k) ks m) n = (if n \<in> set ks then None else mlookup m n)"
  by (induction ks arbitrary: m) (auto simp: mlookup_mdelete)

lemma deletes_nil [simp]: "fold (\<lambda>k m. mdelete m k) ks m = None \<longleftrightarrow> m = None"
  by (induction ks arbitrary: m) auto

definition lacks_map :: "container \<Rightarrow> bool" where
  "lacks_map cont \<longleftrightarrow> requests cont = None \<or> limits cont = None"

lemma set_container_profile_spec:
  assumes "''cpu'' \<notin> set (PowerProfiles cfg)" and "profile \<noteq> ''cpu''"
  shows "if profile \<noteq> ''None'' \<and> lacks_map cont then set_container_profile cfg profile cont = Inl NilMapWrite
    else \<exists>cont'. set_container_profile cfg profile cont = Inr cont' \<and> profiled cfg profile cont cont'"
proof -
  define reqs where "reqs = fold (\<lambda>k m. mdelete m k) (PowerProfiles cfg) (requests cont)"
  define lims where "lims = fold (\<lambda>k m. mdelete m k) (PowerProfiles cfg) (limits cont)"
  have l: "mlookup reqs n = (if n \<in> set (PowerProfiles cfg) then None else mlookup (requests cont) n)"
    "mlookup lims n = (if n \<in> set (PowerProfiles cfg) then None else mlookup (limits cont) n)" for n
    by (simp_all add: reqs_def lims_def mlookup_deletes)
  have cpu: "mget 0 reqs ''cpu'' = requested_cpu cont" using assms(1) by (simp add: mget_def l requested_cpu_def)
  have nil: "reqs = None \<longleftrightarrow> requests cont = None" "lims = None \<longleftrightarrow> limits cont = None"
    by (simp_all add: reqs_def lims_def)
  have eq: "set_container_profile cfg profile cont =
     (if profile \<noteq> ''None'' then bindG (mput reqs profile (mget 0 reqs ''cpu'')) (\<lambda>r.
        bindG (mput lims profile (mget 0 r ''cpu'')) (\<lambda>l. Inr (cont\<lparr>requests := r, limits := l\<rparr>)))
      else Inr (cont\<lparr>requests := reqs, limits := lims\<rparr>))"
    by (simp add: set_container_profile_def reqs_def lims_def Let_def)
  show ?thesis
  proof (cases "profile = ''None''")
    case True
    then show ?thesis unfolding eq by (simp add: profiled_def with_profile_def l)
  next
    case set: False
    show ?thesis
    proof (cases "lacks_map cont")
      case True
      then show ?thesis unfolding eq using set nil
        by (cases reqs; cases lims) (auto simp: lacks_map_def)
    next
      case False
      then obtain rs ls where rl: "reqs = Some rs" "lims = Some ls" using nil by (auto simp: lacks_map_def)
      obtain r where r: "mput reqs profile (mget 0 reqs ''cpu'') = Inr r" using rl(1) by simp
      have rc: "mget 0 r ''cpu'' = requested_cpu cont"
        using mlookup_mput [OF r] assms(2) cpu by (simp add: mget_def)
      obtain k where k: "mput lims profile (requested_cpu cont) = Inr k" using rl(2) by simp
      have "profiled cfg profile cont (cont\<lparr>requests := r, limits := k\<rparr>)"
        using mlookup_mput [OF r] mlookup_mput [OF k] set by (simp add: profiled_def with_profile_def l cpu)
      then show ?thesis unfolding eq using set False r rc k by simp
    qed
  qed
qed

lemma set_profiles_spec:
  assumes "''cpu'' \<notin> set (PowerProfiles cfg)" and "profile \<noteq> ''cpu''"
  shows "if profile \<noteq> ''None'' \<and> list_ex lacks_map conts then set_profiles cfg profile conts = Inl NilMapWrite
    else \<exists>conts'. set_profiles cfg profile conts = Inr conts' \<and> list_all2 (profiled cfg profile) conts conts'"
proof (induction conts)
  case (Cons cont conts)
  then show ?case
    using set_container_profile_spec [OF assms, of cont] by (auto split: if_splits)
qed simp

text \<open>
  C40. Performing a power plan on a deployment replaces all configured profiles in the requests and the
  limits of every container by the chosen one, in the amount of the requested CPU, or removes them all
  for the profile None; but where some container has no requests or no limits at all, a plan with a
  profile ends in a panic of the plugin, because it writes to a nil map.
\<close>
theorem power_performs:
  assumes "chosen_profile plan = Inr (Some profile)" and "TargetKind (IntentOf state) = ''Deployment''"
    and "split_on (CHR ''/'') (TargetKey (IntentOf state)) = ns # name # rest"
    and "Get Deployment (ns, name) c = Some w" and "outcomes c = [] \<or> hd (outcomes c) = Accepted"
    and "''cpu'' \<notin> set (PowerProfiles cfg)" and "profile \<noteq> ''cpu''"
  shows "if profile \<noteq> ''None'' \<and> list_ex lacks_map (template_containers w)
    then power_Perform cfg state plan c = Inl NilMapWrite
    else \<exists>c' conts. power_Perform cfg state plan c = Inr c' \<and>
      Get Deployment (ns, name) c' = Some (w\<lparr>template_containers := conts\<rparr>) \<and>
      list_all2 (profiled cfg profile) (template_containers w) conts"
proof -
  have eq: "power_Perform cfg state plan c =
      bindG (set_profiles cfg profile (template_containers w)) (\<lambda>conts.
        Inr (fst (Update Deployment (ns, name) (w\<lparr>template_containers := conts\<rparr>) c)))"
    using assms(1-4) by (simp add: power_Perform_def nthG_def)
  have "Get Deployment (ns, name) (fst (Update Deployment (ns, name) w' c)) = Some w'" for w'
    using Update_accepted [OF assms(5)] by simp
  then show ?thesis
    unfolding eq using set_profiles_spec [OF assms(6,7), of "template_containers w"]
    by (auto split: if_splits)
qed

definition power_cfg :: PowerActuatorConfig where
  "power_cfg = \<lparr>PluginEndpoint = ''power'', PluginPort = 33337, ManagerEndpoint = ''ido'', ManagerPort = 33333, Mongo = '''',
     pow_Interpreter = ''python3'', PowerProfiles = [''power.intel.com/performance''], pow_Prediction = ''predict.py'',
     pow_Analytics = ''analyze.py'', ProactiveCandidates = False, RenewableLimit = 50, StepDown = 1\<rparr>"

definition power_cluster :: "(string, int64) gomap \<Rightarrow> cluster" where
  "power_cluster lims = store Deployment (''ns'', ''app'')
     \<lparr>replicas = Some 1, selector = None, template_annotations = None,
      template_containers = [\<lparr>requests = Some [(''cpu'', 2000)], limits = lims\<rparr>]\<rparr> (busy_cluster\<lparr>outcomes := []\<rparr>)"

theorem power_performs_witness:
  "power_Perform power_cfg (busy_state 20) [power_action ''power.intel.com/performance''] (power_cluster None) = Inl NilMapWrite \<and>
   (\<exists>c' conts. power_Perform power_cfg (busy_state 20) [power_action ''power.intel.com/performance'']
      (power_cluster (Some [(''cpu'', 2000)])) = Inr c' \<and>
      map_option template_containers (Get Deployment (''ns'', ''app'') c') = Some conts \<and>
      map (\<lambda>cont. mlookup (limits cont) ''power.intel.com/performance'') conts = [Some 2000])"
proof -
  let ?p = "''power.intel.com/performance''"
  let ?w = "\<lambda>lims. \<lparr>replicas = Some 1, selector = None, template_annotations = None,
      template_containers = [\<lparr>requests = Some [(''cpu'', 2000)], limits = lims\<rparr>]\<rparr>"
  have chosen: "chosen_profile [power_action ?p] = Inr (Some ?p)" by (simp add: power_action_def mget_def)
  have state: "TargetKind (IntentOf (busy_state 20)) = ''Deployment''"
    "split_on (CHR ''/'') (TargetKey (IntentOf (busy_state 20))) = ''ns'' # ''app'' # []"
    by (simp_all add: busy_state_def)
  have get: "Get Deployment (''ns'', ''app'') (power_cluster lims) = Some (?w lims)" for lims
    by (simp add: power_cluster_def)
  have out: "outcomes (power_cluster lims) = [] \<or> hd (outcomes (power_cluster lims)) = Accepted" for lims
    by (simp add: power_cluster_def)
  have cpu: "''cpu'' \<notin> set (PowerProfiles power_cfg)" "?p \<noteq> ''cpu''" by (simp_all add: power_cfg_def)
  note perform = power_performs [OF chosen state get out cpu]
  have "power_Perform power_cfg (busy_state 20) [power_action ?p] (power_cluster None) = Inl NilMapWrite"
    using perform [of None] by (simp add: lacks_map_def)
  moreover obtain c' conts where c': "power_Perform power_cfg (busy_state 20) [power_action ?p] (power_cluster (Some [(''cpu'', 2000)])) = Inr c'"
    "Get Deployment (''ns'', ''app'') c' = Some ((?w (Some [(''cpu'', 2000)]))\<lparr>template_containers := conts\<rparr>)"
    "list_all2 (profiled power_cfg ?p) [\<lparr>requests = Some [(''cpu'', 2000)], limits = Some [(''cpu'', 2000)]\<rparr>] conts"
    using perform [of "Some [(''cpu'', 2000)]"] by (auto simp: lacks_map_def)
  moreover have "map (\<lambda>cont. mlookup (limits cont) ?p) conts = [Some 2000]"
    using c'(3) by (auto simp: list_all2_Cons1 profiled_def with_profile_def requested_cpu_def mget_def)
  ultimately show ?thesis by (intro conjI exI [of _ c'] exI [of _ conts]) simp_all
qed

end
