(* ===== verification/Frames.thy ===== *)
theory Frames
  imports Rm_Pod Cpu_Scale Rdt Power_Profiles
begin

text \<open>
  What no actuator changes of a state, so that the invariants of all actuators hold
  together in one planning run: the priority of the intent, and the shape of the
  resource keys.  A partial correctness statement on a computation that may panic
  is \<open>yields\<close>; its rules go through a loop like the rules of a Hoare logic.
\<close>

section \<open>Results\<close>

definition yields :: "'a go \<Rightarrow> ('a \<Rightarrow> bool) \<Rightarrow> bool" where
  "yields m P \<longleftrightarrow> (\<forall>x. m = Inr x \<longrightarrow> P x)"

lemma yields_simps [simp]: "yields (Inr x) P = P x" "yields (Inl e) P"
  by (auto simp: yields_def)

lemma yields_bind: "yields m (\<lambda>x. yields (f x) P) \<Longrightarrow> yields (bindG m f) P"
  by (cases m) (auto simp: yields_def)

lemma yields_mono: "yields m P \<Longrightarrow> (\<And>x. P x \<Longrightarrow> Q x) \<Longrightarrow> yields m Q"
  by (auto simp: yields_def)

lemma yields_seq: "yields m Q \<Longrightarrow> (\<And>x. Q x \<Longrightarrow> yields (f x) P) \<Longrightarrow> yields (bindG m f) P"
  by (rule yields_bind) (rule yields_mono)

lemma yields_any: "(\<And>x. yields (f x) P) \<Longrightarrow> yields (bindG m f) P"
  by (cases m) simp_all

lemma yields_foldG:
  "(\<And>x s. x \<in> set xs \<Longrightarrow> I s \<Longrightarrow> yields (f x s) I) \<Longrightarrow> I s \<Longrightarrow> yields (foldG f xs s) I"
  unfolding yields_def by (blast intro: foldG_invariant [where P = I])

section \<open>The frame\<close>

abbreviation may_write :: "string set \<Rightarrow> State \<Rightarrow> string set" where
  \<comment> \<open>the objectives of the state, and given ones\<close>
  "may_write K s \<equiv> set (mkeys (objectives s)) \<union> K"

definition framed :: "string set \<Rightarrow> State \<Rightarrow> State \<Rightarrow> bool" where
  "framed K s t \<longleftrightarrow> Priority (IntentOf t) = Priority (IntentOf s) \<and> (keys_ok s \<longrightarrow> keys_ok t) \<and>
     set (mkeys (objectives t)) \<subseteq> may_write K s"

lemma framed_refl [simp]: "framed K s s"
  by (simp add: framed_def)

lemma framed_trans: "framed K s t \<Longrightarrow> framed K t u \<Longrightarrow> framed K s u"
  by (auto simp: framed_def)

lemma framed_fields:
  "Priority (IntentOf t) = Priority (IntentOf s) \<Longrightarrow> Resources t = Resources s \<Longrightarrow>
     Objectives (IntentOf t) = Objectives (IntentOf s) \<Longrightarrow> framed K s t"
  by (simp add: framed_def keys_ok_def)

lemma framed_DeepCopy: "framed K s t \<Longrightarrow> framed K s (DeepCopy t)"
  by (rule framed_trans, assumption)
    (cases "Resources t"; cases "objectives t"; simp add: framed_def keys_ok_def DeepCopy_def copy_map_def)

lemma entries_keys: "fst ` set (entries m) = set (mkeys m)"
  by (simp add: mkeys_def)

lemma framed_keys: "framed K s t \<Longrightarrow> k \<in> set (mkeys (objectives t)) \<Longrightarrow> k \<in> may_write K s"
  by (auto simp: framed_def)

lemma frame_objective:
  \<comment> \<open>an objective that may be written is written\<close>
  assumes "framed K s t" and "k \<in> may_write K s"
  shows "yields (set_objective k v t) (framed K s)"
  using assms mkeys_mput by (fastforce simp: yields_def set_objective_def bindG_eq_Inr framed_def keys_ok_def)

lemma frame_writes:
  assumes "framed K s t"
  shows "yields (set_pod k v t) (framed K s)" "yields (set_data k' v' t) (framed K s)"
  using assms
  by (auto simp: yields_def set_pod_def set_data_def bindG_eq_Inr intro!: framed_trans [OF assms] framed_fields)

lemma frame_dummy: "framed K s t \<Longrightarrow> yields (add_dummy name t) (framed K s)"
  unfolding add_dummy_def by (rule frame_writes(1))

lemma frame_resource:
  assumes "framed K s t" and "3 \<le> length (split_on (CHR ''_'') k)"
  shows "yields (set_resource k v t) (framed K s)"
proof (rule framed_trans [OF assms(1), THEN yields_mono [rotated]])
  show "yields (set_resource k v t) (framed K t)"
    using assms(2) mkeys_mput
    by (fastforce simp: yields_def set_resource_def bindG_eq_Inr framed_def keys_ok_def)
qed

definition framed_option :: "string set \<Rightarrow> State \<Rightarrow> (State \<times> 'a) option \<Rightarrow> bool" where
  "framed_option K s r \<longleftrightarrow> (\<forall>t x. r = Some (t, x) \<longrightarrow> framed K s t)"

lemma framed_option_simps [simp]: "framed_option K s None" "framed_option K s (Some (t, x)) = framed K s t"
  by (auto simp: framed_option_def)

abbreviation all_framed :: "string set \<Rightarrow> State \<Rightarrow> proposal \<Rightarrow> bool" where
  "all_framed K s p \<equiv> list_all (framed K s) (fst p)"

lemma all_framed_none [simp]: "all_framed K s no_proposal"
  by (simp add: no_proposal_def)

definition respects_frame :: "next_state \<Rightarrow> bool" where
  "respects_frame act \<longleftrightarrow> (\<forall>s goal ps. yields (act s goal ps) (all_framed (set (mkeys (objectives goal))) s))"

section \<open>Scaling\<close>

lemma frame_predict:
  "framed K s t \<Longrightarrow> set ks \<subseteq> may_write K s \<Longrightarrow>
     yields (predict_objectives cfg effects state goal tput ps ks (t, b)) (framed_option K s)"
proof (induction ks arbitrary: t b)
  case (Cons k ks)
  then show ?case
    by (cases "effects (IntentKey (IntentOf state)) scalingGroupName k (so_LookBack cfg)")
      (auto intro!: yields_seq [OF frame_objective])
qed simp

lemma frame_scale_loop:
  "framed K state lastState \<Longrightarrow> all_framed K state p \<Longrightarrow>
   yields (scale_loop cfg effects state goal tput ps i lastState p) (\<lambda>r. \<forall>q. r = Some q \<longrightarrow> all_framed K state q)"
proof (induction cfg effects state goal tput ps i lastState p rule: scale_loop.induct)
  case (1 cfg effects state goal tput ps i lastState cs us as)
  show ?case
  proof (cases "i < MaxPods cfg")
    case False
    with "1.prems" show ?thesis by (simp add: scale_loop.simps)
  next
    case True
    show ?thesis
      unfolding scale_loop.simps [of cfg effects state goal tput ps i lastState] if_P [OF True]
    proof (rule yields_seq)
      show "yields (add_dummy (''dummy@'' @ itoa i) (DeepCopy lastState)) (\<lambda>n. framed K state n \<and> add_dummy (''dummy@'' @ itoa i) (DeepCopy lastState) = Inr n)"
        using frame_dummy [OF framed_DeepCopy [OF "1.prems"(1)]] by (auto simp: yields_def)
      fix n
      assume n: "framed K state n \<and> add_dummy (''dummy@'' @ itoa i) (DeepCopy lastState) = Inr n"
      show "yields (bindG (predict_objectives cfg effects state goal tput ps (mkeys (objectives state)) (n, False))
          (\<lambda>r. case r of None \<Rightarrow> Inr None
           | Some (newState, found) \<Rightarrow>
              let found_so_far =
                (if found then (cs @ [newState], us @ [scale_utility cfg goal newState], as @ [scale_action state newState])
                 else (cs, us, as))
              in if IsBetter newState goal ps then Inr (Some found_so_far)
                 else scale_loop cfg effects state goal tput ps (i + 1) newState found_so_far))
          (\<lambda>r. \<forall>q. r = Some q \<longrightarrow> all_framed K state q)" (is "yields (bindG ?m ?f) _")
      proof (rule yields_seq)
        show "yields ?m (\<lambda>r. framed_option K state r \<and> ?m = Inr r)"
          using frame_predict [of K state n "mkeys (objectives state)" cfg effects state goal tput ps False] n by (auto simp: yields_def)
        fix r
        assume r: "framed_option K state r \<and> ?m = Inr r"
        show "yields (?f r) (\<lambda>r. \<forall>q. r = Some q \<longrightarrow> all_framed K state q)"
        proof (cases r)
          case None
          then show ?thesis by simp
        next
          case (Some nf)
          obtain n2 b where nb: "nf = (n2, b)" by (cases nf)
          define q where "q = (if b then (cs @ [n2], us @ [scale_utility cfg goal n2], as @ [scale_action state n2])
            else (cs, us, as))"
          have f2: "framed K state n2" using r Some nb by simp
          then have q: "all_framed K state q" using "1.prems"(2) by (simp add: q_def)
          show ?thesis
          proof (cases "IsBetter n2 goal ps")
            case True
            with Some nb q show ?thesis by (cases b) (simp_all add: q_def)
          next
            case False
            from "1.IH" [OF \<open>i < MaxPods cfg\<close> conjunct2 [OF n] conjunct2 [OF r] Some nb [symmetric] q_def False f2 q] False Some nb
            show ?thesis by (simp add: q_def)
          qed
        qed
      qed
    qed
  qed
qed

lemma scaleOut_frame: "respects_frame (scaleOut_NextState cfg effects)"
  unfolding respects_frame_def
proof (intro allI)
  fix s goal ps
  let ?K = "set (mkeys (objectives goal))"
  have latency: "yields (foldG (proactive_latency cfg ps) ks t) (framed ?K s)" if "framed ?K s t" "set ks \<subseteq> may_write ?K s" for ks t
    by (rule yields_foldG [where I = "framed ?K s"]) (use that in \<open>auto simp: proactive_latency_def intro!: frame_objective\<close>)
  have pro: "yields (proactive_scale_out cfg s ps) (all_framed ?K s)"
    unfolding proactive_scale_out_def
    by (auto intro!: yields_seq [OF frame_dummy [OF framed_DeepCopy [OF framed_refl]]] yields_seq [OF latency]
        dest: framed_keys)
  have find: "yields (scaleOut_findStates cfg effects s goal (throughput_objective s ps) ps)
      (\<lambda>r. \<forall>q. r = Some q \<longrightarrow> all_framed ?K s q)"
    unfolding scaleOut_findStates_def
    by (rule yields_seq [OF frame_scale_loop]) (auto split: option.split)
  show "yields (scaleOut_NextState cfg effects s goal ps) (all_framed ?K s)"
    unfolding scaleOut_NextState_def Let_def
    using pro by (auto intro!: yields_seq [OF find] split: option.split)
qed

section \<open>Removal of pods\<close>

lemma frame_without: "framed K s (without_pod s name)"
  by (rule framed_trans [OF framed_DeepCopy [OF framed_refl]]) (simp add: without_pod_def Let_def framed_fields)

lemma frame_rm_objectives:
  "framed K s t \<Longrightarrow> set ks \<subseteq> may_write K s \<Longrightarrow>
     yields (rm_objectives cfg effects state tput ps ks (t, u)) (framed_option K s)"
proof (induction ks arbitrary: t u)
  case (Cons k ks)
  then show ?case
    by (cases "effects (IntentKey (IntentOf state)) scalingGroupName k (rm_LookBack cfg)")
      (auto intro!: yields_seq [OF frame_objective])
qed simp

lemma frame_rm_loop:
  "all_framed K state p \<Longrightarrow> yields (rm_loop cfg effects state goal tput ps pods p) (all_framed K state)"
proof (induction pods arbitrary: p)
  case (Cons pod pods)
  obtain cs us as where p: "p = (cs, us, as)" by (cases p)
  have cs: "list_all (framed K state) cs" using Cons.prems p by simp
  then have ih: "yields (rm_loop cfg effects state goal tput ps pods
        (if MinPods cfg \<le> int (mlen (CurrentPods n)) then (cs @ [n], us', as') else (cs, us, as))) (all_framed K state)"
    if "framed K state n" for n us' as'
    using that by (intro Cons.IH) simp
  show ?case
    using Cons.IH Cons.prems ih cs
    by (auto simp: p framed_option_def intro!: yields_seq [OF frame_rm_objectives [where K = K, OF frame_without]] split: option.split)
qed simp

lemma rmPod_frame: "respects_frame (rmPod_NextState cfg effects)"
  unfolding respects_frame_def by (simp add: rmPod_NextState_def Let_def frame_rm_loop)

section \<open>CPU\<close>

lemma frame_popt:
  "framed K s t \<Longrightarrow> k \<in> may_write K s \<Longrightarrow> yields (popt_loop cfg goal k popts t) (\<lambda>(u, _). framed K s u)"
proof (induction popts arbitrary: t)
  case (Cons popt popts)
  obtain p0 p1 p2 where p: "popt = (p0, p1, p2)" by (cases popt)
  have "yields (bindG (roundUpCores v (CPURounding cfg)) (\<lambda>c. Inr (u, c))) (\<lambda>(u, _). framed K s u)" if "framed K s u" for u v
    by (rule yields_seq [where Q = "\<lambda>_. True"]) (use that in \<open>simp_all add: yields_def\<close>)
  with Cons show ?case by (auto simp: p Let_def intro!: yields_seq [OF frame_objective])
qed simp

lemma cpu_key_parts: "s \<in> {''requests'', ''limits''} \<Longrightarrow> 3 \<le> length (split_on (CHR ''_'') (cpu_key i s))"
  by (auto simp: cpu_key_def length_split_on)

lemma frame_write_cpu: "framed K s t \<Longrightarrow> yields (write_cpu cfg i v t) (framed K s)"
  unfolding write_cpu_def
  by (rule yields_seq [OF frame_resource]) (auto intro!: frame_resource cpu_key_parts)

lemma frame_cpu_state:
  assumes "framed K s t" and "set ks \<subseteq> may_write K s"
  shows "yields (cpu_state cfg ks latency i v t) (framed K s)"
  unfolding cpu_state_def
proof (rule yields_seq)
  show "yields (foldG (\<lambda>k. set_objective k latency) ks t) (framed K s)"
    by (rule yields_foldG) (use assms in \<open>auto intro!: frame_objective\<close>)
  fix t'
  assume t': "framed K s t'"
  let ?u = "t'\<lparr>CurrentPods := with_qos (qos_class cfg) (CurrentPods t')\<rparr>"
  let ?w = "if Resources ?u = None then ?u\<lparr>Resources := mmake\<rparr> else ?u"
  have "framed K t' ?w" by (simp add: framed_def keys_ok_def mmake_def mkeys_def)
  then have w: "framed K s ?w" by (rule framed_trans [OF t'])
  show "yields (let newState = ?u; newState = (if Resources newState = None then newState\<lparr>Resources := mmake\<rparr> else newState)
      in bindG (write_cpu cfg i v newState) (set_data cpuActionName (Some [(cpuActionName, 1)]))) (framed K s)"
    unfolding Let_def by (rule yields_seq [OF frame_write_cpu [OF w]]) (rule frame_writes(2))
qed

lemma scaling_keys:
  "getScalingEffects cfg effects i ps keys result = Some effs \<Longrightarrow> set (map fst effs) \<subseteq> set keys \<union> set (map fst result)"
proof (induction keys arbitrary: result)
  case (Cons key keys)
  show ?case
  proof (cases "is_latency ps key")
    case False
    with Cons.prems Cons.IH [of result] have "set (map fst effs) \<subseteq> set keys \<union> set (map fst result)" by simp
    then show ?thesis by auto
  next
    case True
    then obtain e where "getScalingEffects cfg effects i ps keys (AList.update key e result) = Some effs"
      using Cons.prems by (auto split: option.splits)
    from Cons.IH [OF this] show ?thesis by (auto simp: AList.update_keys split: if_splits)
  qed
qed simp

lemma frame_cpu_objective:
  assumes "all_framed K state p" and "k \<in> may_write K state"
    and "set (map fst effs) \<subseteq> may_write K state"
  shows "yields (cpu_objective cfg effs state goal cur i ps k p) (all_framed K state)"
proof -
  obtain cs us as where p: "p = (cs, us, as)" by (cases p)
  have "yields (bindG (popt_loop cfg goal k (Popts eff) (DeepCopy state)) (\<lambda>(newState, newCPUValue).
      if newCPUValue \<noteq> cur \<and> less_s 0 newCPUValue then
        bindG (cpu_state cfg (map fst effs) latency i newCPUValue newState) (\<lambda>newState.
          Inr (cs @ [newState], us @ [cpu_utility cfg goal cur newCPUValue], as @ [cpu_action newCPUValue]))
      else Inr (cs, us, as))) (all_framed K state)" for eff latency
    by (rule yields_seq [OF frame_popt [OF framed_DeepCopy [OF framed_refl]]])
      (use assms p in \<open>auto intro!: yields_seq [OF frame_cpu_state [OF _ assms(3)]]\<close>)
  with assms p show ?thesis by (auto simp: cpu_objective_def Let_def split: option.split)
qed

lemma frame_proactive_loop:
  "framed K s t \<Longrightarrow> fst ` set objs \<subseteq> may_write K s \<Longrightarrow>
     yields (proactive_loop cfg rnd goal cur ps objs (t, cap)) (framed_option K s)"
proof (induction objs arbitrary: t cap)
  case (Cons kv objs)
  obtain name v where kv: "kv = (name, v)" by (cases kv)
  have "yields (bindG (set_objective name x t) (\<lambda>u. proactive_loop cfg rnd goal cur ps objs (u, l))) (framed_option K s)" for x l
    by (rule yields_seq [OF frame_objective [OF Cons.prems(1)]]) (use Cons kv in simp_all)
  then show ?case
    unfolding kv by (auto simp: Let_def Cons.IH [OF Cons.prems(1)] Cons.prems(2) [unfolded kv, simplified] intro!: yields_seq [where Q = "\<lambda>_. True"]) (simp_all add: yields_def)
qed simp

lemma frame_proactive: "yields (proactiveScaling cfg rnd state goal cur ps) (all_framed K state)"
proof -
  have "yields (bindG (proactive_loop cfg rnd goal cur ps (entries (objectives t)) (t, 0)) (\<lambda>r.
      case r of None \<Rightarrow> Inr no_proposal
      | Some (tempState, newCPULim) \<Rightarrow>
          if newCPULim \<noteq> cur then Inr ([tempState], [Fin (1 / 10)], [proactive_cpu_action newCPULim])
          else Inr no_proposal)) (all_framed K state)" if "framed K state t" for t
    by (rule yields_seq [OF frame_proactive_loop [OF that]])
      (auto simp: entries_keys dest: framed_keys [OF that] split: option.split)
  then show ?thesis
    unfolding proactiveScaling_def
    by (auto intro!: yields_seq [OF frame_dummy [OF framed_DeepCopy [OF framed_refl]]] yields_seq [OF frame_writes(2)])
qed

lemma cpu_frame: "respects_frame (cpu_NextState cfg knowledge rnd)"
  unfolding respects_frame_def
proof (intro allI)
  fix s goal ps
  let ?K = "set (mkeys (objectives goal))"
  obtain cur i where vals: "getResourceValues s = (cur, i)" by (cases "getResourceValues s")
  have keys: "set (map fst effs) \<subseteq> may_write ?K s"
    if "getScalingEffects cfg knowledge (IntentOf s) ps (mkeys (objectives s)) [] = Some effs" for effs
    using scaling_keys [OF that] by auto
  have found: "yields (cpu_findStates cfg knowledge s goal cur i ps) (\<lambda>r. \<forall>q. r = Some q \<longrightarrow> all_framed ?K s q)"
    unfolding cpu_findStates_def
    by (auto split: option.split intro!: yields_seq [where Q = "all_framed ?K s"] yields_foldG
        frame_cpu_objective [OF _ _ keys])
  have pro: "yields (if less_s 0 (MaxProActiveCPU cfg) then proactiveScaling cfg rnd s goal cur ps else Inr no_proposal) (all_framed ?K s)"
    by (simp add: frame_proactive)
  show "yields (cpu_NextState cfg knowledge rnd s goal ps) (all_framed ?K s)"
    unfolding cpu_NextState_def vals prod.case Let_def
    using pro by (auto intro!: yields_seq [OF found] split: option.split)
qed

section \<open>RDT and power profiles\<close>

definition untouched :: "string set \<Rightarrow> State \<Rightarrow> State \<Rightarrow> bool" where
  \<comment> \<open>the frame, and the pods are those of the state\<close>
  "untouched K s t \<longleftrightarrow> framed K s t \<and> CurrentPods t = CurrentPods (DeepCopy s)"

lemma untouched_copy: "untouched K s (DeepCopy s)"
  by (simp add: untouched_def framed_DeepCopy)

lemma untouched_frame: "untouched K s t \<Longrightarrow> framed K s t" "untouched K s t \<Longrightarrow> pods_ok s \<Longrightarrow> pods_ok t"
  using pods_ok_cong [of t "DeepCopy s"] by (simp_all add: untouched_def)

lemma untouched_objective:
  "untouched K s t \<Longrightarrow> k \<in> may_write K s \<Longrightarrow> yields (set_objective k v t) (untouched K s)"
  using frame_objective [of K s t k v] by (auto simp: untouched_def yields_def set_objective_def bindG_eq_Inr)

lemma untouched_data: "untouched K s t \<Longrightarrow> yields (set_data k v t) (untouched K s)"
  using frame_writes(2) [of K s t k v] by (auto simp: untouched_def yields_def set_data_def bindG_eq_Inr)

lemma untouched_visited: "untouched K s t \<Longrightarrow> yields (mark_visited t) (untouched K s)"
  by (auto simp: untouched_def yields_def mark_visited_def bindG_eq_Inr framed_def keys_ok_def split: if_splits)

definition typed_action :: "Action \<Rightarrow> bool" where
  \<comment> \<open>the properties have the type the actuator named by the action asserts\<close>
  "typed_action a \<longleftrightarrow>
     int_properties scaleOutActionName a \<and> int_properties cpuActionName a \<and>
     str_properties rmPodActionName a \<and> str_properties rdtActionName a \<and> str_properties powerActionName a"

lemmas action_names = scaleOutActionName_def cpuActionName_def rmPodActionName_def rdtActionName_def
  powerActionName_def
lemmas typed_defs = typed_action_def int_properties_def str_properties_def action_names

lemma typed_actions [simp]:
  "typed_action (scale_action s t)" "typed_action proactive_scale_action" "typed_action (rm_action name)"
  "typed_action (cpu_action v)" "typed_action (proactive_cpu_action v)"
  "typed_action (rdt_action opt)" "typed_action (power_action profile)"
  by (simp_all add: typed_defs scale_action_def proactive_scale_action_def rm_action_def cpu_action_def
      proactive_cpu_action_def rdt_action_def power_action_def)

abbreviation all_untouched :: "string set \<Rightarrow> State \<Rightarrow> proposal \<Rightarrow> bool" where
  "all_untouched K s p \<equiv> list_all (untouched K s) (fst p) \<and> list_all typed_action (snd (snd p))"

lemma all_untouched_none [simp]: "all_untouched K s no_proposal"
  by (simp add: no_proposal_def)

lemma untouched_rdt_objectives:
  "untouched K start t \<Longrightarrow> set ks \<subseteq> may_write K start \<Longrightarrow>
     yields (rdt_objectives post st goal ps option ks (t, acc)) (\<lambda>(u, _). untouched K start u)"
proof (induction ks arbitrary: t acc)
  case (Cons k ks)
  have k: "k \<in> may_write K start" and ih: "\<And>u a. untouched K start u \<Longrightarrow>
      yields (rdt_objectives post st goal ps option ks (u, a)) (\<lambda>(u, _). untouched K start u)"
    using Cons by simp_all
  have "yields (bindG (set_objective k v t) (\<lambda>u. rdt_objectives post st goal ps option ks (u, f u)))
      (\<lambda>(u, _). untouched K start u)" for v f
    by (rule yields_seq [OF untouched_objective [OF Cons.prems(1) k]]) (rule ih)
  then show ?case
    using ih [OF Cons.prems(1)] Cons.prems(1) by (auto simp: Let_def intro!: yields_any)
qed simp

lemma untouched_rdt_options:
  "all_untouched K start p \<Longrightarrow> yields (rdt_options post start goal ps cur opts p) (all_untouched K start)"
proof (induction opts arbitrary: p)
  case (Cons option opts)
  obtain cs us as where p: "p = (cs, us, as)" by (cases p)
  have cs: "list_all (untouched K start) cs" "list_all typed_action as" using Cons.prems p by simp_all
  let ?init = "\<lparr>tempSum = 0, tempPredSum = 0, is_candidate = False, was_found = True\<rparr>"
  let ?ks = "mkeys (objectives (DeepCopy start))"
  have found: "yields (rdt_objectives post start goal ps option ?ks (DeepCopy start, ?init)) (\<lambda>(u, _). untouched K start u)"
    by (rule untouched_rdt_objectives [OF untouched_copy]) (auto dest: framed_keys [OF framed_DeepCopy [OF framed_refl]])
  have visit: "yields (bindG (mark_visited u) (\<lambda>u.
      let acc = (if option \<noteq> cur then (cs @ [u], us @ [rdt_utility goal s], as @ [rdt_action option]) else (cs, us, as))
      in if IsBetter u goal ps then Inr acc else rdt_options post start goal ps cur opts acc)) (all_untouched K start)"
    if "untouched K start u" for u s
    by (rule yields_seq [OF untouched_visited [OF that]]) (use cs Cons.IH in \<open>simp add: Let_def\<close>)
  show ?case
    unfolding p rdt_options.simps
    by (rule yields_seq [OF found]) (use visit cs Cons.IH in \<open>auto split: prod.split\<close>)
qed simp

lemma rdt_untouched: "yields (rdt_NextState cfg post s goal ps) (all_untouched K s)"
  by (simp add: rdt_NextState_def Let_def rdt_findStates_def untouched_rdt_options)

lemma untouched_power_state: "set names \<subseteq> may_write K s \<Longrightarrow> yields (power_state names vals s) (untouched K s)"
  unfolding power_state_def
  by (rule yields_seq [OF untouched_data [OF untouched_copy]]) (rule yields_foldG, auto intro: untouched_objective)

lemma power_objectives_keys: "set (power_objectives goal ps) \<subseteq> may_write (set (mkeys (objectives goal))) s"
  by (auto simp: power_objectives_def)

lemma untouched_candidates:
  assumes "set names \<subseteq> may_write K state"
  shows "yields (power_candidates state names opts) (all_untouched K state)"
  unfolding power_candidates_def
  by (rule yields_foldG) (auto intro!: yields_seq [OF untouched_power_state [OF assms]])

lemma untouched_best:
  assumes "set names \<subseteq> may_write K state"
  shows "yields (best_profile cfg state goal s names rer new vals) (all_untouched K state)"
proof -
  have "yields (bindG (power_state names v state) f) (all_untouched K state)"
    if "\<And>u. untouched K state u \<Longrightarrow> yields (f u) (all_untouched K state)" for v f
    by (rule yields_seq [OF untouched_power_state [OF assms]]) (rule that)
  then show ?thesis by (simp add: best_profile_def yields_any)
qed

lemma power_untouched:
  "yields (power_NextState cfg post state goal ps) (all_untouched (set (mkeys (objectives goal))) state)"
proof -
  let ?K = "set (mkeys (objectives goal))"
  let ?names = "power_objectives goal ps"
  note may = power_objectives_keys [of goal ps state]
  have "yields (if mlen forecast = 1 then
          (case hd (entries forecast) of (newProfile, values) \<Rightarrow> best_profile cfg state goal s ?names rer newProfile values)
        else if mlen forecast > 1 \<and> RenewableLimit cfg \<le> rer then power_candidates state ?names forecast
        else Inr no_proposal) (all_untouched ?K state)" for forecast s rer
    using untouched_best [OF may] untouched_candidates [OF may] by (cases "hd (entries forecast)") simp
  then show ?thesis
    unfolding power_NextState_def Let_def
    by (simp add: yields_any split: option.split)
qed

end
