(* ===== verification/Composition.thy ===== *)
theory Composition
  imports AStar_Planner Frames Plugin_Stubs
begin

text \<open>
  The planner, the actuators and the stubs between them together.  \<open>deployed\<close> are the
  actuators a planner can be given: those of the repository, and any of them behind a
  client stub and a plugin stub.  All keep one joint contract, so that what the planner
  guarantees for actuators under a contract holds for each mix of them.
\<close>

section \<open>The joint contract\<close>

definition joint_ok :: "string set \<Rightarrow> State \<Rightarrow> bool" where
  \<comment> \<open>the objectives are among those of a set\<close>
  "joint_ok K s \<longleftrightarrow> pods_ok s \<and> keys_ok s \<and> state_priority s \<and> knows_objectives K s"

definition joint_env :: "string set \<Rightarrow> State \<Rightarrow> profiles \<Rightarrow> bool" where
  \<comment> \<open>the priority is positive, and so are the targets for the latencies among the objectives\<close>
  "joint_env K goal profiles \<longleftrightarrow>
     positive_priority goal profiles \<and> knows_objectives K goal \<and>
     (\<forall>k \<in> K. is_latency profiles k \<longrightarrow> (\<exists>x. mget 0 (objectives goal) k = Fin x \<and> 0 < x))"

definition predictions_ok :: "(RdtRequest \<Rightarrow> prediction_reply) \<Rightarrow> bool" where
  \<comment> \<open>the service answers no number that is negative, but for the -1 of a failure\<close>
  "predictions_ok post \<longleftrightarrow>
     (\<forall>r. feq (rdt_doQuery post r) (- 1) \<or> (\<exists>x. rdt_doQuery post r = Fin x \<and> 0 \<le> x))"

lemma rdt_env_joint: "joint_env K goal ps \<Longrightarrow> predictions_ok post \<Longrightarrow> rdt_env K post goal ps"
  by (auto simp: rdt_env_def joint_env_def predictions_ok_def)

lemma joint_framed: "joint_ok K s \<Longrightarrow> framed K' s c \<Longrightarrow> K' \<subseteq> K \<Longrightarrow> pods_ok c \<Longrightarrow> joint_ok K c"
  by (auto simp: joint_ok_def framed_def state_priority_def knows_objectives_def)

lemma proposal_ok_strengthen:
  assumes "proposal_ok P r" and "yields r (\<lambda>p. list_all Q (fst p))" and "\<And>c. P c \<Longrightarrow> Q c \<Longrightarrow> R c"
  shows "proposal_ok R r"
proof (cases r)
  case (Inr p)
  obtain cs us as where p: "p = (cs, us, as)" by (cases p)
  have "list_all P cs" "list_all Q cs" using assms(1,2) Inr p by (simp_all add: proposal_ok_def)
  then have "list_all R cs" using assms(3) by (simp add: list_all_iff)
  with assms(1) Inr p show ?thesis by (simp add: proposal_ok_def)
qed (use assms(1) in \<open>simp add: proposal_ok_def\<close>)

lemma joint_by_pods:
  assumes "actuator act pods_ok env" and "respects_frame act" and "\<And>goal ps. joint_env K goal ps \<Longrightarrow> env goal ps"
  shows "actuator act (joint_ok K) (joint_env K)"
proof (rule actuatorI)
  fix s goal ps
  assume a: "joint_ok K s" "joint_env K goal ps"
  have "proposal_ok pods_ok (act s goal ps)"
    by (rule actuator.proposes [OF assms(1)]) (use a assms(3) in \<open>simp_all add: joint_ok_def\<close>)
  then show "proposal_ok (joint_ok K) (act s goal ps)"
    by (rule proposal_ok_strengthen [where Q = "framed (set (mkeys (objectives goal))) s"])
      (use assms(2) joint_framed [OF a(1)] a(2) in
        \<open>simp_all add: respects_frame_def joint_env_def knows_objectives_def\<close>)
qed

lemma joint_by_pods_kept:
  assumes "actuator act P env" and "\<And>s goal ps. yields (act s goal ps) (all_untouched (set (mkeys (objectives goal))) s)"
    and "\<And>s. joint_ok K s \<Longrightarrow> P s" and "\<And>goal ps. joint_env K goal ps \<Longrightarrow> env goal ps"
  shows "actuator act (joint_ok K) (joint_env K)"
proof (rule actuatorI)
  fix s goal ps
  assume a: "joint_ok K s" "joint_env K goal ps"
  have "proposal_ok P (act s goal ps)" by (rule actuator.proposes [OF assms(1) assms(3) [OF a(1)] assms(4) [OF a(2)]])
  then show "proposal_ok (joint_ok K) (act s goal ps)"
  proof (rule proposal_ok_strengthen)
    let ?K = "set (mkeys (objectives goal))"
    show "yields (act s goal ps) (\<lambda>p. list_all (untouched ?K s) (fst p))"
      using assms(2) by (rule yields_mono) simp
    fix c
    assume c: "untouched ?K s c"
    have "pods_ok s" using a(1) by (simp add: joint_ok_def)
    moreover have "?K \<subseteq> K" using a(2) by (simp add: joint_env_def knows_objectives_def)
    ultimately show "joint_ok K c" using joint_framed [OF a(1)] untouched_frame [OF c] by blast
  qed
qed

lemma same_map_entries:
  assumes "same_map (=) m m'"
  shows "set (entries m') \<subseteq> set (entries m)"
proof
  fix e
  assume e: "e \<in> set (entries m')"
  obtain k v where kv: "e = (k, v)" by (cases e)
  have "mlookup m' k = Some v" using assms e kv wf_map_lookup [of m'] by (simp add: same_map_def)
  then have "mlookup m k = Some v" using assms unfolding same_map_def by (metis option.rel_eq)
  with kv show "e \<in> set (entries m)" by (simp add: mlookup_def map_of_SomeD)
qed

lemma same_map_get: "same_map (=) m m' \<Longrightarrow> mget z m' k = mget z m k"
  unfolding same_map_def mget_def by (metis option.rel_eq)

lemma same_state_fields:
  assumes "Plugin_Stubs.same_state (kept s) t"
  shows "Priority (IntentOf t) = Priority (IntentOf s)" "same_map (=) (CurrentPods s) (CurrentPods t)"
    "same_map (=) (Resources s) (Resources t)" "same_map (=) (objectives s) (objectives t)"
  using assms by (simp_all add: Plugin_Stubs.same_state_def kept_def)

lemma latency_arrives: "same_profiles ps qs \<Longrightarrow> is_latency qs k = is_latency ps k"
  unfolding same_profiles_def same_map_def text_kinds profile_of_def mget_def
  by (cases "mlookup ps k"; cases "mlookup qs k") (auto simp: kept_profile_def dest!: spec [of _ k])

lemma joint_transportable: "transportable (joint_ok K) (joint_env K)"
  unfolding transportable_def
proof (intro conjI allI impI; elim conjE)
  fix s t
  assume s: "joint_ok K s" and t: "Plugin_Stubs.same_state (kept s) t"
  have "pods_ok t" "keys_ok t" "knows_objectives K t"
    using s same_map_entries [OF same_state_fields(2) [OF t]] same_map_entries [OF same_state_fields(3) [OF t]]
      same_map_entries [OF same_state_fields(4) [OF t]]
    by (fastforce simp: joint_ok_def pods_ok_def, fastforce simp: joint_ok_def keys_ok_def mkeys_def,
        fastforce simp: joint_ok_def knows_objectives_def mkeys_def)
  with s same_state_fields(1) [OF t] show "joint_ok K t" by (simp add: joint_ok_def state_priority_def)
next
  fix s t ps qs
  assume "joint_env K s ps" "Plugin_Stubs.same_state (kept s) t" "same_profiles ps qs"
  then show "joint_env K t qs"
    using same_state_fields(1) [of s t] same_map_entries [OF same_state_fields(4), of s t] same_map_get [OF same_state_fields(4), of s t 0] latency_arrives [of ps qs]
    by (fastforce simp: joint_env_def positive_priority_def knows_objectives_def mkeys_def)
qed

section \<open>Deployed actuators\<close>

lemma joint_actuators:
  "0 < MaxPods cfg \<Longrightarrow> actuator (scaleOut_NextState cfg effects) (joint_ok K) (joint_env K)"
  "actuator (rmPod_NextState rcfg effects) (joint_ok K) (joint_env K)"
  "cpu_cfg_ok ccfg \<Longrightarrow> actuator (cpu_NextState ccfg knowledge rnd) (joint_ok K) (joint_env K)"
  "predictions_ok post \<Longrightarrow> actuator (rdt_NextState dcfg post) (joint_ok K) (joint_env K)"
  "power_env pcfg reply \<Longrightarrow> 0 \<le> StepDown pcfg \<Longrightarrow> actuator (power_NextState pcfg reply) (joint_ok K) (joint_env K)"
proof -
  show "actuator (scaleOut_NextState cfg effects) (joint_ok K) (joint_env K)" if "0 < MaxPods cfg"
    by (rule joint_by_pods [OF scale_out.actuator_axioms scaleOut_frame]) (simp add: that joint_env_def)
  show "actuator (rmPod_NextState rcfg effects) (joint_ok K) (joint_env K)"
    by (rule joint_by_pods [OF rm_pod.actuator_axioms rmPod_frame]) (simp add: joint_env_def)
  show "actuator (cpu_NextState ccfg knowledge rnd) (joint_ok K) (joint_env K)" if "cpu_cfg_ok ccfg"
    by (rule joint_by_pods [OF cpu_scale.actuator_axioms cpu_frame]) (simp add: that joint_env_def)
  show "actuator (rdt_NextState dcfg post) (joint_ok K) (joint_env K)" if "predictions_ok post"
    by (rule joint_by_pods_kept [OF rdt.actuator_axioms [where K = K] rdt_untouched])
      (simp_all add: that rdt_env_joint joint_ok_def rdt_ok_def)
  show "actuator (power_NextState pcfg reply) (joint_ok K) (joint_env K)" if "power_env pcfg reply" "0 \<le> StepDown pcfg"
    by (rule joint_by_pods_kept [OF power.actuator_axioms power_untouched])
      (simp_all add: that joint_ok_def)
qed

inductive deployed :: "next_state \<Rightarrow> cluster perform \<Rightarrow> bool" where
  \<comment> \<open>what an actuator proposes with what it performs\<close>
  dep_scale_out: "0 < MaxPods cfg \<Longrightarrow> deployed (scaleOut_NextState cfg effects) scaleOut_Perform"
| dep_rm_pod: "deployed (rmPod_NextState rcfg effects) rmPod_Perform"
| dep_cpu: "cpu_cfg_ok ccfg \<Longrightarrow> deployed (cpu_NextState ccfg knowledge rnd) (cpu_Perform ccfg)"
| dep_rdt: "predictions_ok post \<Longrightarrow> deployed (rdt_NextState dcfg post) (rdt_Perform dcfg)"
| dep_power: "power_env pcfg reply \<Longrightarrow> 0 \<le> StepDown pcfg \<Longrightarrow>
    deployed (power_NextState pcfg reply) (power_Perform pcfg)"
| dep_remote: "deployed act perf \<Longrightarrow> delivers_requests wq \<Longrightarrow> delivers_responses wr \<Longrightarrow> delivers_plans wp \<Longrightarrow>
    stream_field a \<noteq> NilStream \<Longrightarrow>
    deployed (remote wq wr act fault a) (client_Perform wp perf fault' a)"

lemma deployed_actuator: "deployed act perf \<Longrightarrow> actuator act (joint_ok K) (joint_env K)"
proof (induction rule: deployed.induct)
  case dep_remote
  then show ?case by (intro remote_actuator [OF _ joint_transportable])
qed (simp_all add: joint_actuators)

section \<open>The types of action properties\<close>

abbreviation typed_proposal :: "proposal \<Rightarrow> bool" where
  "typed_proposal p \<equiv> list_all typed_action (snd (snd p))"

lemma typed_by_spec:
  assumes "\<exists>p. r = Inr p \<and> each_proposal Q p" and "\<And>c u a. Q c u a \<Longrightarrow> typed_action a"
  shows "yields r typed_proposal"
  using assms each_proposal_in(3) by (fastforce simp: list_all_iff)

lemma same_action_typed: "same_action a b \<Longrightarrow> typed_action a \<Longrightarrow> typed_action b"
  by (cases "Properties a"; cases "Properties b") (auto simp: same_action_def typed_defs)

lemma same_actions_typed: "list_all2 same_action as bs \<Longrightarrow> list_all typed_action as \<Longrightarrow> list_all typed_action bs"
  by (induction rule: list_all2_induct) (auto intro: same_action_typed)

lemma remote_typed:
  assumes "\<And>s goal ps. yields (act s goal ps) typed_proposal" and "delivers_responses wr"
  shows "yields (remote wq wr act fault a s goal ps) typed_proposal"
proof -
  have "typed_proposal q" if r: "handle_request act rq = Inr r" "getNextStateResponse (wr r) = Inr q" for rq r q
  proof -
    obtain s' g' where "bindG (act s' g' (toProfiles (rq_Profiles rq))) (\<lambda>p. Inr (getNextStateResponseServer p)) = Inr r"
      using r(1) by (auto simp: handle_request_def bindG_eq_Inr simp del: split_paired_Ex)
    then obtain p where p: "act s' g' (toProfiles (rq_Profiles rq)) = Inr p" "r = getNextStateResponseServer p"
      by (cases "act s' g' (toProfiles (rq_Profiles rq))") auto
    have "typed_proposal p" using assms(1) [of s' g' "toProfiles (rq_Profiles rq)"] p(1) by simp
    moreover have "same_proposal p q" using proposal_arrives [OF assms(2), of p] r(2) p(2) by auto
    ultimately show ?thesis using same_actions_typed by (cases p; cases q) (auto simp: same_proposal_def)
  qed
  then show ?thesis
    by (auto simp: yields_def remote_def client_NextState_def call_stream_def bindG_eq_Inr no_proposal_def
        split: if_splits prod.splits stream.splits sum.splits option.splits)
qed

lemma deployed_typed: "deployed act perf \<Longrightarrow> yields (act s goal ps) typed_proposal"
proof (induction arbitrary: s goal ps rule: deployed.induct)
  case (dep_scale_out cfg effects)
  show ?case by (rule typed_by_spec [OF scaleOut_NextState_spec])
      (auto simp: scaling_proposal_def scale_candidate_def proactive_candidate_def)
next
  case (dep_rm_pod rcfg effects)
  show ?case by (rule typed_by_spec [OF rmPod_NextState_spec]) (auto simp: rm_candidate_def)
next
  case (dep_cpu ccfg knowledge rnd)
  then show ?case by (intro typed_by_spec [OF cpu_NextState_spec]) (auto simp: cpu_proposal_def cpu_candidate_def)
next
  case (dep_rdt post dcfg)
  show ?case by (rule yields_mono [OF rdt_untouched [where K = "{}"]]) simp
next
  case (dep_power pcfg reply)
  show ?case by (rule yields_mono [OF power_untouched]) simp
next
  case (dep_remote act perf wq wr wp a fault)
  show ?case by (rule remote_typed [OF dep_remote.IH dep_remote.hyps(3)])
qed

section \<open>Performing typed plans\<close>

definition type_safe :: "'a go \<Rightarrow> bool" where
  "type_safe m \<longleftrightarrow> m \<noteq> Inl TypeAssertion"

lemma type_safe_simps [simp]: "type_safe (Inr x)" "type_safe (Inl e) \<longleftrightarrow> e \<noteq> TypeAssertion"
  "type_safe (nthG xs i)" "type_safe (mput m k v)"
  by (auto simp: type_safe_def nthG_def split: option.split) (cases m; simp)

lemma safe_bind: "type_safe m \<Longrightarrow> (\<And>x. type_safe (f x)) \<Longrightarrow> type_safe (bindG m f)"
  by (cases m) auto

lemma safe_foldG: "(\<And>x s. x \<in> set xs \<Longrightarrow> type_safe (f x s)) \<Longrightarrow> type_safe (foldG f xs s)"
  by (induction xs arbitrary: s) (auto intro!: safe_bind)

lemma safe_retry: "(\<And>c. type_safe (fn c)) \<Longrightarrow> type_safe (retry_on_conflict n fn c)"
  by (induction n arbitrary: c) (auto intro!: safe_bind)

definition performs_typed :: "cluster perform \<Rightarrow> bool" where
  \<comment> \<open>no plan of typed actions fails in a type assertion\<close>
  "performs_typed perf \<longleftrightarrow> (\<forall>s plan c. list_all typed_action plan \<longrightarrow> type_safe (perf s plan c))"

lemma performs_typedI: "(\<And>s plan c. list_all typed_action plan \<Longrightarrow> type_safe (perf s plan c)) \<Longrightarrow> performs_typed perf"
  by (simp add: performs_typed_def)

lemma scaleOut_performs_typed: "performs_typed scaleOut_Perform"
proof (rule performs_typedI)
  fix s plan and c :: cluster
  assume "list_all typed_action plan"
  then obtain f where f: "scale_factor plan = Inr f"
    using scale_factor_net [of plan] by (auto simp: list_all_iff typed_action_def)
  have "type_safe (update_replicas knd key f c)" for knd key c
    by (auto simp: update_replicas_def Let_def split: option.split)
  then show "type_safe (scaleOut_Perform s plan c)"
    unfolding scaleOut_Perform_def f
    by (auto simp: Let_def split: option.split intro!: safe_bind safe_retry)
qed

lemma rmPod_performs_typed: "performs_typed rmPod_Perform"
proof (rule performs_typedI)
  fix s plan and c :: cluster
  assume plan: "list_all typed_action plan"
  have "type_safe (delete_pod ns a c)" if "a \<in> set plan" for ns a c
  proof (cases "ActionName a = rmPodActionName")
    case True
    have "str_properties rmPodActionName a" using plan that by (simp add: list_all_iff typed_action_def)
    with True obtain m where "Properties a = StrProps m" by (auto simp: str_properties_def)
    then show ?thesis by (auto simp: delete_pod_def intro!: safe_bind safe_retry)
  qed (simp add: delete_pod_def)
  then show "type_safe (rmPod_Perform s plan c)"
    by (auto simp: rmPod_Perform_def Let_def intro!: safe_bind safe_foldG)
qed

lemma cpu_performs_typed: "performs_typed (cpu_Perform cfg)"
proof (rule performs_typedI)
  fix s plan and c :: cluster
  assume plan: "list_all typed_action plan"
  have set_cpu: "type_safe (set_workload_cpu cfg v w)" for v w
    by (auto simp: set_workload_cpu_def set_container_cpu_def put_quantity_def Let_def intro!: safe_bind)
  have "type_safe (update_cpu cfg knd tmp v c)" for knd tmp v c
    by (auto simp: update_cpu_def split: option.split intro!: safe_bind set_cpu)
  then have "type_safe (setResourceValues cfg s v c)" for v
    by (auto simp: setResourceValues_def Let_def split: option.split intro!: safe_bind safe_retry)
  with plan show "type_safe (cpu_Perform cfg s plan c)"
    by (auto simp: cpu_Perform_def list_all_iff typed_action_def int_properties_def dest!: find_SomeD split: option.split)
qed

lemma rdt_performs_typed: "performs_typed (rdt_Perform cfg)"
proof (rule performs_typedI)
  fix s plan and c :: cluster
  assume "list_all typed_action plan"
  then have chosen: "type_safe (chosen_option plan)"
    using chosen_option_typed [of plan] by (auto simp: list_all_iff typed_action_def str_properties_def)
  have "type_safe (annotate cfg option w)" for option w
    by (auto simp: annotate_def Let_def intro!: safe_bind)
  then show "type_safe (rdt_Perform cfg s plan c)"
    by (auto simp: rdt_Perform_def Let_def split: option.split intro!: safe_bind chosen)
qed

lemma power_performs_typed: "performs_typed (power_Perform cfg)"
proof (rule performs_typedI)
  fix s plan and c :: cluster
  assume "list_all typed_action plan"
  then have chosen: "type_safe (chosen_profile plan)"
    by (induction plan) (auto simp: typed_action_def str_properties_def)
  have "type_safe (set_container_profile cfg p cont)" for p cont
    by (auto simp: set_container_profile_def Let_def intro!: safe_bind)
  then have "type_safe (set_profiles cfg p conts)" for p conts
    by (induction conts) (auto intro!: safe_bind)
  then show "type_safe (power_Perform cfg s plan c)"
    by (auto simp: power_Perform_def Let_def split: option.split intro!: safe_bind chosen)
qed

lemma remote_performs_typed:
  assumes "performs_typed perf" and wp: "delivers_plans wp"
  shows "performs_typed (client_Perform wp perf fault a)"
proof (rule performs_typedI)
  fix s plan and c :: cluster
  assume plan: "list_all typed_action plan"
  let ?r = "wp (getPerformRequest s plan)"
  have d: "rel_option same_state_msg (Some (toGrpcState s)) (pf_State ?r)"
    "list_all2 same_action_msg (toGrpcActions plan) (pf_Plan ?r)"
    using spec [OF wp [unfolded delivers_plans_def], of "getPerformRequest s plan"]
    by (simp_all add: getPerformRequest_def)
  obtain t where t: "toState (pf_State ?r) = Inr t" using state_arrives [OF d(1)] by blast
  obtain plan' where plan': "toActions (pf_Plan ?r) = Inr plan'" "list_all2 same_action plan plan'"
    using plan_arrives [OF d(2)] by blast
  have "type_safe (perf t plan' c)"
    using assms(1) same_actions_typed [OF plan'(2) plan] by (simp add: performs_typed_def)
  then show "type_safe (client_Perform wp perf fault a s plan c)"
    by (simp add: client_Perform_def plugin_Perform_def t plan'(1))
qed

lemma deployed_performs: "deployed act perf \<Longrightarrow> performs_typed perf"
  by (induction rule: deployed.induct)
    (simp_all add: scaleOut_performs_typed rmPod_performs_typed cpu_performs_typed rdt_performs_typed
      power_performs_typed remote_performs_typed)

section \<open>Planning and performing\<close>

definition all_deployed :: "(node \<Rightarrow> next_state list) \<Rightarrow> cluster perform list \<Rightarrow> bool" where
  \<comment> \<open>the manager hands out deployed actuators, in whatever order at each node\<close>
  "all_deployed acts performs \<longleftrightarrow>
     (\<forall>n. \<forall>act \<in> set (acts n). \<exists>perf. deployed act perf) \<and> (\<forall>perf \<in> set performs. \<exists>act. deployed act perf)"

lemma deployed_behave: "all_deployed acts performs \<Longrightarrow> joint_env K goal ps \<Longrightarrow> all_behave (joint_ok K) goal ps acts"
  unfolding all_deployed_def all_behave_def list_all_iff
  using deployed_actuator actuator.behaves by blast

lemma offers_typed:
  assumes "all_deployed acts performs" and "offers cfg acts goal ps n s c u a"
  shows "typed_action a"
proof -
  obtain act cs us as i where o: "act \<in> set (acts n)" "act s goal ps = Inr (cs, us, as)" "i < length as" "as ! i = a"
    using assms(2) unfolding offers_def by blast
  obtain perf where "deployed act perf" using assms(1) o(1) unfolding all_deployed_def by blast
  from deployed_typed [OF this, of s goal ps] o show ?thesis by (auto simp: list_all_iff)
qed

lemma typed_plan:
  assumes "all_deployed acts performs" and "all_behave ok goal ps acts" and "ok start"
    and "CreatePlan cfg acts start goal ps = Some (Inr plan)"
  shows "list_all typed_action plan \<and> type_safe (ExecutePlan performs state plan c)"
proof -
  have typed: "list_all typed_action plan"
    using planned_actions [OF assms(2-4), of typed_action] offers_typed [OF assms(1)]
    by (simp add: list_all_iff)
  have "type_safe (ExecutePlan performs state plan c)"
    unfolding ExecutePlan_def
  proof (rule safe_foldG)
    fix perf and c :: cluster
    assume "perf \<in> set performs"
    then have "performs_typed perf" using assms(1) deployed_performs unfolding all_deployed_def by blast
    with typed show "type_safe (perf state plan c)" by (simp add: performs_typed_def)
  qed
  with typed show ?thesis by blast
qed


definition mixed_actuators :: "next_state list" where
  \<comment> \<open>scaling and RDT in the planner's process, the removal of pods and the CPU behind stubs\<close>
  "mixed_actuators =
     [scaleOut_NextState two_pods_cfg (\<lambda>_ _ _ _. Some flat_effect),
      remote wire_request wire_response
        (rmPod_NextState \<lparr>PluginEndpoint = ''rm'', PluginPort = 33335, ManagerEndpoint = ''ido'', ManagerPort = 33333,
          Mongo = '''', MinPods = 1, rm_LookBack = 20\<rparr> (\<lambda>_ _ _ _. Some flat_effect)) Works new_stub,
      remote wire_request wire_response (cpu_NextState (cpu_cfg 2000) (\<lambda>_ _ _ _. None) (\<lambda>_ _. 0)) RecvFails new_stub,
      rdt_NextState rdt_cfg (\<lambda>_. NoReply)]"

definition mixed_performs :: "cluster perform list" where
  "mixed_performs =
     [scaleOut_Perform, client_Perform wire_plan rmPod_Perform Works new_stub,
      client_Perform wire_plan (cpu_Perform (cpu_cfg 2000)) Works new_stub, rdt_Perform rdt_cfg]"

lemma mixed_deployed: "all_deployed (\<lambda>_. mixed_actuators) mixed_performs"
proof -
  have stub: "stream_field new_stub \<noteq> NilStream" by (simp add: new_stub_def)
  have pods: "0 < MaxPods two_pods_cfg" by (simp add: two_pods_cfg_def)
  have cpu: "cpu_cfg_ok (cpu_cfg 2000)" by (simp add: cpu_cfg_ok_def cpu_cfg_def less_s_def)
  have rdt: "predictions_ok (\<lambda>_. NoReply)" by (simp add: predictions_ok_def rdt_doQuery_def float_consts)
  note behind = dep_remote [OF _ wire_delivers stub]
  note four = dep_scale_out [OF pods] behind [OF dep_rm_pod] behind [OF dep_cpu [OF cpu]] dep_rdt [OF rdt]
  show ?thesis
    unfolding all_deployed_def mixed_actuators_def mixed_performs_def by (auto intro: four)
qed


end
