(* ===== verification/Plugin_Commands.thy ===== *)
theory Plugin_Commands
  imports Composition
begin

text \<open>
  \<^verbatim>\<open>plugins/plugins_helper.go\<close> and the commands under \<^verbatim>\<open>plugins/*/cmd\<close> that
  start the actuators as plugins: each validates its configuration and ends where it is
  not valid.  The syntax check of an address (\<open>url.ParseRequestURI\<close>) is the argument
  \<open>uri\<close>, the presence of a file (\<open>os.Stat\<close>) the argument \<open>file\<close>.
\<close>

section \<open>The generic part\<close>

datatype conf_error =
    InvalidPort | InvalidUri | InvalidEndpoint
  | InvalidInterpreter | InvalidScript | InvalidPods | InvalidProactive | InvalidLookBack | InvalidFraction
  | InvalidCpu | InvalidRounding | InvalidBoost | InvalidSafeGuard
  | NoOptions | FewProfiles | InvalidStepDown | InvalidRenewableLimit

definition isPortNumValid :: "int \<Rightarrow> bool" where
  "isPortNumValid num = (if num > 0 \<and> num < 65536 then True else False)"

definition IsStrConfigValid :: "string \<Rightarrow> bool" where
  "IsStrConfigValid str = (if str \<noteq> '''' \<and> length str < 101 then True else False)"

definition IsValidGenericConf ::
  "(string \<Rightarrow> bool) \<Rightarrow> string \<Rightarrow> int \<Rightarrow> string \<Rightarrow> int \<Rightarrow> string \<Rightarrow> conf_error option" where
  "IsValidGenericConf uri endpoint port pluginManagerEndpoint pluginManagerPort mongo =
     (if \<not> isPortNumValid port \<or> \<not> isPortNumValid pluginManagerPort then Some InvalidPort
      else if \<not> uri mongo then Some InvalidUri
      else if \<not> IsStrConfigValid endpoint \<or> \<not> IsStrConfigValid pluginManagerEndpoint then Some InvalidEndpoint
      else None)"

definition maxLookBack :: int where
  "maxLookBack = 10080"

definition maxScaleOut :: int where
  "maxScaleOut = 128"

definition maxCPUValue :: int64 where
  "maxCPUValue = word_of_int (1000 * 1024)"

section \<open>The parts of the actuators\<close>

definition rm_pod_isValidConf :: "int \<Rightarrow> int \<Rightarrow> conf_error option" where
  "rm_pod_isValidConf confMinPods lookBack =
     (if confMinPods \<le> 0 \<or> confMinPods > maxScaleOut then Some InvalidPods
      else if lookBack \<le> 0 \<or> lookBack > maxLookBack then Some InvalidLookBack
      else None)"

definition scale_out_isValidConf ::
  "(string \<Rightarrow> bool) \<Rightarrow> string \<Rightarrow> string \<Rightarrow> int \<Rightarrow> int \<Rightarrow> int \<Rightarrow> float64 \<Rightarrow> conf_error option" where
  "scale_out_isValidConf file interpreter script confMaxPods confMaxProactiveScaleOut lookBack confProActiveLatencyFactor =
     (if \<not> IsStrConfigValid interpreter then Some InvalidInterpreter
      else if script \<noteq> ''None'' \<and> \<not> file script then Some InvalidScript
      else if confMaxPods \<le> 0 \<or> confMaxPods > maxScaleOut then Some InvalidPods
      else if confMaxProactiveScaleOut < 0 \<or> confMaxProactiveScaleOut > confMaxPods then Some InvalidProactive
      else if lookBack \<le> 0 \<or> lookBack > maxLookBack then Some InvalidLookBack
      else if confProActiveLatencyFactor < 0 \<or> 1 < confProActiveLatencyFactor then Some InvalidFraction
      else None)"

definition cpu_scale_isValidConf ::
  "(string \<Rightarrow> bool) \<Rightarrow> string \<Rightarrow> string \<Rightarrow> int64 \<Rightarrow> int64 \<Rightarrow> int64 \<Rightarrow> float64 \<Rightarrow> float64 \<Rightarrow> float64 \<Rightarrow> int \<Rightarrow>
   conf_error option" where
  "cpu_scale_isValidConf file interpreter script confCPUMax confCPURounding confMaxProActiveCPU
     boostFactor confCPUSafeGuardFactor configProActiveLatencyPercentage lookBack =
     (if \<not> IsStrConfigValid interpreter then Some InvalidInterpreter
      else if script \<noteq> ''None'' \<and> \<not> file script then Some InvalidScript
      else if le_s confCPUMax 0 \<or> less_s maxCPUValue confCPUMax then Some InvalidCpu
      else if le_s confCPURounding 0 \<or> less_s 1000 confCPURounding \<or> sint confCPURounding smod 10 \<noteq> 0
      then Some InvalidRounding
      else if less_s confMaxProActiveCPU 0 \<or> less_s confCPUMax confMaxProActiveCPU then Some InvalidProactive
      else if boostFactor < 0 \<or> 10 < boostFactor then Some InvalidBoost
      else if confCPUSafeGuardFactor \<le> 0 \<or> 1 < confCPUSafeGuardFactor then Some InvalidSafeGuard
      else if configProActiveLatencyPercentage < 0 \<or> 1 < configProActiveLatencyPercentage then Some InvalidFraction
      else if lookBack \<le> 0 \<or> lookBack > maxLookBack then Some InvalidLookBack
      else None)"

definition rdt_isValidConf ::
  "(string \<Rightarrow> bool) \<Rightarrow> string \<Rightarrow> string \<Rightarrow> string \<Rightarrow> string list \<Rightarrow> conf_error option" where
  "rdt_isValidConf file interpreter analyticsScript predictionScript options =
     (if \<not> IsStrConfigValid interpreter then Some InvalidInterpreter
      else if analyticsScript \<noteq> ''None'' \<and> \<not> file analyticsScript then Some InvalidScript
      else if predictionScript \<noteq> ''None'' \<and> \<not> file predictionScript then Some InvalidScript
      else if length options = 0 then Some NoOptions
      else None)"

definition energy_isValidConf ::
  "(string \<Rightarrow> bool) \<Rightarrow> string \<Rightarrow> string \<Rightarrow> string \<Rightarrow> int \<Rightarrow> float64 \<Rightarrow> string list \<Rightarrow> conf_error option" where
  "energy_isValidConf file interpreter analytics prediction stepDown renewableLimit profiles =
     (if \<not> IsStrConfigValid interpreter then Some InvalidInterpreter
      else if analytics \<noteq> ''None'' \<and> \<not> file analytics then Some InvalidScript
      else if prediction \<noteq> ''None'' \<and> \<not> file prediction then Some InvalidScript
      else if length profiles < 2 then Some FewProfiles
      else if stepDown < 1 \<or> stepDown \<ge> int (length profiles) then Some InvalidStepDown
      else if renewableLimit \<le> 0 then Some InvalidRenewableLimit
      else None)"

section \<open>The commands\<close>

text \<open>
  The validation in \<open>main\<close>: \<open>Inl\<close> is the end of the process with an error message, \<open>Inr\<close> the
  configuration the actuator is started with.
\<close>

definition validated :: "(string \<Rightarrow> bool) \<Rightarrow> 'a PluginConfig_scheme \<Rightarrow> conf_error option \<Rightarrow> conf_error + 'a PluginConfig_scheme" where
  "validated uri cfg specific =
     (case IsValidGenericConf uri (PluginEndpoint cfg) (PluginPort cfg) (ManagerEndpoint cfg) (ManagerPort cfg) (Mongo cfg) of
        Some err \<Rightarrow> Inl err
      | None \<Rightarrow> (case specific of Some err \<Rightarrow> Inl err | None \<Rightarrow> Inr cfg))"

definition rm_pod_main :: "(string \<Rightarrow> bool) \<Rightarrow> RmPodConfig \<Rightarrow> conf_error + RmPodConfig" where
  "rm_pod_main uri cfg = validated uri cfg (rm_pod_isValidConf (MinPods cfg) (rm_LookBack cfg))"

definition scale_out_main :: "(string \<Rightarrow> bool) \<Rightarrow> (string \<Rightarrow> bool) \<Rightarrow> ScaleOutConfig \<Rightarrow> conf_error + ScaleOutConfig" where
  "scale_out_main uri file cfg =
     validated uri cfg (scale_out_isValidConf file (so_PythonInterpreter cfg) (so_Script cfg) (MaxPods cfg)
       (MaxProActiveScaleOut cfg) (so_LookBack cfg) (ProActiveLatencyFactor cfg))"

definition cpu_scale_main :: "(string \<Rightarrow> bool) \<Rightarrow> (string \<Rightarrow> bool) \<Rightarrow> CPUScaleConfig \<Rightarrow> conf_error + CPUScaleConfig" where
  "cpu_scale_main uri file cfg =
     validated uri cfg (cpu_scale_isValidConf file (cs_PythonInterpreter cfg) (cs_Script cfg) (CPUMax cfg)
       (CPURounding cfg) (MaxProActiveCPU cfg) (BoostFactor cfg) (CPUSafeGuardFactor cfg)
       (ProActiveLatencyPercentage cfg) (cs_LookBack cfg))"

definition rdt_main :: "(string \<Rightarrow> bool) \<Rightarrow> (string \<Rightarrow> bool) \<Rightarrow> RdtConfig \<Rightarrow> conf_error + RdtConfig" where
  "rdt_main uri file cfg =
     validated uri cfg (rdt_isValidConf file (rdt_Interpreter cfg) (rdt_Analytics cfg) (rdt_Prediction cfg) (Options cfg))"

definition energy_main :: "(string \<Rightarrow> bool) \<Rightarrow> (string \<Rightarrow> bool) \<Rightarrow> PowerActuatorConfig \<Rightarrow> conf_error + PowerActuatorConfig" where
  \<comment> \<open>prediction and analytics are passed in this order\<close>
  "energy_main uri file cfg =
     validated uri cfg (energy_isValidConf file (pow_Interpreter cfg) (pow_Prediction cfg) (pow_Analytics cfg)
       (StepDown cfg) (RenewableLimit cfg) (PowerProfiles cfg))"

section \<open>What is accepted\<close>

lemma validated_Inr:
  "validated uri cfg specific = Inr cfg' \<longleftrightarrow> cfg' = cfg \<and> specific = None \<and>
     IsValidGenericConf uri (PluginEndpoint cfg) (PluginPort cfg) (ManagerEndpoint cfg) (ManagerPort cfg) (Mongo cfg) = None"
  by (auto simp: validated_def split: option.splits)

lemma accepted_cpu:
  assumes "cpu_scale_main uri file cfg = Inr cfg'"
  shows "cfg' = cfg \<and> less_s 0 (CPUMax cfg) \<and> CPURounding cfg \<noteq> 0 \<and> 0 \<le> sint (MaxProActiveCPU cfg)"
  using assms
  by (auto simp: cpu_scale_main_def validated_Inr cpu_scale_isValidConf_def le_s_def less_s_def split: if_splits)


definition rm_cfg :: RmPodConfig where
  "rm_cfg = \<lparr>PluginEndpoint = ''rm'', PluginPort = 33335, ManagerEndpoint = ''ido'', ManagerPort = 33333,
     Mongo = ''mongodb://db'', MinPods = 1, rm_LookBack = 20\<rparr>"

definition two_profiles_cfg :: PowerActuatorConfig where
  "two_profiles_cfg = power_cfg\<lparr>Mongo := ''mongodb://db'', PowerProfiles := [''balance'', ''performance'']\<rparr>"

lemmas main_defs = scale_out_main_def rm_pod_main_def cpu_scale_main_def rdt_main_def energy_main_def
  validated_def IsValidGenericConf_def isPortNumValid_def IsStrConfigValid_def maxLookBack_def maxScaleOut_def
  maxCPUValue_def scale_out_isValidConf_def rm_pod_isValidConf_def cpu_scale_isValidConf_def rdt_isValidConf_def
  energy_isValidConf_def


text \<open>
  C33. The exception is real: the command of the CPU actuator accepts a limit for proactive scaling between 1 and 19,
  and the actuator then panics on a state whose first objective is a latency that is met and without
  a model, because half of a tenth of the limit is zero and no random number is below it.
\<close>
theorem accepted_cpu_panics:
  assumes "cpu_scale_main uri file cfg = Inr cfg'" and "1 \<le> sint (MaxProActiveCPU cfg)" and "sint (MaxProActiveCPU cfg) < 20"
    and "entries (objectives state) = (k, v) # rest" and "is_latency profiles k"
    and "v - mget 0 (objectives goal) k < 0"
    and "knowledge (IntentKey (IntentOf state)) cpuGroupName k (cs_LookBack cfg) = None"
    and "mlookup (CurrentData state) cpuActionName = None" and "mlen (CurrentPods state) \<noteq> 0"
    and "mlookup (CurrentPods state) ''proactiveResourceAlloc'' = None"
  shows "cpu_NextState cfg' knowledge rnd state goal profiles = Inl InvalidArgument"
proof -
  have cfg: "cfg' = cfg" using accepted_cpu [OF assms(1)] by simp
  obtain cur i where vals: "getResourceValues state = (cur, i)" by (cases "getResourceValues state")
  have none: "cpu_findStates cfg knowledge state goal cur i profiles = Inr None"
    using assms(4,5,7) by (simp add: cpu_findStates_def mkeys_def)
  obtain s where s: "add_dummy ''proactiveResourceAlloc'' (DeepCopy state) = Inr s" "writable s"
    "IntentOf s = IntentOf (DeepCopy state)"
    using add_dummy_spec [OF writable_DeepCopy, of "''proactiveResourceAlloc''" state] by auto
  obtain t where t: "set_data cpuActionName (Some [(cpuActionName, 1)]) s = Inr t" "IntentOf t = IntentOf s"
    using set_data_writable [OF s(2)] by blast
  have "sint (word_of_int (sint (cpu_increment cfg) sdiv 2) :: int64) = 0"
    using half_increment [of cfg] assms(2,3) by simp
  then have "cpu_increase cfg (rnd k) (v - mget 0 (objectives goal) k) = Inl InvalidArgument"
    using assms(6) by (simp add: cpu_increase_def Int63n_def less_s_def)
  then have "proactive_loop cfg rnd goal cur profiles (entries (objectives t)) (t, 0) = Inl InvalidArgument"
    using assms(4,5) s(3) t(2) by (simp add: Let_def)
  then have "proactiveScaling cfg rnd state goal cur profiles = Inl InvalidArgument"
    using assms(10) s(1) t(1) by (simp add: proactiveScaling_def)
  moreover have "less_s 0 (MaxProActiveCPU cfg)" using assms(2) by (simp add: less_s_def)
  ultimately show ?thesis
    using assms(8,9) vals none by (simp add: cpu_NextState_def cfg)
qed

theorem accepted_cpu_panics_witness:
  "cpu_scale_main (\<lambda>_. True) (\<lambda>_. True) (cpu_cfg 10) = Inr (cpu_cfg 10) \<and>
   cpu_NextState (cpu_cfg 10) (\<lambda>_ _ _ _. None) (\<lambda>_ _. 0) (busy_state 5) (busy_state 10) busy_profiles = Inl InvalidArgument"
proof -
  have ok: "cpu_scale_main (\<lambda>_. True) (\<lambda>_. True) (cpu_cfg 10) = Inr (cpu_cfg 10)"
    by (simp add: main_defs cpu_cfg_def float_consts le_s_def less_s_def)
  have "1 \<le> sint (MaxProActiveCPU (cpu_cfg 10))" "sint (MaxProActiveCPU (cpu_cfg 10)) < 20" by (simp_all add: cpu_cfg_def)
  moreover have "Fin 5 - mget 0 (objectives (busy_state 10)) ''p99'' < 0" by (simp add: mget_def float_consts)
  moreover have "mlookup (CurrentData (busy_state 5)) cpuActionName = None" by (simp add: busy_state_def zero_State_def)
  ultimately show ?thesis
    using accepted_cpu_panics [OF ok, of "busy_state 5" "''p99''" "Fin 5" _ busy_profiles "busy_state 10" "\<lambda>_ _ _ _. None"] ok
    by simp
qed

end
