(* ===== verification/TTL_Cache.thy ===== *)
theory TTL_Cache
  imports Configuration
begin

text \<open>
  \<^verbatim>\<open>pkg/common/ttl_cache.go\<close>: the cache of the keys for which a plan was executed
  recently.  Times are the \<open>int64\<close> milliseconds of \<open>UnixMilli\<close>.  The goroutine of
  \<open>NewCache\<close> is the step \<open>evict\<close>, taken at each tick of its timer as long as it
  runs.  The locale \<open>recent_keys\<close> is the contract the controller relies on.
\<close>

section \<open>The cache\<close>

record TTLCache =
  cache_entries :: "(string, int64) gomap"
  ttl :: int          \<comment> \<open>captured by the goroutine\<close>
  evicting :: bool    \<comment> \<open>the goroutine was started and its channel \<open>done\<close> is open\<close>

definition NewCache :: "int \<Rightarrow> int \<Rightarrow> TTLCache" where
  "NewCache ttl_ms tick =
     (if tick \<le> 0 \<or> ttl_ms \<le> 0 \<or> tick > MaxPlanCacheTimeout \<or> ttl_ms > MaxPlanCacheTTL
      then \<lparr>cache_entries = mmake, ttl = ttl_ms, evicting = False\<rparr>
      else \<lparr>cache_entries = mmake, ttl = ttl_ms, evicting = True\<rparr>)"

definition expired :: "int \<Rightarrow> int64 \<Rightarrow> int64 \<Rightarrow> bool" where
  "expired ttl_ms now v \<longleftrightarrow> less_s (word_of_int ttl_ms) (now - v)"

definition evict :: "int64 \<Rightarrow> TTLCache \<Rightarrow> TTLCache" where
  \<comment> \<open>one tick: the loop that deletes the old entries\<close>
  "evict now c =
     (if evicting c
      then c\<lparr>cache_entries :=
        fold (\<lambda>(k, v) m. if expired (ttl c) now v then mdelete m k else m)
          (entries (cache_entries c)) (cache_entries c)\<rparr>
      else c)"

definition Put :: "int64 \<Rightarrow> string \<Rightarrow> TTLCache \<Rightarrow> TTLCache go" where
  "Put now key c = bindG (mput (cache_entries c) key now) (\<lambda>m. Inr (c\<lparr>cache_entries := m\<rparr>))"

definition IsIn :: "TTLCache \<Rightarrow> string \<Rightarrow> bool" where
  "IsIn c key \<longleftrightarrow> mlookup (cache_entries c) key \<noteq> None"

section \<open>The invariant and the effect of each operation\<close>

definition cache_ok :: "TTLCache \<Rightarrow> bool" where
  "cache_ok c \<longleftrightarrow> wf_map (cache_entries c) \<and> cache_entries c \<noteq> None \<and> 0 \<le> ttl c \<and> ttl c \<le> MaxPlanCacheTTL"

lemma NewCache_fields [simp]:
  "cache_entries (NewCache t i) = mmake" "ttl (NewCache t i) = t"
  "evicting (NewCache t i) \<longleftrightarrow> 0 < i \<and> 0 < t \<and> i \<le> MaxPlanCacheTimeout \<and> t \<le> MaxPlanCacheTTL"
  by (auto simp: NewCache_def)

lemma NewCache_ok: "0 \<le> t \<Longrightarrow> t \<le> MaxPlanCacheTTL \<Longrightarrow> cache_ok (NewCache t i)"
  by (simp add: cache_ok_def)

lemma fold_delete_lookup:
  "mlookup (fold (\<lambda>(k, v) m. if P v then mdelete m k else m) xs m) k =
     (if \<exists>v. (k, v) \<in> set xs \<and> P v then None else mlookup m k)"
  by (induction xs arbitrary: m) (auto simp: mlookup_mdelete)

lemma fold_delete_wf:
  "wf_map m \<Longrightarrow> wf_map (fold (\<lambda>(k, v) m. if P v then mdelete m k else m) xs m)"
  by (induction xs arbitrary: m) (auto simp: wf_map_mdelete)

lemma fold_delete_nil:
  "m \<noteq> None \<Longrightarrow> fold (\<lambda>(k, v) m. if P v then mdelete m k else m) xs m \<noteq> None"
  by (induction xs arbitrary: m) (auto simp: mdelete_def)

lemma evict_lookup:
  assumes "cache_ok c"
  shows "mlookup (cache_entries (evict now c)) key =
    (case mlookup (cache_entries c) key of
       None \<Rightarrow> None
     | Some v \<Rightarrow> if evicting c \<and> expired (ttl c) now v then None else Some v)"
proof -
  have "(\<exists>v. (key, v) \<in> set (entries (cache_entries c)) \<and> P v) \<longleftrightarrow>
      (\<exists>v. mlookup (cache_entries c) key = Some v \<and> P v)" for P
    using assms wf_map_lookup [of "cache_entries c" key] by (simp add: cache_ok_def)
  then show ?thesis by (simp add: evict_def fold_delete_lookup split: option.splits)
qed

lemma evict_ok: "cache_ok c \<Longrightarrow> cache_ok (evict now c)"
  using fold_delete_nil [of "cache_entries c" "expired (ttl c) now" "entries (cache_entries c)"]
  by (auto simp: evict_def cache_ok_def fold_delete_wf)

lemma evict_fields [simp]: "ttl (evict now c) = ttl c" "evicting (evict now c) = evicting c"
  by (simp_all add: evict_def)

lemma Put_total: "cache_ok c \<Longrightarrow> \<exists>c'. Put now key c = Inr c' \<and> cache_ok c' \<and> ttl c' = ttl c \<and> evicting c' = evicting c"
  by (cases "cache_entries c") (auto simp: cache_ok_def Put_def distinct_update)

lemma Put_lookup:
  "Put now key c = Inr c' \<Longrightarrow>
     mlookup (cache_entries c') k = (if k = key then Some now else mlookup (cache_entries c) k)"
  by (auto simp: Put_def bindG_eq_Inr mlookup_mput)

lemma Put_fields: "Put now key c = Inr c' \<Longrightarrow> ttl c' = ttl c \<and> evicting c' = evicting c"
  by (auto simp: Put_def bindG_eq_Inr)

text \<open>Times of the next millennia do not wrap around.\<close>

definition sane_time :: "int64 \<Rightarrow> bool" where
  "sane_time t \<longleftrightarrow> 0 \<le> sint t \<and> sint t < 2 ^ 62"

lemma sint_diff:
  assumes "sane_time a" and "sane_time b"
  shows "sint (a - b) = sint a - sint b"
proof -
  have "- (2 ^ 63) \<le> sint a - sint b" "sint a - sint b < 2 ^ 63"
    using assms by (auto simp: sane_time_def)
  then show ?thesis
    by (simp add: sint_word_ariths signed_take_bit_int_eq_self_iff)
qed

lemma expired_iff:
  assumes "sane_time now" and "sane_time v" and "0 \<le> ttl_ms" and "ttl_ms \<le> MaxPlanCacheTTL"
  shows "expired ttl_ms now v \<longleftrightarrow> ttl_ms < sint now - sint v"
proof -
  have "sint (word_of_int ttl_ms :: int64) = ttl_ms"
    using assms(3,4) by (simp add: config_limits sint_sbintrunc' signed_take_bit_int_eq_self_iff)
  then show ?thesis by (simp add: expired_def less_s_def sint_diff [OF assms(1,2)])
qed

section \<open>The contract of the cache\<close>

locale recent_keys =
  fixes put :: "int64 \<Rightarrow> string \<Rightarrow> 'c \<Rightarrow> 'c go"
    and tick :: "int64 \<Rightarrow> 'c \<Rightarrow> 'c"
    and isin :: "'c \<Rightarrow> string \<Rightarrow> bool"
    and since :: "'c \<Rightarrow> string \<Rightarrow> int64 option"
    and span :: "'c \<Rightarrow> int"
    and ok :: "'c \<Rightarrow> bool"
  assumes put_ok: "ok c \<Longrightarrow> \<exists>c'. put now key c = Inr c' \<and> ok c' \<and> span c' = span c"
    and tick_ok: "ok c \<Longrightarrow> ok (tick now c) \<and> span (tick now c) = span c"
    and isin_since: "isin c key \<longleftrightarrow> since c key \<noteq> None"
    and put_since: "put now key c = Inr c' \<Longrightarrow> since c' k = (if k = key then Some now else since c k)"
    and tick_keeps: "ok c \<Longrightarrow> since c key = Some t \<Longrightarrow> sane_time now \<Longrightarrow> sane_time t \<Longrightarrow>
      sint now - sint t \<le> span c \<Longrightarrow> since (tick now c) key = Some t"
    and tick_adds_none: "ok c \<Longrightarrow> since (tick now c) key = Some t \<Longrightarrow> since c key = Some t"
begin

lemma put_isin: "put now key c = Inr c' \<Longrightarrow> isin c' k \<longleftrightarrow> k = key \<or> isin c k"
  by (simp add: isin_since put_since)

lemma tick_isin: "ok c \<Longrightarrow> isin (tick now c) k \<Longrightarrow> isin c k"
  using tick_adds_none by (auto simp: isin_since)

lemma ticks_keep:
  assumes "ok c" and "since c key = Some t" and "sane_time t"
    and "\<forall>now \<in> set nows. sane_time now \<and> sint now - sint t \<le> span c"
  shows "since (fold tick nows c) key = Some t"
  using assms
proof (induction nows arbitrary: c)
  case Nil
  then show ?case by simp
next
  case (Cons now nows)
  have t: "ok (tick now c)" "span (tick now c) = span c" using tick_ok [OF Cons.prems(1)] by auto
  moreover have "since (tick now c) key = Some t"
    using Cons.prems by (intro tick_keeps) auto
  ultimately show ?case using Cons.IH Cons.prems(3,4) by simp
qed

lemma put_then_ticks:
  assumes "ok c" and "put now key c = Inr c'" and "sane_time now"
    and "\<forall>later \<in> set laters. sane_time later \<and> sint later - sint now \<le> span c"
  shows "isin (fold tick laters c') key"
proof -
  have "ok c'" "span c' = span c" using put_ok [OF assms(1), of now key] assms(2) by auto
  moreover have "since c' key = Some now" using put_since [OF assms(2)] by simp
  ultimately show ?thesis using ticks_keep [of c' key now laters] assms(3,4) by (simp add: isin_since)
qed

end

interpretation plan_cache: recent_keys Put evict IsIn "\<lambda>c. mlookup (cache_entries c)" ttl cache_ok
proof unfold_locales
  fix c c' :: TTLCache and now t :: int64 and key k
  show "cache_ok c \<Longrightarrow> \<exists>c'. Put now key c = Inr c' \<and> cache_ok c' \<and> ttl c' = ttl c"
    using Put_total by blast
  show "cache_ok c \<Longrightarrow> cache_ok (evict now c) \<and> ttl (evict now c) = ttl c"
    by (simp add: evict_ok)
  show "IsIn c key \<longleftrightarrow> mlookup (cache_entries c) key \<noteq> None"
    by (simp add: IsIn_def)
  show "Put now key c = Inr c' \<Longrightarrow>
      mlookup (cache_entries c') k = (if k = key then Some now else mlookup (cache_entries c) k)"
    by (rule Put_lookup)
  show "cache_ok c \<Longrightarrow> mlookup (cache_entries c) key = Some t \<Longrightarrow> sane_time now \<Longrightarrow> sane_time t \<Longrightarrow>
      sint now - sint t \<le> ttl c \<Longrightarrow> mlookup (cache_entries (evict now c)) key = Some t"
    by (simp add: evict_lookup expired_iff cache_ok_def)
  show "cache_ok c \<Longrightarrow> mlookup (cache_entries (evict now c)) key = Some t \<Longrightarrow>
      mlookup (cache_entries c) key = Some t"
    by (simp add: evict_lookup split: option.splits if_splits)
qed

section \<open>The properties of the cache\<close>

text \<open>
  An entry lives exactly as long as it should: after \<open>Put\<close>, every tick up to the time to live
  keeps the key in the cache, and the first tick after that removes it, provided the cache was built
  with timings in range.
\<close>
theorem entry_lifetime:
  assumes "cache_ok c" and "evicting c" and "Put now key c = Inr c'" and "sane_time now" and "sane_time late"
    and "\<forall>t \<in> set ticks. sane_time t \<and> sint t - sint now \<le> ttl c"
  shows "IsIn (fold evict ticks c') key \<and>
    (ttl c < sint late - sint now \<longrightarrow> \<not> IsIn (evict late (fold evict ticks c')) key)"
proof -
  have c': "cache_ok c'" "ttl c' = ttl c" "evicting c'"
    using Put_total [OF assms(1), of now key] assms(2,3) by auto
  have fields: "cache_ok (fold evict ts d) \<and> ttl (fold evict ts d) = ttl d \<and>
      evicting (fold evict ts d) = evicting d" if "cache_ok d" for ts d
    using that by (induction ts arbitrary: d) (simp_all add: evict_ok)
  have since: "mlookup (cache_entries (fold evict ticks c')) key = Some now"
    using plan_cache.ticks_keep [OF c'(1), of key now ticks] assms(4,6) c'(2) Put_lookup [OF assms(3), of key]
    by simp
  moreover have "0 \<le> ttl c" "ttl c \<le> MaxPlanCacheTTL" using assms(1) by (simp_all add: cache_ok_def)
  ultimately show ?thesis
    using fields [OF c'(1)] c'(2,3) assms(4,5) by (simp add: IsIn_def evict_lookup expired_iff)
qed

theorem entry_lifetime_witness:
  "case Put 1000 ''ns/intent'' (NewCache 500 100) of
     Inl _ \<Rightarrow> False
   | Inr c \<Rightarrow> IsIn (fold evict [1100, 1500] c) ''ns/intent'' \<and>
       \<not> IsIn (evict 1501 (fold evict [1100, 1500] c)) ''ns/intent''"
proof -
  have ok: "cache_ok (NewCache 500 100)" by (rule NewCache_ok) (simp_all add: config_limits)
  moreover have "evicting (NewCache 500 100)" by (simp add: config_limits)
  moreover obtain c where c: "Put 1000 ''ns/intent'' (NewCache 500 100) = Inr c"
    using Put_total [OF ok] by blast
  ultimately show ?thesis
    using entry_lifetime [of "NewCache 500 100" 1000 "''ns/intent''" c 1501 "[1100, 1500]"]
    by (simp add: sane_time_def)
qed

end
