(* ===== verification/Intent_Controller.thy ===== *)
theory Intent_Controller
  imports State_Helper TTL_Cache State_Graph
begin

text \<open>
  \<^verbatim>\<open>pkg/controller/intent_controller.go\<close>: the controller as a state machine.
  Its goroutines are the three that receive updates, the ticker, and the
  workers; a step is what one of them does between two points at which it can be
  held up.  \<open>sending\<close> is a run of \<open>processIntents\<close>: it holds the lock on the
  intents until every key is in the channel, so every other access to the
  intents waits for it.  The channel holds at most \<open>capacity\<close> keys.  What a worker
  measures and plans is the argument of the step relation; the order in which
  \<open>processIntents\<close> visits the map is part of the event that starts it.
\<close>

section \<open>Updates\<close>

definition handle_intent :: "Intent \<Rightarrow> (string, Intent) gomap \<Rightarrow> (string, Intent) gomap go" where
  "handle_intent e intents =
     (if 0 \<le> Priority e then mput intents (IntentKey e) e else Inr (mdelete intents (IntentKey e)))"

definition handle_profile :: "Profile \<Rightarrow> profiles \<Rightarrow> profiles go" where
  "handle_profile e profiles =
     (if TypeOf e \<noteq> Obsolete then mput profiles (ProfileKey e) e else Inr (mdelete profiles (ProfileKey e)))"

definition handle_pod_error :: "PodError \<Rightarrow> pod_errors \<Rightarrow> pod_errors go" where
  \<comment> \<open>the zero time is 0\<close>
  "handle_pod_error e podErrors =
     (if Start e = 0 then Inr (mdelete podErrors (ErrorKey e))
      else mput podErrors (ErrorKey e) (mget [] podErrors (ErrorKey e) @ [e]))"

section \<open>The state machine\<close>

datatype source = Intents | Profiles | PodErrors | Ticker   \<comment> \<open>the goroutines that call \<open>processIntents\<close>\<close>

datatype worker =
    Idle
  | Received string                 \<comment> \<open>has a key and waits for the lock on the intents\<close>
  | Planning string State State     \<comment> \<open>has read the current and the desired state\<close>

record controller =
  intents :: "(string, Intent) gomap"
  known_profiles :: profiles
  podErrors :: pod_errors
  warmupDone :: bool
  tasks :: "string list"
  planCache :: TTLCache
  planner_set :: bool
  pending :: "source list"                       \<comment> \<open>goroutines about to run \<open>processIntents\<close>\<close>
  sending :: "(source \<times> string list) option"     \<comment> \<open>the run that holds the lock, and its keys to come\<close>
  workers :: "worker list"
  executions :: "(string \<times> Action list \<times> int64) list"
  traced :: "(State \<times> State \<times> Action list) list"

record environment =
  capacity :: nat
  measure_state :: "int \<Rightarrow> Intent \<Rightarrow> pod_errors \<Rightarrow> profiles \<Rightarrow> State go"
  create_plan :: "State \<Rightarrow> State \<Rightarrow> profiles \<Rightarrow> Action list"

definition NewController :: "ControllerConfig \<Rightarrow> controller option" where
  "NewController cfg =
     (if TaskChannelLength cfg \<le> 0 \<or> TaskChannelLength cfg > MaxTaskChannelLen then None
      else Some \<lparr>intents = mmake, known_profiles = mmake, podErrors = mmake, warmupDone = False,
        tasks = [], planCache = NewCache (PlanCacheTTL cfg) (PlanCacheTimeout cfg), planner_set = False,
        pending = [], sending = None, workers = [], executions = [], traced = []\<rparr>)"

definition SetPlanner :: "bool \<Rightarrow> controller \<Rightarrow> controller" where
  "SetPlanner planner c = c\<lparr>planner_set := planner\<rparr>"

definition Run :: "nat \<Rightarrow> controller \<Rightarrow> controller" where
  "Run nWorkers c = c\<lparr>workers := workers c @ replicate nWorkers Idle\<rparr>"

datatype event =
    UpdateIntent Intent
  | UpdateProfile Profile
  | UpdatePodError PodError
  | Tick
  | ProcessIntents source "string list"   \<comment> \<open>takes the lock; the keys in the order of the visit\<close>
  | Send                                  \<comment> \<open>the next key of the run\<close>
  | Unlock
  | Take nat                              \<comment> \<open>the worker receives a key\<close>
  | Read int nat                          \<comment> \<open>the worker reads the states\<close>
  | Plan int64 nat
  | Evict int64

definition busy :: "source \<Rightarrow> controller \<Rightarrow> bool" where
  "busy src c \<longleftrightarrow> src \<in> set (pending c) \<or> (\<exists>ks. sending c = Some (src, ks))"

definition intent_of :: "controller \<Rightarrow> string \<Rightarrow> Intent" where
  \<comment> \<open>the read \<open>c.intents[key]\<close>\<close>
  "intent_of c key = mget zero_Intent (intents c) key"

definition start_processing :: "source \<Rightarrow> string list \<Rightarrow> controller \<Rightarrow> controller option" where
  "start_processing src keys c =
     (if src \<notin> set (pending c) then None
      else let c' = c\<lparr>pending := remove1 src (pending c)\<rparr> in
        if \<not> warmupDone c then Some c'
        else if sending c = None \<and> distinct keys \<and> set keys = set (mkeys (intents c))
        then Some (c'\<lparr>sending := Some (src, keys)\<rparr>) else None)"

definition send_key :: "environment \<Rightarrow> controller \<Rightarrow> controller option" where
  "send_key env c =
     (case sending c of
        Some (src, key # keys) \<Rightarrow>
          if IsIn (planCache c) key then Some (c\<lparr>sending := Some (src, keys)\<rparr>)
          else if length (tasks c) < capacity env
          then Some (c\<lparr>sending := Some (src, keys), tasks := tasks c @ [key]\<rparr>)
          else None
      | _ \<Rightarrow> None)"

definition take_key :: "nat \<Rightarrow> controller \<Rightarrow> controller option" where
  "take_key i c =
     (case tasks c of
        key # rest \<Rightarrow>
          if i < length (workers c) \<and> workers c ! i = Idle
          then Some (c\<lparr>tasks := rest,
            workers := (workers c)[i := (if planner_set c then Received key else Idle)]\<rparr>)
          else None
      | [] \<Rightarrow> None)"

definition read_states :: "environment \<Rightarrow> int \<Rightarrow> nat \<Rightarrow> controller \<Rightarrow> controller option" where
  \<comment> \<open>under the lock on the intents; the other two maps are read without theirs\<close>
  "read_states env t i c =
     (if i < length (workers c) \<and> sending c = None then
        (case workers c ! i of
           Received key \<Rightarrow>
             (case measure_state env t (intent_of c key) (podErrors c) (known_profiles c) of
                Inl _ \<Rightarrow> None
              | Inr current \<Rightarrow>
                  Some (c\<lparr>workers := (workers c)[i := Planning key current (getDesiredState (intent_of c key))]\<rparr>))
         | _ \<Rightarrow> None)
      else None)"

definition plan_key :: "environment \<Rightarrow> int64 \<Rightarrow> nat \<Rightarrow> controller \<Rightarrow> controller option" where
  "plan_key env now i c =
     (if i < length (workers c) then
        (case workers c ! i of
           Planning key current desired \<Rightarrow>
             (let plan = create_plan env current desired (known_profiles c);
                  c' = c\<lparr>workers := (workers c)[i := Idle], traced := traced c @ [(current, desired, plan)]\<rparr>
              in if ActivelyManaged (IntentOf desired) \<and> length plan > 0
                 then (case Put now key (planCache c) of
                         Inl _ \<Rightarrow> None
                       | Inr cache \<Rightarrow> Some (c'\<lparr>planCache := cache,
                           executions := executions c @ [(key, plan, now)]\<rparr>))
                 else Some c')
         | _ \<Rightarrow> None)
      else None)"

definition go_option :: "'a go \<Rightarrow> 'a option" where
  "go_option m = (case m of Inl _ \<Rightarrow> None | Inr a \<Rightarrow> Some a)"

fun step :: "environment \<Rightarrow> event \<Rightarrow> controller \<Rightarrow> controller option" where
  \<comment> \<open>\<open>None\<close>: the event cannot happen now\<close>
  "step env (UpdateIntent e) c =
     (if busy Intents c \<or> sending c \<noteq> None then None
      else map_option (\<lambda>m. c\<lparr>intents := m, pending := pending c @ [Intents]\<rparr>)
        (go_option (handle_intent e (intents c))))"
| "step env (UpdateProfile e) c =
     (if busy Profiles c then None
      else map_option (\<lambda>m. c\<lparr>known_profiles := m, pending := pending c @ [Profiles]\<rparr>)
        (go_option (handle_profile e (known_profiles c))))"
| "step env (UpdatePodError e) c =
     (if busy PodErrors c then None
      else map_option (\<lambda>m. c\<lparr>podErrors := m, pending := pending c @ [PodErrors]\<rparr>)
        (go_option (handle_pod_error e (podErrors c))))"
| "step env Tick c =
     (if busy Ticker c then None else Some (c\<lparr>warmupDone := True, pending := pending c @ [Ticker]\<rparr>))"
| "step env (ProcessIntents src keys) c = start_processing src keys c"
| "step env Send c = send_key env c"
| "step env Unlock c =
     (case sending c of Some (src, []) \<Rightarrow> Some (c\<lparr>sending := None\<rparr>) | _ \<Rightarrow> None)"
| "step env (Take i) c = take_key i c"
| "step env (Read t i) c = read_states env t i c"
| "step env (Plan now i) c = plan_key env now i c"
| "step env (Evict now) c = Some (c\<lparr>planCache := evict now (planCache c)\<rparr>)"

fun run :: "environment \<Rightarrow> event list \<Rightarrow> controller \<Rightarrow> controller option" where
  "run env [] c = Some c"
| "run env (e # es) c = (case step env e c of None \<Rightarrow> None | Some c' \<Rightarrow> run env es c')"

inductive reachable :: "environment \<Rightarrow> controller \<Rightarrow> controller \<Rightarrow> bool" for env where
  reach_start: "reachable env c c"
| reach_step: "reachable env c c' \<Longrightarrow> step env e c' = Some c'' \<Longrightarrow> reachable env c c''"

lemma run_append: "run env (es @ fs) c = (case run env es c of None \<Rightarrow> None | Some c' \<Rightarrow> run env fs c')"
  by (induction es arbitrary: c) (auto split: option.splits)

lemma run_reachable: "run env es c = Some c' \<Longrightarrow> reachable env c c'"
  by (induction es arbitrary: c' rule: rev_induct)
    (auto simp: run_append intro: reachable.intros split: option.splits)

lemma reachable_run: "reachable env c c' \<Longrightarrow> \<exists>es. run env es c = Some c'"
proof (induction rule: reachable.induct)
  case (reach_start c)
  then show ?case by (intro exI [of _ "[]"]) simp
next
  case (reach_step c c' e c'')
  then obtain es where "run env es c = Some c'" by blast
  then show ?case using reach_step by (intro exI [of _ "es @ [e]"]) (simp add: run_append)
qed

section \<open>The maps the updates maintain\<close>

definition maps_ok :: "controller \<Rightarrow> bool" where
  "maps_ok c \<longleftrightarrow>
     intents c \<noteq> None \<and> wf_map (intents c) \<and>
     (\<forall>k i. mlookup (intents c) k = Some i \<longrightarrow> IntentKey i = k \<and> 0 \<le> Priority i) \<and>
     known_profiles c \<noteq> None \<and> wf_map (known_profiles c) \<and>
     (\<forall>k p. mlookup (known_profiles c) k = Some p \<longrightarrow> ProfileKey p = k \<and> TypeOf p \<noteq> Obsolete) \<and>
     podErrors c \<noteq> None \<and> wf_map (podErrors c) \<and>
     (\<forall>k es. mlookup (podErrors c) k = Some es \<longrightarrow> es \<noteq> [] \<and> (\<forall>e \<in> set es. ErrorKey e = k \<and> Start e \<noteq> 0))"

definition channel_ok :: "environment \<Rightarrow> controller \<Rightarrow> bool" where
  "channel_ok env c \<longleftrightarrow>
     length (tasks c) \<le> capacity env \<and> cache_ok (planCache c) \<and> distinct (pending c) \<and>
     (\<forall>src keys. sending c = Some (src, keys) \<longrightarrow>
        src \<notin> set (pending c) \<and> distinct keys \<and> set keys \<subseteq> set (mkeys (intents c)))"

lemma maps_ok_cong:
  "maps_ok c \<Longrightarrow> intents c' = intents c \<Longrightarrow> known_profiles c' = known_profiles c \<Longrightarrow>
     podErrors c' = podErrors c \<Longrightarrow> maps_ok c'"
  by (simp add: maps_ok_def)

lemma handle_intent_ok:
  assumes "m \<noteq> None" and "wf_map m"
  obtains m' where "handle_intent e m = Inr m'" "m' \<noteq> None" "wf_map m'"
    "\<forall>k. mlookup m' k = (if k = IntentKey e then (if 0 \<le> Priority e then Some e else None) else mlookup m k)"
proof (cases "0 \<le> Priority e")
  case True
  obtain m' where m': "mput m (IntentKey e) e = Inr m'" using mput_nonnil [OF assms(1)] by blast
  with True mlookup_mput [OF m'] wf_map_mput [OF m' assms(2)] mput_not_nil [OF m'] show thesis
    by (intro that [of m']) (simp_all add: handle_intent_def)
next
  case False
  with assms show thesis
    by (intro that [of "mdelete m (IntentKey e)"])
      (auto simp: handle_intent_def mlookup_mdelete wf_map_mdelete simp del: not_None_eq)
qed

lemma handle_profile_ok:
  assumes "m \<noteq> None" and "wf_map m"
  obtains m' where "handle_profile e m = Inr m'" "m' \<noteq> None" "wf_map m'"
    "\<forall>k. mlookup m' k = (if k = ProfileKey e then (if TypeOf e \<noteq> Obsolete then Some e else None) else mlookup m k)"
proof (cases "TypeOf e \<noteq> Obsolete")
  case True
  obtain m' where m': "mput m (ProfileKey e) e = Inr m'" using mput_nonnil [OF assms(1)] by blast
  with True mlookup_mput [OF m'] wf_map_mput [OF m' assms(2)] mput_not_nil [OF m'] show thesis
    by (intro that [of m']) (simp_all add: handle_profile_def)
next
  case False
  with assms show thesis
    by (intro that [of "mdelete m (ProfileKey e)"])
      (auto simp: handle_profile_def mlookup_mdelete wf_map_mdelete simp del: not_None_eq)
qed

lemma handle_pod_error_ok:
  assumes "m \<noteq> None" and "wf_map m"
  obtains m' where "handle_pod_error e m = Inr m'" "m' \<noteq> None" "wf_map m'"
    "\<forall>k. mlookup m' k = (if k = ErrorKey e then (if Start e = 0 then None else Some (mget [] m k @ [e])) else mlookup m k)"
proof (cases "Start e = 0")
  case False
  obtain m' where m': "mput m (ErrorKey e) (mget [] m (ErrorKey e) @ [e]) = Inr m'"
    using mput_nonnil [OF assms(1)] by blast
  with False mlookup_mput [OF m'] wf_map_mput [OF m' assms(2)] mput_not_nil [OF m'] show thesis
    by (intro that [of m']) (simp_all add: handle_pod_error_def)
next
  case True
  with assms show thesis
    by (intro that [of "mdelete m (ErrorKey e)"])
      (auto simp: handle_pod_error_def mlookup_mdelete wf_map_mdelete simp del: not_None_eq)
qed

lemma step_update_intent:
  assumes "step env (UpdateIntent e) c = Some c'" and "maps_ok c"
  obtains m where "c' = c\<lparr>intents := m, pending := pending c @ [Intents]\<rparr>" "m \<noteq> None" "wf_map m" "sending c = None"
    "\<forall>k. mlookup m k = (if k = IntentKey e then (if 0 \<le> Priority e then Some e else None) else mlookup (intents c) k)"
    "\<not> busy Intents c"
proof -
  have i: "intents c \<noteq> None" "wf_map (intents c)" using assms(2) by (auto simp: maps_ok_def)
  obtain m where m: "handle_intent e (intents c) = Inr m" "m \<noteq> None" "wf_map m"
    "\<forall>k. mlookup m k = (if k = IntentKey e then (if 0 \<le> Priority e then Some e else None) else mlookup (intents c) k)"
    by (rule handle_intent_ok [OF i])
  with assms(1) show thesis
    by (intro that [of m]) (simp_all add: go_option_def split: if_splits del: not_None_eq)
qed

lemma step_update_profile:
  assumes "step env (UpdateProfile e) c = Some c'" and "maps_ok c"
  obtains m where "c' = c\<lparr>known_profiles := m, pending := pending c @ [Profiles]\<rparr>" "m \<noteq> None" "wf_map m"
    "\<forall>k. mlookup m k = (if k = ProfileKey e then (if TypeOf e \<noteq> Obsolete then Some e else None) else mlookup (known_profiles c) k)"
    "\<not> busy Profiles c"
proof -
  have i: "known_profiles c \<noteq> None" "wf_map (known_profiles c)" using assms(2) by (auto simp: maps_ok_def)
  obtain m where m: "handle_profile e (known_profiles c) = Inr m" "m \<noteq> None" "wf_map m"
    "\<forall>k. mlookup m k = (if k = ProfileKey e then (if TypeOf e \<noteq> Obsolete then Some e else None) else mlookup (known_profiles c) k)"
    by (rule handle_profile_ok [OF i])
  with assms(1) show thesis
    by (intro that [of m]) (simp_all add: go_option_def split: if_splits del: not_None_eq)
qed

lemma step_update_pod_error:
  assumes "step env (UpdatePodError e) c = Some c'" and "maps_ok c"
  obtains m where "c' = c\<lparr>podErrors := m, pending := pending c @ [PodErrors]\<rparr>" "m \<noteq> None" "wf_map m"
    "\<forall>k. mlookup m k = (if k = ErrorKey e then (if Start e = 0 then None else Some (mget [] (podErrors c) k @ [e])) else mlookup (podErrors c) k)"
    "\<not> busy PodErrors c"
proof -
  have i: "podErrors c \<noteq> None" "wf_map (podErrors c)" using assms(2) by (auto simp: maps_ok_def)
  obtain m where m: "handle_pod_error e (podErrors c) = Inr m" "m \<noteq> None" "wf_map m"
    "\<forall>k. mlookup m k = (if k = ErrorKey e then (if Start e = 0 then None else Some (mget [] (podErrors c) k @ [e])) else mlookup (podErrors c) k)"
    by (rule handle_pod_error_ok [OF i])
  with assms(1) show thesis
    by (intro that [of m]) (simp_all add: go_option_def split: if_splits del: not_None_eq)
qed

lemmas handler_defs = start_processing_def send_key_def take_key_def read_states_def plan_key_def

lemmas handler_splits = if_splits option.splits list.splits sum.splits worker.splits prod.splits

lemma step_keeps_maps:
  "step env e c = Some c' \<Longrightarrow> (\<forall>i. e \<noteq> UpdateIntent i) \<Longrightarrow> intents c' = intents c"
  "step env e c = Some c' \<Longrightarrow> (\<forall>p. e \<noteq> UpdateProfile p) \<Longrightarrow> known_profiles c' = known_profiles c"
  "step env e c = Some c' \<Longrightarrow> (\<forall>p. e \<noteq> UpdatePodError p) \<Longrightarrow> podErrors c' = podErrors c"
  by (cases e; auto simp: handler_defs Let_def go_option_def split: handler_splits)+

lemma maps_ok_step:
  assumes "step env e c = Some c'" and ok: "maps_ok c"
  shows "maps_ok c'"
proof -
  have other: "maps_ok c'" if "\<forall>i. e \<noteq> UpdateIntent i" "\<forall>p. e \<noteq> UpdateProfile p" "\<forall>p. e \<noteq> UpdatePodError p"
    using maps_ok_cong [OF ok] step_keeps_maps [OF assms(1)] that by blast
  show ?thesis
  proof (cases e)
    case (UpdateIntent i)
    with assms(1) have "step env (UpdateIntent i) c = Some c'" by simp
    then show ?thesis
    proof (rule step_update_intent [OF _ ok])
      fix m
      assume "c' = c\<lparr>intents := m, pending := pending c @ [Intents]\<rparr>" "m \<noteq> None" "wf_map m"
        "\<forall>k. mlookup m k = (if k = IntentKey i then (if 0 \<le> Priority i then Some i else None) else mlookup (intents c) k)"
      with ok show ?thesis by (simp add: maps_ok_def del: not_None_eq)
    qed
  next
    case (UpdateProfile p)
    with assms(1) have "step env (UpdateProfile p) c = Some c'" by simp
    then show ?thesis
    proof (rule step_update_profile [OF _ ok])
      fix m
      assume "c' = c\<lparr>known_profiles := m, pending := pending c @ [Profiles]\<rparr>" "m \<noteq> None" "wf_map m"
        "\<forall>k. mlookup m k = (if k = ProfileKey p then (if TypeOf p \<noteq> Obsolete then Some p else None) else mlookup (known_profiles c) k)"
      with ok show ?thesis by (simp add: maps_ok_def del: not_None_eq)
    qed
  next
    case (UpdatePodError p)
    with assms(1) have "step env (UpdatePodError p) c = Some c'" by simp
    then show ?thesis
    proof (rule step_update_pod_error [OF _ ok])
      fix m
      assume m: "c' = c\<lparr>podErrors := m, pending := pending c @ [PodErrors]\<rparr>" "m \<noteq> None" "wf_map m"
        "\<forall>k. mlookup m k = (if k = ErrorKey p then (if Start p = 0 then None else Some (mget [] (podErrors c) k @ [p])) else mlookup (podErrors c) k)"
      have "\<forall>e \<in> set (mget [] (podErrors c) k). ErrorKey e = k \<and> Start e \<noteq> 0" for k
        using ok by (cases "mlookup (podErrors c) k") (auto simp: maps_ok_def mget_def)
      with m ok show ?thesis by (auto simp: maps_ok_def simp del: not_None_eq split: if_splits)
    qed
  qed (rule other; simp)+
qed

lemma channel_ok_step:
  assumes st: "step env e c = Some c'" and ok: "maps_ok c" and ch: "channel_ok env c"
  shows "channel_ok env c'"
proof (cases e)
  case (UpdateIntent i)
  with st have "step env (UpdateIntent i) c = Some c'" by simp
  then show ?thesis by (rule step_update_intent [OF _ ok]) (use ch in \<open>auto simp: channel_ok_def busy_def\<close>)
next
  case (UpdateProfile p)
  with st have "step env (UpdateProfile p) c = Some c'" by simp
  then show ?thesis by (rule step_update_profile [OF _ ok]) (use ch in \<open>auto simp: channel_ok_def busy_def\<close>)
next
  case (UpdatePodError p)
  with st have "step env (UpdatePodError p) c = Some c'" by simp
  then show ?thesis by (rule step_update_pod_error [OF _ ok]) (use ch in \<open>auto simp: channel_ok_def busy_def\<close>)
next
  case Tick
  with st ch show ?thesis by (auto simp: channel_ok_def busy_def split: if_splits)
next
  case (ProcessIntents src keys)
  with st ch show ?thesis
    by (auto simp: channel_ok_def start_processing_def Let_def split: if_splits)
next
  case Send
  with st ch show ?thesis
    by (auto simp: channel_ok_def send_key_def split: if_splits option.splits list.splits) blast+
next
  case Unlock
  with st ch show ?thesis
    by (auto simp: channel_ok_def split: option.splits list.splits)
next
  case (Take i)
  with st ch show ?thesis
    by (auto simp: channel_ok_def take_key_def split: if_splits list.splits)
next
  case (Read t i)
  with st ch show ?thesis
    by (auto simp: channel_ok_def read_states_def split: if_splits worker.splits sum.splits)
next
  case (Plan now i)
  with st ch show ?thesis
    using Put_total [of "planCache c"]
    by (auto simp: channel_ok_def plan_key_def Let_def split: if_splits worker.splits sum.splits)
      (metis Inr_inject)+
next
  case (Evict now)
  with st ch show ?thesis by (auto simp: channel_ok_def evict_ok)
qed

lemma new_controller_ok:
  assumes "NewController cfg = Some c" and "0 \<le> PlanCacheTTL cfg" and "PlanCacheTTL cfg \<le> MaxPlanCacheTTL"
  shows "maps_ok c" and "channel_ok env c"
  using assms by (auto simp: NewController_def maps_ok_def channel_ok_def NewCache_ok split: if_splits)

lemma run_ok:
  "run env es c = Some c' \<Longrightarrow> maps_ok c \<Longrightarrow> channel_ok env c \<Longrightarrow> maps_ok c' \<and> channel_ok env c'"
proof (induction es arbitrary: c)
  case Nil
  then show ?case by simp
next
  case (Cons e es)
  then obtain d where d: "step env e c = Some d" "run env es d = Some c'" by (auto split: option.splits)
  with Cons maps_ok_step [OF d(1)] channel_ok_step [OF d(1)] show ?case by blast
qed

section \<open>The start of the controller\<close>

definition start_controller :: "ControllerConfig \<Rightarrow> nat \<Rightarrow> controller option" where
  "start_controller cfg nWorkers = map_option (Run nWorkers \<circ> SetPlanner True) (NewController cfg)"

lemma start_controller_Some:
  "start_controller cfg n = Some c \<longleftrightarrow> 0 < TaskChannelLength cfg \<and> TaskChannelLength cfg \<le> MaxTaskChannelLen \<and>
     c = \<lparr>intents = mmake, known_profiles = mmake, podErrors = mmake, warmupDone = False,
        tasks = [], planCache = NewCache (PlanCacheTTL cfg) (PlanCacheTimeout cfg), planner_set = True,
        pending = [], sending = None, workers = replicate n Idle, executions = [], traced = []\<rparr>"
  by (auto simp: start_controller_def NewController_def Run_def SetPlanner_def split: if_splits)

lemma start_controller_ok:
  "start_controller cfg n = Some c \<Longrightarrow> 0 \<le> PlanCacheTTL cfg \<Longrightarrow> PlanCacheTTL cfg \<le> MaxPlanCacheTTL \<Longrightarrow>
     maps_ok c \<and> channel_ok env c"
  by (auto simp: start_controller_Some maps_ok_def channel_ok_def NewCache_ok)

definition updates :: "event list \<Rightarrow> Intent list" where
  "updates es = concat (map (\<lambda>e. case e of UpdateIntent i \<Rightarrow> [i] | _ \<Rightarrow> []) es)"

lemma updates_simps [simp]: "updates [] = []" "updates (es @ fs) = updates es @ updates fs"
  "updates [UpdateIntent i] = [i]" "(\<forall>i. e \<noteq> UpdateIntent i) \<Longrightarrow> updates [e] = []"
  by (auto simp: updates_def split: event.splits)

lemma run_snoc_cases:
  assumes "run env (es @ [e]) c = Some c''"
  obtains c' where "run env es c = Some c'" "step env e c' = Some c''"
  using assms by (auto simp: run_append split: option.splits)

definition expected_intent :: "Intent list \<Rightarrow> string \<Rightarrow> Intent option" where
  \<comment> \<open>what the last update for a key leaves behind\<close>
  "expected_intent us k =
     (case find (\<lambda>i. IntentKey i = k) (rev us) of
        None \<Rightarrow> None | Some i \<Rightarrow> if 0 \<le> Priority i then Some i else None)"

lemma expected_snoc:
  "expected_intent (us @ [i]) k =
     (if k = IntentKey i then (if 0 \<le> Priority i then Some i else None) else expected_intent us k)"
  by (auto simp: expected_intent_def)

lemma intents_expected:
  assumes "run env es c = Some c'" and "maps_ok c" and "channel_ok env c" and "intents c = mmake"
  shows "mlookup (intents c') k = expected_intent (updates es) k"
  using assms(1)
proof (induction es arbitrary: c' rule: rev_induct)
  case Nil
  then show ?case using assms(4) by (simp add: expected_intent_def)
next
  case (snoc e es)
  obtain d where d: "run env es c = Some d" "step env e d = Some c'"
    using snoc.prems by (rule run_snoc_cases)
  have ok: "maps_ok d" using run_ok [OF d(1) assms(2,3)] by blast
  show ?case
  proof (cases "\<exists>i. e = UpdateIntent i")
    case True
    then obtain i where e: "e = UpdateIntent i" by blast
    have "step env (UpdateIntent i) d = Some c'" using d(2) e by simp
    then show ?thesis
      by (rule step_update_intent [OF _ ok]) (simp add: e expected_snoc snoc.IH [OF d(1)])
  next
    case False
    then have "intents c' = intents d" using step_keeps_maps(1) [OF d(2)] by blast
    with False snoc.IH [OF d(1)] show ?thesis by simp
  qed
qed

section \<open>What is executed\<close>

definition justified_state :: "Intent list \<Rightarrow> string \<Rightarrow> State \<Rightarrow> bool" where
  "justified_state us key desired \<longleftrightarrow>
     (ActivelyManaged (IntentOf desired) \<longrightarrow>
        IntentOf desired \<in> set us \<and> IntentKey (IntentOf desired) = key \<and> 0 \<le> Priority (IntentOf desired))"

fun worker_ok :: "Intent list \<Rightarrow> worker \<Rightarrow> bool" where
  "worker_ok us (Planning key current desired) = justified_state us key desired"
| "worker_ok us w = True"

definition executions_ok :: "Intent list \<Rightarrow> controller \<Rightarrow> bool" where
  "executions_ok us c \<longleftrightarrow>
     (\<forall>w \<in> set (workers c). worker_ok us w) \<and>
     (\<forall>(key, plan, t) \<in> set (executions c). plan \<noteq> [] \<and>
        (\<exists>i \<in> set us. IntentKey i = key \<and> ActivelyManaged i \<and> 0 \<le> Priority i))"

lemma justified_mono: "justified_state us key d \<Longrightarrow> set us \<subseteq> set us' \<Longrightarrow> justified_state us' key d"
  by (auto simp: justified_state_def)

lemma worker_ok_mono: "worker_ok us w \<Longrightarrow> set us \<subseteq> set us' \<Longrightarrow> worker_ok us' w"
  by (cases w) (auto intro: justified_mono)

lemma executions_ok_mono: "executions_ok us c \<Longrightarrow> set us \<subseteq> set us' \<Longrightarrow> executions_ok us' c"
  unfolding executions_ok_def using worker_ok_mono by (fastforce simp: subset_iff)

lemma executions_ok_cong:
  "executions_ok us c \<Longrightarrow> workers c' = workers c \<Longrightarrow> executions c' = executions c \<Longrightarrow> executions_ok us c'"
  by (simp add: executions_ok_def)

lemma step_keeps_workers:
  "step env e c = Some c' \<Longrightarrow> (\<forall>i. e \<noteq> Take i) \<Longrightarrow> (\<forall>t i. e \<noteq> Read t i) \<Longrightarrow> (\<forall>t i. e \<noteq> Plan t i) \<Longrightarrow>
     workers c' = workers c \<and> executions c' = executions c"
  by (cases e) (auto simp: handler_defs Let_def go_option_def split: handler_splits)

lemma executions_ok_workers:
  assumes "executions_ok us c" and "set (workers c') \<subseteq> insert w (set (workers c))"
    and "executions c' = executions c" and "worker_ok us w"
  shows "executions_ok us c'"
proof -
  have "\<forall>v \<in> insert w (set (workers c)). worker_ok us v" using assms(1,4) by (simp add: executions_ok_def)
  then have "\<forall>v \<in> set (workers c'). worker_ok us v" using assms(2) by blast
  with assms(1,3) show ?thesis by (simp add: executions_ok_def)
qed

lemma executions_ok_step:
  assumes st: "step env e c = Some c'" and ok: "executions_ok us c"
    and known: "\<And>k i. mlookup (intents c) k = Some i \<Longrightarrow> i \<in> set us \<and> IntentKey i = k \<and> 0 \<le> Priority i"
  shows "executions_ok us c'"
proof -
  have other: "executions_ok us c'" if "\<forall>i. e \<noteq> Take i" "\<forall>t i. e \<noteq> Read t i" "\<forall>t i. e \<noteq> Plan t i"
    using executions_ok_cong [OF ok] step_keeps_workers [OF st] that by blast
  show ?thesis
proof (cases e)
  case (Take i)
  with st obtain w where "workers c' = (workers c)[i := w]" "executions c' = executions c"
    "worker_ok us w"
    by (auto simp: take_key_def split: if_splits list.splits)
  then show ?thesis by (intro executions_ok_workers [OF ok _ _ \<open>worker_ok us w\<close>]) (simp_all add: set_update_subset_insert)
next
  case (Read t i)
  with st obtain key current where w: "workers c' = (workers c)[i := Planning key current (getDesiredState (intent_of c key))]"
    "executions c' = executions c"
    by (auto simp: read_states_def split: if_splits worker.splits sum.splits)
  have "justified_state us key (getDesiredState (intent_of c key))"
    using known [of key] by (auto simp: justified_state_def getDesiredState_def intent_of_def mget_def zero_Intent_def split: option.splits)
  then have "worker_ok us (Planning key current (getDesiredState (intent_of c key)))" by simp
  then show ?thesis
    by (intro executions_ok_workers [OF ok _ w(2), where w = "Planning key current (getDesiredState (intent_of c key))"])
      (simp_all add: w(1) set_update_subset_insert)
next
  case (Plan now i)
  with st obtain key current desired where w: "i < length (workers c)" "workers c ! i = Planning key current desired"
    "workers c' = (workers c)[i := Idle]"
    "executions c' = executions c \<or> ActivelyManaged (IntentOf desired) \<and>
       (\<exists>plan. plan \<noteq> [] \<and> executions c' = executions c @ [(key, plan, now)])"
    by (auto simp: plan_key_def Let_def split: if_splits worker.splits sum.splits)
  then have "Planning key current desired \<in> set (workers c)" by (metis nth_mem)
  then have j: "justified_state us key desired" using ok by (fastforce simp: executions_ok_def)
  have "\<forall>(key, plan, t) \<in> set (executions c'). plan \<noteq> [] \<and>
        (\<exists>i \<in> set us. IntentKey i = key \<and> ActivelyManaged i \<and> 0 \<le> Priority i)"
    using w(4) j ok by (auto simp: executions_ok_def justified_state_def)
  moreover have "\<forall>v \<in> set (workers c'). worker_ok us v"
    using w(3) set_update_subset_insert [of "workers c" i Idle] ok by (fastforce simp: executions_ok_def)
  ultimately show ?thesis by (simp add: executions_ok_def)
qed (rule other; simp)+
qed

lemma run_executions:
  assumes "run env es c = Some c'" and "maps_ok c" and "channel_ok env c" and "intents c = mmake"
    and "executions_ok [] c"
  shows "executions_ok (updates es) c'"
  using assms(1)
proof (induction es arbitrary: c' rule: rev_induct)
  case Nil
  then show ?case using assms(5) by simp
next
  case (snoc e es)
  obtain d where d: "run env es c = Some d" "step env e d = Some c'"
    using snoc.prems by (rule run_snoc_cases)
  have "i \<in> set (updates es) \<and> IntentKey i = k \<and> 0 \<le> Priority i" if "mlookup (intents d) k = Some i" for k i
  proof -
    have "expected_intent (updates es) k = Some i"
      using intents_expected [OF d(1) assms(2-4)] that by simp
    then have "find (\<lambda>i. IntentKey i = k) (rev (updates es)) = Some i" "0 \<le> Priority i"
      by (auto simp: expected_intent_def split: option.splits if_splits)
    moreover from find_SomeD [OF this(1)] have "i \<in> set (updates es) \<and> IntentKey i = k" by simp
    ultimately show ?thesis by blast
  qed
  with executions_ok_step [OF d(2) snoc.IH [OF d(1)]] have "executions_ok (updates es) c'" by blast
  then show ?case by (rule executions_ok_mono) simp
qed

text \<open>
  C16. The controller knows exactly the intents that are in force: after any interleaving of its
  goroutines, the intent stored under a key is the last update received for it, or none if that update
  had a negative priority; the maps of profiles and of pod errors hold no obsolete profile and no empty
  list, and the channel never holds more keys than its capacity.
\<close>
theorem controller_state:
  assumes "start_controller cfg n = Some c" and "valid_config env_host uri config" and "cfg = Controller config"
    and "run env es c = Some c'"
  shows "mlookup (intents c') k = expected_intent (updates es) k \<and> maps_ok c' \<and> channel_ok env c'"
proof -
  have ttl: "0 \<le> PlanCacheTTL cfg" "PlanCacheTTL cfg \<le> MaxPlanCacheTTL"
    using assms(2,3) by (auto simp: valid_config_def)
  have ok: "maps_ok c" "channel_ok env c" using start_controller_ok [OF assms(1) ttl] by auto
  moreover have "intents c = mmake" using assms(1) by (simp add: start_controller_Some)
  ultimately show ?thesis using intents_expected [OF assms(4)] run_ok [OF assms(4)] by blast
qed

text \<open>
  Nothing is executed without a reason: whatever the order of events, every plan the controller
  executed was not empty, and its key belongs to an intent that was received, asked to be actively
  managed, and had a priority that is not negative.
\<close>
theorem execution_justified:
  assumes "start_controller cfg n = Some c" and "0 \<le> PlanCacheTTL cfg" and "PlanCacheTTL cfg \<le> MaxPlanCacheTTL"
    and "run env es c = Some c'" and "(key, plan, t) \<in> set (executions c')"
  shows "plan \<noteq> [] \<and> (\<exists>i. UpdateIntent i \<in> set es \<and> IntentKey i = key \<and> ActivelyManaged i \<and> 0 \<le> Priority i)"
proof -
  have ok: "maps_ok c" "channel_ok env c" using start_controller_ok [OF assms(1-3)] by auto
  moreover have "intents c = mmake" "executions_ok [] c"
    using assms(1) by (auto simp: start_controller_Some executions_ok_def)
  ultimately have "executions_ok (updates es) c'" using run_executions [OF assms(4)] by blast
  then obtain i where "plan \<noteq> []" "i \<in> set (updates es)" "IntentKey i = key" "ActivelyManaged i" "0 \<le> Priority i"
    using assms(5) by (auto simp: executions_ok_def)
  moreover from this(2) have "UpdateIntent i \<in> set es"
    by (auto simp: updates_def split: event.splits)
  ultimately show ?thesis by blast
qed

section \<open>The pause after an execution\<close>

lemma step_cache:
  assumes st: "step env e c = Some c'" and ch: "channel_ok env c" and ok: "maps_ok c"
    and now: "sane_time t0" and since: "mlookup (cache_entries (planCache c)) key = Some t"
    and t: "sane_time t" "sint t0 \<le> sint t"
    and times: "\<forall>u. e = Evict u \<longrightarrow> sane_time u \<and> sint u - sint t0 \<le> ttl (planCache c)"
      "\<forall>u i. e = Plan u i \<longrightarrow> sane_time u \<and> sint t0 \<le> sint u"
  shows "(\<exists>t'. mlookup (cache_entries (planCache c')) key = Some t' \<and> sane_time t' \<and> sint t0 \<le> sint t') \<and>
    ttl (planCache c') = ttl (planCache c) \<and> count_list (tasks c') key \<le> count_list (tasks c) key"
proof (cases e)
  case (Evict u)
  have "mlookup (cache_entries (evict u (planCache c))) key = Some t"
    using times(1) Evict t by (intro plan_cache.tick_keeps) (use ch since in \<open>auto simp: channel_ok_def\<close>)
  with st Evict t show ?thesis by auto
next
  case (Plan u i)
  show ?thesis
  proof (cases "planCache c' = planCache c")
    case True
    moreover have "tasks c' = tasks c"
      using st Plan by (auto simp: plan_key_def Let_def split: if_splits worker.splits sum.splits)
    ultimately show ?thesis using since t by auto
  next
    case False
    then obtain k where k: "Put u k (planCache c) = Inr (planCache c')" "tasks c' = tasks c"
      using st Plan by (auto simp: plan_key_def Let_def split: if_splits worker.splits sum.splits)
    then show ?thesis using Put_lookup [OF k(1), of key] Put_fields [OF k(1)] since t times(2) Plan by auto
  qed
next
  case Send
  then show ?thesis
    using st since t by (auto simp: send_key_def IsIn_def split: if_splits option.splits list.splits)
next
  case (Take i)
  then show ?thesis
    using st since t by (auto simp: take_key_def split: if_splits list.splits)
next
  case (Read u i)
  then show ?thesis
    using st since t by (auto simp: read_states_def split: if_splits worker.splits sum.splits)
next
  case (ProcessIntents src keys)
  then show ?thesis
    using st since t by (auto simp: start_processing_def Let_def split: if_splits)
qed (use st since t in \<open>auto simp: go_option_def split: if_splits option.splits list.splits sum.splits\<close>)

lemma cooldown:
  assumes "run env es c = Some c'" and "maps_ok c" and "channel_ok env c" and "sane_time t0"
    and "mlookup (cache_entries (planCache c)) key = Some t" and "sane_time t" and "sint t0 \<le> sint t"
    and "\<forall>u. Evict u \<in> set es \<longrightarrow> sane_time u \<and> sint u - sint t0 \<le> ttl (planCache c)"
    and "\<forall>u i. Plan u i \<in> set es \<longrightarrow> sane_time u \<and> sint t0 \<le> sint u"
  shows "mlookup (cache_entries (planCache c')) key \<noteq> None \<and> count_list (tasks c') key \<le> count_list (tasks c) key"
  using assms(1-3,5-9)
proof (induction es arbitrary: c t)
  case Nil
  then show ?case by simp
next
  case (Cons e es)
  then obtain d where d: "step env e c = Some d" "run env es d = Some c'" by (auto split: option.splits)
  have times: "\<forall>u. e = Evict u \<longrightarrow> sane_time u \<and> sint u - sint t0 \<le> ttl (planCache c)"
    "\<forall>u i. e = Plan u i \<longrightarrow> sane_time u \<and> sint t0 \<le> sint u"
    using Cons.prems(7,8) by auto
  from step_cache [OF d(1) Cons.prems(3,2) assms(4) Cons.prems(4-6) times] obtain t' where t':
    "mlookup (cache_entries (planCache d)) key = Some t'" "sane_time t'" "sint t0 \<le> sint t'"
    "ttl (planCache d) = ttl (planCache c)" "count_list (tasks d) key \<le> count_list (tasks c) key" by blast
  have "mlookup (cache_entries (planCache c')) key \<noteq> None \<and> count_list (tasks c') key \<le> count_list (tasks d) key"
    using Cons.prems(2,3,7,8) t'(4)
    by (intro Cons.IH [OF d(2) maps_ok_step [OF d(1)] channel_ok_step [OF d(1)] t'(1-3)]) simp_all
  with t'(5) show ?case by simp
qed


section \<open>A deadlock\<close>

definition deadlocked :: "environment \<Rightarrow> controller \<Rightarrow> bool" where
  \<comment> \<open>the run waits for room in the channel, every worker for the lock the run holds\<close>
  "deadlocked env c \<longleftrightarrow>
     (case sending c of Some (_, key # _) \<Rightarrow> \<not> IsIn (planCache c) key | _ \<Rightarrow> False) \<and>
     capacity env \<le> length (tasks c) \<and>
     list_all (\<lambda>w. case w of Received _ \<Rightarrow> True | _ \<Rightarrow> False) (workers c)"

lemma deadlocked_step:
  assumes st: "step env e c = Some c'" and d: "deadlocked env c" and ch: "channel_ok env c"
  shows "deadlocked env c' \<and> tasks c' = tasks c \<and> intents c' = intents c \<and> executions c' = executions c \<and>
    traced c' = traced c \<and> workers c' = workers c"
proof -
  obtain src key keys where s: "sending c = Some (src, key # keys)" "\<not> IsIn (planCache c) key"
    using d by (auto simp: deadlocked_def neq_Nil_conv split: option.splits list.splits)
  have w: "\<exists>k. workers c ! i = Received k" if "i < length (workers c)" for i
  proof -
    have "case workers c ! i of Received _ \<Rightarrow> True | _ \<Rightarrow> False"
      using d that by (simp add: deadlocked_def list_all_length)
    then show ?thesis by (cases "workers c ! i") auto
  qed
  show ?thesis
  proof (cases e)
    case (Evict now)
    have "\<not> IsIn (evict now (planCache c)) key"
      using plan_cache.tick_isin [of "planCache c" now key] ch s(2) by (auto simp: channel_ok_def)
    with st d s Evict show ?thesis by (auto simp: deadlocked_def)
  next
    case Send
    with st s d show ?thesis by (auto simp: deadlocked_def send_key_def)
  next
    case (Take i)
    with st w [of i] show ?thesis by (auto simp: take_key_def split: list.splits if_splits)
  next
    case (Plan now i)
    with st w [of i] show ?thesis by (auto simp: plan_key_def split: if_splits)
  qed (use st s d in \<open>auto simp: deadlocked_def start_processing_def read_states_def go_option_def Let_def
        split: if_splits option.splits sum.splits\<close>)
qed

lemma deadlocked_run:
  "run env es c = Some c' \<Longrightarrow> deadlocked env c \<Longrightarrow> maps_ok c \<Longrightarrow> channel_ok env c \<Longrightarrow>
     deadlocked env c' \<and> tasks c' = tasks c \<and> intents c' = intents c \<and> executions c' = executions c \<and>
     traced c' = traced c \<and> workers c' = workers c"
proof (induction es arbitrary: c)
  case Nil
  then show ?case by simp
next
  case (Cons e es)
  then obtain d where d: "step env e c = Some d" "run env es d = Some c'" by (auto split: option.splits)
  with Cons.IH [OF d(2)] deadlocked_step [OF d(1) Cons.prems(2,4)] maps_ok_step [OF d(1) Cons.prems(3)]
    channel_ok_step [OF d(1) Cons.prems(3,4)] show ?case by simp
qed

lemma hand_over:
  assumes "sending c = Some (src, keys)" and "tasks c = []" and "0 < capacity env" and "planner_set c"
    and "workers c = replicate n Idle" and "j \<le> n" and "j \<le> length keys"
    and "\<forall>k \<in> set keys. \<not> IsIn (planCache c) k"
  shows "run env (concat (map (\<lambda>i. [Send, Take i]) [0..<j])) c =
    Some (c\<lparr>sending := Some (src, drop j keys), workers := map Received (take j keys) @ replicate (n - j) Idle\<rparr>)"
  using assms(6,7)
proof (induction j)
  case 0
  then show ?case using assms(1,5) by simp
next
  case (Suc j)
  let ?c = "c\<lparr>sending := Some (src, drop j keys), workers := map Received (take j keys) @ replicate (n - j) Idle\<rparr>"
  have d: "drop j keys = keys ! j # drop (Suc j) keys" using Suc.prems by (simp add: Cons_nth_drop_Suc)
  have not_in: "\<not> IsIn (planCache c) (keys ! j)" using assms(8) Suc.prems by simp
  have "n - j = Suc (n - Suc j)" using Suc.prems by simp
  then have ws: "(map Received (take j keys) @ replicate (n - j) Idle)[j := Received (keys ! j)] =
      map Received (take (Suc j) keys) @ replicate (n - Suc j) Idle"
    using Suc.prems by (simp add: list_update_append take_Suc_conv_app_nth)
  have idle: "(map Received (take j keys) @ replicate (n - j) Idle) ! j = Idle"
    using Suc.prems by (simp add: nth_append)
  have "run env [Send, Take j] ?c =
      Some (c\<lparr>sending := Some (src, drop (Suc j) keys), workers := map Received (take (Suc j) keys) @ replicate (n - Suc j) Idle\<rparr>)"
    using d not_in ws idle assms(2-4) Suc.prems by (simp add: send_key_def take_key_def)
  with Suc.IH Suc.prems show ?case by (simp add: run_append)
qed

lemma fill_channel:
  assumes "m \<le> length keys" and "length (tasks c) + m \<le> capacity env" and "sending c = Some (src, keys)"
    and "\<forall>k \<in> set keys. \<not> IsIn (planCache c) k"
  shows "run env (replicate m Send) c = Some (c\<lparr>sending := Some (src, drop m keys), tasks := tasks c @ take m keys\<rparr>)"
  using assms
proof (induction m arbitrary: c keys)
  case 0
  then show ?case by simp
next
  case (Suc m)
  then obtain k ks where keys: "keys = k # ks" by (cases keys) auto
  let ?c = "c\<lparr>sending := Some (src, ks), tasks := tasks c @ [k]\<rparr>"
  have "run env (replicate m Send) ?c =
      Some (?c\<lparr>sending := Some (src, drop m ks), tasks := tasks ?c @ take m ks\<rparr>)"
    by (rule Suc.IH) (use Suc.prems keys in auto)
  moreover have "step env Send c = Some ?c" using Suc.prems keys by (simp add: send_key_def)
  ultimately show ?case by (simp add: keys)
qed

text \<open>
  C19. The controller can block itself for good: \<open>processIntents\<close> keeps the lock on the intents while it
  waits for room in the channel, and a worker that took a key needs that lock before it takes another.
  Whenever more intents are known than the channel and the workers can hold, a single tick can lead to
  a state in which nothing is planned, executed, traced or updated ever again.
\<close>
theorem deadlock_reachable:
  assumes "maps_ok c" and "channel_ok env c" and "0 < capacity env" and "planner_set c"
    and "tasks c = []" and "pending c = []" and "sending c = None" and "workers c = replicate n Idle"
    and "\<forall>k \<in> set (mkeys (intents c)). \<not> IsIn (planCache c) k"
    and "capacity env + n < mlen (intents c)"
  shows "\<exists>es d. run env es c = Some d \<and> deadlocked env d \<and>
    (\<forall>fs d'. run env fs d = Some d' \<longrightarrow>
       tasks d' = tasks d \<and> intents d' = intents d \<and> executions d' = executions d \<and> traced d' = traced d)"
proof -
  let ?keys = "mkeys (intents c)"
  let ?c = "c\<lparr>warmupDone := True, sending := Some (Ticker, ?keys)\<rparr>"
  have keys: "distinct ?keys" "length ?keys = mlen (intents c)"
    using assms(1) by (auto simp: maps_ok_def wf_map_def mkeys_def mlen_def)
  have start: "run env [Tick, ProcessIntents Ticker ?keys] c = Some ?c"
    using assms(6,7) keys(1) by (simp add: busy_def start_processing_def Let_def)
  let ?takes = "concat (map (\<lambda>i. [Send, Take i]) [0..<n])"
  let ?d = "?c\<lparr>sending := Some (Ticker, drop n ?keys), workers := map Received (take n ?keys)\<rparr>"
  have takes: "run env ?takes ?c = Some ?d"
    using hand_over [of ?c Ticker ?keys env n n] assms keys by simp
  let ?e = "?d\<lparr>sending := Some (Ticker, drop (capacity env) (drop n ?keys)), tasks := take (capacity env) (drop n ?keys)\<rparr>"
  have "\<forall>k \<in> set (drop n ?keys). \<not> IsIn (planCache c) k" using assms(9) in_set_dropD by fast
  then have fill: "run env (replicate (capacity env) Send) ?d = Some ?e"
    using fill_channel [of "capacity env" "drop n ?keys" ?d env Ticker] assms(5,10) keys(2) by simp
  have es: "run env ([Tick, ProcessIntents Ticker ?keys] @ ?takes @ replicate (capacity env) Send) c = Some ?e"
    using start takes fill unfolding run_append by simp
  have ne: "drop (capacity env) (drop n ?keys) \<noteq> []" using assms(10) keys(2) by simp
  then obtain k ks where k: "drop (capacity env) (drop n ?keys) = k # ks" by (cases "drop (capacity env) (drop n ?keys)") auto
  then have "k \<in> set ?keys" by (metis in_set_dropD list.set_intros(1))
  moreover have "length (take (capacity env) (drop n ?keys)) = capacity env"
    using assms(10) keys(2) by simp
  ultimately have "deadlocked env ?e"
    using k assms(9) by (simp add: deadlocked_def list_all_iff del: length_take length_drop drop_drop)
  then show ?thesis
    using es deadlocked_run [of env _ ?e] run_ok [OF es assms(1,2)] by blast
qed

section \<open>A small controller\<close>

definition demo_controller :: ControllerConfig where
  "demo_controller = sample_controller\<lparr>TaskChannelLength := 1\<rparr>"

definition demo_env :: environment where
  "demo_env = \<lparr>capacity = 1, measure_state = (\<lambda>_ i _ _. Inr (getDesiredState i)),
     create_plan = (\<lambda>_ _ _. [zero_Action])\<rparr>"

definition demo_intent :: "string \<Rightarrow> Intent" where
  "demo_intent k = zero_Intent\<lparr>IntentKey := k, ActivelyManaged := True\<rparr>"

definition demo_start :: controller where
  "demo_start = \<lparr>intents = mmake, known_profiles = mmake, podErrors = mmake, warmupDone = False,
        tasks = [], planCache = NewCache 500 100, planner_set = True,
        pending = [], sending = None, workers = [Idle], executions = [], traced = []\<rparr>"

lemma demo_starts: "start_controller demo_controller 1 = Some demo_start"
  by (simp add: start_controller_Some demo_controller_def sample_controller_def demo_start_def config_limits)

lemma demo_ttl: "0 \<le> PlanCacheTTL demo_controller" "PlanCacheTTL demo_controller \<le> MaxPlanCacheTTL"
  by (simp_all add: demo_controller_def sample_controller_def config_limits)

definition learn :: "string \<Rightarrow> event list" where
  \<comment> \<open>an update before the first tick, which processes nothing\<close>
  "learn k = [UpdateIntent (demo_intent k), ProcessIntents Intents []]"

definition one_round :: "event list" where
  "one_round = [Tick, ProcessIntents Ticker [''a''], Send, Unlock]"

definition serve :: "int64 \<Rightarrow> event list" where
  "serve now = [Take 0, Read 0 0, Plan now 0]"

lemmas demo_simps = demo_env_def demo_start_def demo_intent_def zero_Intent_def busy_def handle_intent_def
  go_option_def start_processing_def send_key_def take_key_def read_states_def plan_key_def intent_of_def
  mmake_def mget_def IsIn_def Put_def getDesiredState_def float_consts Let_def


definition three_intents :: controller where
  "three_intents = demo_start\<lparr>intents := Some [(''a'', demo_intent ''a''), (''b'', demo_intent ''b''), (''c'', demo_intent ''c'')]\<rparr>"

lemma three_intents_ok: "maps_ok three_intents" "channel_ok demo_env three_intents"
proof -
  show "maps_ok three_intents"
    by (auto simp: three_intents_def demo_start_def maps_ok_def demo_intent_def zero_Intent_def float_consts
        split: if_splits)
  show "channel_ok demo_env three_intents"
    using NewCache_ok [of 500 100] by (simp add: three_intents_def demo_start_def channel_ok_def config_limits)
qed

theorem deadlock_reachable_witness:
  "\<exists>es d. run demo_env es three_intents = Some d \<and> deadlocked demo_env d"
proof -
  have "\<forall>k \<in> set (mkeys (intents three_intents)). \<not> IsIn (planCache three_intents) k"
    by (simp add: three_intents_def demo_start_def IsIn_def)
  then show ?thesis
    using deadlock_reachable [of three_intents demo_env 1] three_intents_ok
    by (simp add: three_intents_def demo_start_def demo_env_def) metis
qed

theorem controller_state_witness:
  "\<exists>c. run demo_env (learn ''a'') demo_start = Some c \<and> mlookup (intents c) ''a'' = Some (demo_intent ''a'')"
proof -
  let ?host = "\<lparr>maximumWorkers = 4, working_directory = ''/'', directory_missing = (\<lambda>_. False)\<rparr>"
  let ?config = "\<lparr>Generic = \<lparr>MongoEndpoint = '''', LogFile = ''''\<rparr>, Controller = demo_controller,
    Monitor = \<lparr>PodWorkers = 1, ProfileWorkers = 1, ProfileQueries = '''', IntentWorkers = 1\<rparr>,
    Planner = \<lparr>OpportunisticCandidates = 0, MaxStates = 10, MaxCandidates = 5,
      PluginManagerEndpoint = '''', PluginManagerPort = 1\<rparr>\<rparr>"
  have valid: "valid_config ?host (\<lambda>_. True) ?config"
    by (simp add: valid_config_def demo_controller_def sample_controller_def config_limits)
  have "\<exists>c. run demo_env (learn ''a'') demo_start = Some c"
    by (simp add: learn_def demo_simps)
  then obtain c where c: "run demo_env (learn ''a'') demo_start = Some c" by blast
  have "mlookup (intents c) ''a'' = expected_intent (updates (learn ''a'')) ''a''"
    using controller_state [OF demo_starts valid _ c] by simp
  with c show ?thesis
    by (simp add: learn_def updates_def expected_intent_def demo_intent_def zero_Intent_def float_consts)
qed

lemma demo_served:
  "\<exists>c. run demo_env (learn ''a'' @ one_round @ serve 1000) demo_start = Some c \<and>
     executions c = [(''a'', [zero_Action], 1000)] \<and> ttl (planCache c) = 500 \<and>
     mlookup (cache_entries (planCache c)) ''a'' = Some 1000 \<and> tasks c = [] \<and>
     run demo_env [Tick, ProcessIntents Ticker [''a''], Evict 1500, Send] c \<noteq> None"
  by (simp add: learn_def one_round_def serve_def demo_simps evict_def expired_def less_s_def)

theorem execution_justified_witness:
  "\<exists>i. UpdateIntent i \<in> set (learn ''a'' @ one_round @ serve 1000) \<and> IntentKey i = ''a'' \<and> ActivelyManaged i"
proof -
  obtain c where c: "run demo_env (learn ''a'' @ one_round @ serve 1000) demo_start = Some c"
    "executions c = [(''a'', [zero_Action], 1000)]" using demo_served by blast
  then show ?thesis using execution_justified [OF demo_starts demo_ttl c(1), of "''a''"] by auto
qed


end
