(* ===== verification/Knowledge_Base.thy ===== *)
theory Knowledge_Base
  imports Plugin_Commands Intent_Controller
begin

text \<open>
  The tracer of \<^verbatim>\<open>pkg/controller/tracer.go\<close>, through which the planner records its
  events and the actuators read the effects the analytics scripts have stored, and
  \<open>TriggerEffect\<close> of \<^verbatim>\<open>pkg/planner/astar/astar_planner.go\<close>, which starts those scripts.
  The database is an argument: whether it accepts a document, and which document it finds for a filter
  and a sort order.  Times are in nanoseconds.
\<close>

section \<open>Events\<close>

record trace_event =
  ev_name :: string
  ev_timestamp :: int
  ev_current_objectives :: "(string, float64) gomap"
  ev_desired_objectives :: "(string, float64) gomap"
  ev_resources :: "(string, int64) gomap"
  ev_annotations :: "(string, string) gomap"
  ev_pods :: "(string, PodState) gomap"
  ev_data :: "(string, (string, float64) gomap) gomap"
  ev_plan :: "Action list"

definition MongoURIForTesting :: string where
  "MongoURIForTesting = ''mongodb://foo:123''"

definition NewMongoTracer :: "(string \<Rightarrow> bool) \<Rightarrow> bool \<Rightarrow> string \<Rightarrow> bool" where
  \<comment> \<open>whether the tracer has a client; it is decided once\<close>
  "NewMongoTracer connects ping mongoURI =
     (if \<not> connects mongoURI then False
      else if mongoURI \<noteq> MongoURIForTesting \<and> \<not> ping then False
      else True)"

definition TraceEvent :: "bool \<Rightarrow> (trace_event \<Rightarrow> bool) \<Rightarrow> int \<Rightarrow> State \<Rightarrow> State \<Rightarrow> Action list \<Rightarrow>
    trace_event list \<Rightarrow> trace_event list" where
  "TraceEvent client insertOne now current desired plan events =
     (let doc = \<lparr>ev_name = IntentKey (IntentOf desired), ev_timestamp = now,
            ev_current_objectives = Objectives (IntentOf current), ev_desired_objectives = Objectives (IntentOf desired),
            ev_resources = Resources current, ev_annotations = Annotations current, ev_pods = CurrentPods current,
            ev_data = CurrentData current, ev_plan = plan\<rparr>
      in if \<not> client then events else if insertOne doc then events @ [doc] else events)"

section \<open>Effects\<close>

record 'd effect_doc =
  d_id :: int                  \<comment> \<open>\<open>_id\<close>, which grows with the time of insertion\<close>
  d_group :: string
  d_name :: string
  d_profileName :: string
  d_static :: bool
  d_timestamp :: "int option"
  d_data :: "'d option"

definition minute :: int64 where
  "minute = 60000000000"

definition look_back :: "int \<Rightarrow> int \<Rightarrow> int" where
  \<comment> \<open>the product of the two durations is one of int64\<close>
  "look_back now lookBackMinutes = now + sint (- minute * word_of_int lookBackMinutes :: int64)"

definition effect_filter :: "string \<Rightarrow> string \<Rightarrow> string \<Rightarrow> int \<Rightarrow> 'd effect_doc \<Rightarrow> bool" where
  "effect_filter grp name profileName lookBack d \<longleftrightarrow>
     d_group d = grp \<and> d_name d = name \<and> d_profileName d = profileName \<and>
     (d_static d \<or> (case d_timestamp d of None \<Rightarrow> False | Some t \<Rightarrow> lookBack < t))"

definition GetEffect ::
  "bool \<Rightarrow> (('d effect_doc \<Rightarrow> bool) \<Rightarrow> ('d effect_doc \<Rightarrow> int) \<Rightarrow> 'd effect_doc option) \<Rightarrow>
   ('d option \<Rightarrow> 'j option) \<Rightarrow> ('j option \<Rightarrow> 'e \<Rightarrow> 'e option) \<Rightarrow> 'e \<Rightarrow> int \<Rightarrow>
   string \<Rightarrow> string \<Rightarrow> string \<Rightarrow> int \<Rightarrow> 'e option" where
  \<comment> \<open>\<open>findOne\<close> takes a filter and an order, \<open>marshal\<close> and \<open>unmarshal\<close> are those of JSON, None an error; an error
      of \<open>marshal\<close> leaves no bytes for \<open>unmarshal\<close>. None: the error is not nil\<close>
  "GetEffect client findOne marshal unmarshal createType now name grp profileName lookBackMinutes =
     (if \<not> client then None
      else
        (let lookBack = look_back now lookBackMinutes in
         case findOne (effect_filter grp name profileName lookBack) (\<lambda>d. - d_id d) of
           None \<Rightarrow> None
         | Some tempResult \<Rightarrow> unmarshal (marshal (d_data tempResult)) createType))"

definition TriggerEffect :: "(State \<Rightarrow> profiles \<Rightarrow> string list list) list \<Rightarrow> State \<Rightarrow> profiles \<Rightarrow> string list list list" where
  \<comment> \<open>the commands of each actuator the manager visits; each actuator has its own goroutine\<close>
  "TriggerEffect effects current profiles = map (\<lambda>a. a current profiles) effects"

section \<open>What an actuator learns\<close>

definition finds :: "(('d effect_doc \<Rightarrow> bool) \<Rightarrow> ('d effect_doc \<Rightarrow> int) \<Rightarrow> 'd effect_doc option) \<Rightarrow> 'd effect_doc list \<Rightarrow> bool" where
  \<comment> \<open>documented of \<open>FindOne\<close> with a sort: the first, in the order, of the documents that match\<close>
  "finds findOne docs \<longleftrightarrow>
     (\<forall>filter key. case findOne filter key of
        None \<Rightarrow> \<not> list_ex filter docs
      | Some d \<Rightarrow> d \<in> set docs \<and> filter d \<and> (\<forall>d' \<in> set docs. filter d' \<longrightarrow> key d \<le> key d'))"

definition in_window :: "int \<Rightarrow> int \<Rightarrow> 'd effect_doc \<Rightarrow> bool" where
  \<comment> \<open>static, or not older than so many minutes\<close>
  "in_window now minutes d \<longleftrightarrow> d_static d \<or> (\<exists>t. d_timestamp d = Some t \<and> now - t < minutes * 60000000000)"

lemma look_back_exact:
  assumes "0 < minutes" and "minutes \<le> maxLookBack"
  shows "look_back now minutes = now - minutes * 60000000000"
proof -
  have "sint (- minute * word_of_int minutes :: int64) = - (60000000000 * minutes)"
  proof -
    have "(- minute * word_of_int minutes :: int64) = word_of_int (- (60000000000 * minutes))"
      by (simp add: minute_def)
    moreover have "sint (word_of_int (- (60000000000 * minutes)) :: int64) = - (60000000000 * minutes)"
      using assms by (intro sint_word_of_int) (simp_all add: maxLookBack_def)
    ultimately show ?thesis by simp
  qed
  then show ?thesis by (simp add: look_back_def)
qed

lemma look_back_wraps:
  \<comment> \<open>the bound of the commands is needed: with more minutes than int64 can hold in nanoseconds the window starts
      in the future\<close>
  "now < look_back now 153722868"
  by (simp add: look_back_def minute_def)

lemma effect_filter_window:
  assumes "0 < minutes" and "minutes \<le> maxLookBack"
  shows "effect_filter grp name profileName (look_back now minutes) d \<longleftrightarrow>
    d_group d = grp \<and> d_name d = name \<and> d_profileName d = profileName \<and> in_window now minutes d"
  by (auto simp: effect_filter_def in_window_def look_back_exact [OF assms] split: option.splits)

lemma newest_effect:
  \<comment> \<open>what an actuator uses is decoded from the newest document for its intent, group and profile, among those in
      the window; where there is none it has no effect\<close>
  assumes "finds findOne docs" and "0 < minutes" and "minutes \<le> maxLookBack"
    and fits_def: "fits = (\<lambda>d. d_group d = grp \<and> d_name d = name \<and> d_profileName d = profileName \<and> in_window now minutes d)"
  shows "(\<not> list_ex fits docs \<and> GetEffect True findOne marshal unmarshal createType now name grp profileName minutes = None) \<or>
    (\<exists>d \<in> set docs. fits d \<and> (\<forall>d' \<in> set docs. fits d' \<longrightarrow> d_id d' \<le> d_id d) \<and>
       GetEffect True findOne marshal unmarshal createType now name grp profileName minutes =
         unmarshal (marshal (d_data d)) createType)"
proof -
  have eq: "effect_filter grp name profileName (look_back now minutes) = fits"
    by (simp add: fits_def fun_eq_iff effect_filter_window [OF assms(2,3)])
  note found = assms(1) [unfolded finds_def, THEN spec [of _ fits], THEN spec [of _ "\<lambda>d. - d_id d"]]
  show ?thesis
  proof (cases "findOne fits (\<lambda>d. - d_id d)")
    case None
    then show ?thesis using found eq by (simp add: GetEffect_def)
  next
    case (Some d)
    then show ?thesis using found eq by (intro disjI2 bexI [of _ d]) (auto simp: GetEffect_def)
  qed
qed

lemma accepted_look_back:
  "scale_out_main uri file so = Inr so' \<Longrightarrow> 0 < so_LookBack so' \<and> so_LookBack so' \<le> maxLookBack"
  "rm_pod_main uri rm = Inr rm' \<Longrightarrow> 0 < rm_LookBack rm' \<and> rm_LookBack rm' \<le> maxLookBack"
  "cpu_scale_main uri file cs = Inr cs' \<Longrightarrow> 0 < cs_LookBack cs' \<and> cs_LookBack cs' \<le> maxLookBack"
  by (auto simp: scale_out_main_def rm_pod_main_def cpu_scale_main_def validated_Inr scale_out_isValidConf_def
      rm_pod_isValidConf_def cpu_scale_isValidConf_def split: if_splits)

lemma null_data:
  \<comment> \<open>a document without data counts as an effect with the zero values: \<open>null\<close> leaves what it is decoded into\<close>
  assumes "findOne (effect_filter grp name profileName (look_back now minutes)) (\<lambda>d. - d_id d) = Some d"
    and "d_data d = None" and "unmarshal (marshal None) createType = Some createType"
  shows "GetEffect True findOne marshal unmarshal createType now name grp profileName minutes = Some createType"
  using assms by (simp add: GetEffect_def)

lemma unconnected_effects:
  "list_ex (is_latency profiles) keys \<Longrightarrow>
     getScalingEffects cfg (GetEffect False findOne marshal unmarshal createType now) i profiles keys result = None"
  by (induction keys arbitrary: result) (auto simp: GetEffect_def)

lemma unconnected_cpu:
  \<comment> \<open>without a connection at the start the CPU actuator never predicts anything\<close>
  "list_ex (is_latency profiles) (mkeys (objectives state)) \<Longrightarrow>
     cpu_findStates cfg (GetEffect False findOne marshal unmarshal createType now) state goal cur i profiles = Inr None"
  by (simp add: cpu_findStates_def unconnected_effects)

end
