(* ===== verification/Control_Loop.thy ===== *)
theory Control_Loop
  imports Composition Intent_Controller
begin

text \<open>
  The control loop as a whole: the controller of \<open>Intent_Controller\<close> with the measurements of
  \<open>State_Helper\<close>, the planner of \<open>AStar_Planner\<close> and the actuators of \<open>Composition\<close>.  What
  the theories of these parts prove under a contract holds of every plan the controller executes, because the
  states it measures and the intents it knows keep that contract.
\<close>

section \<open>From an intent to an executed plan\<close>

definition measured :: "environment \<Rightarrow> (string \<Rightarrow> bool) \<Rightarrow> Intent \<Rightarrow> State \<Rightarrow> bool" where
  \<comment> \<open>the state was measured for the intent, at some time, with pod errors under keys of the given form\<close>
  "measured env good i s \<longleftrightarrow>
     (\<exists>t errs ps. (\<forall>k \<in> set (mkeys errs). good k) \<and> measure_state env t i errs ps = Inr s)"

fun loop_worker :: "environment \<Rightarrow> (string \<Rightarrow> bool) \<Rightarrow> Intent list \<Rightarrow> worker \<Rightarrow> bool" where
  "loop_worker env good us (Planning key current desired) \<longleftrightarrow>
     (\<exists>i. desired = getDesiredState i \<and> measured env good i current \<and>
        (ActivelyManaged i \<longrightarrow> i \<in> set us \<and> IntentKey i = key))"
| "loop_worker env good us w \<longleftrightarrow> True"

definition loop_execution :: "environment \<Rightarrow> (string \<Rightarrow> bool) \<Rightarrow> Intent list \<Rightarrow> string \<times> Action list \<times> int64 \<Rightarrow> bool" where
  "loop_execution env good us = (\<lambda>(key, plan, t). plan \<noteq> [] \<and>
     (\<exists>i current ps. i \<in> set us \<and> IntentKey i = key \<and> ActivelyManaged i \<and> measured env good i current \<and>
        plan = create_plan env current (getDesiredState i) ps))"

definition loop_ok :: "environment \<Rightarrow> (string \<Rightarrow> bool) \<Rightarrow> Intent list \<Rightarrow> controller \<Rightarrow> bool" where
  "loop_ok env good us c \<longleftrightarrow>
     (\<forall>k \<in> set (mkeys (podErrors c)). good k) \<and>
     list_all (loop_worker env good us) (workers c) \<and> list_all (loop_execution env good us) (executions c)"

lemma loop_ok_mono: "loop_ok env good us c \<Longrightarrow> set us \<subseteq> set us' \<Longrightarrow> loop_ok env good us' c"
proof -
  assume ok: "loop_ok env good us c" and sub: "set us \<subseteq> set us'"
  have "loop_worker env good us' w" if "loop_worker env good us w" for w
    using that sub by (cases w) auto
  moreover have "loop_execution env good us' x" if "loop_execution env good us x" for x
    using that sub by (cases x) (fastforce simp: loop_execution_def)
  ultimately show ?thesis using ok by (simp add: loop_ok_def list_all_iff)
qed

lemma step_keeps_errors: "step env e c = Some c' \<Longrightarrow> (\<forall>x. e \<noteq> UpdatePodError x) \<Longrightarrow> podErrors c' = podErrors c"
  by (cases e) (auto simp: handler_defs Let_def go_option_def split: handler_splits)

lemma error_keys:
  assumes "step env e c = Some c'" and "\<forall>k \<in> set (mkeys (podErrors c)). good k"
    and "\<And>x. e = UpdatePodError x \<Longrightarrow> good (ErrorKey x)"
  shows "\<forall>k \<in> set (mkeys (podErrors c')). good k"
proof (cases "\<exists>x. e = UpdatePodError x")
  case True
  then obtain x where x: "e = UpdatePodError x" by blast
  with assms(1) obtain m where "handle_pod_error x (podErrors c) = Inr m" "podErrors c' = m"
    by (auto simp: go_option_def split: if_splits sum.splits)
  moreover have "set (mkeys (mdelete (podErrors c) (ErrorKey x))) \<subseteq> set (mkeys (podErrors c))"
    by (auto simp: mlookup_dom mlookup_mdelete split: if_splits)
  ultimately show ?thesis
    using assms(2) assms(3) [OF x] by (auto simp: handle_pod_error_def dest!: mkeys_mput split: if_splits)
qed (use step_keeps_errors [OF assms(1)] assms(2) in simp)

lemma loop_ok_step:
  assumes st: "step env e c = Some c'" and ok: "loop_ok env good us c"
    and known: "\<And>k i. mlookup (intents c) k = Some i \<Longrightarrow> i \<in> set us \<and> IntentKey i = k"
    and good: "\<And>x. e = UpdatePodError x \<Longrightarrow> good (ErrorKey x)"
  shows "loop_ok env good us c'"
proof -
  have errors: "\<forall>k \<in> set (mkeys (podErrors c')). good k"
    using error_keys [OF st, of good] good ok by (simp add: loop_ok_def)
  have ws: "list_all (loop_worker env good us) (workers c)" "list_all (loop_execution env good us) (executions c)"
    using ok by (simp_all add: loop_ok_def)
  have one: "loop_ok env good us c'"
    if "workers c' = (workers c)[i := w]" "executions c' = executions c" "loop_worker env good us w" for i w
    using that ws errors set_update_subset_insert [of "workers c" i w]
    by (auto simp: loop_ok_def list_all_iff)
  have other: "loop_ok env good us c'" if "\<forall>i. e \<noteq> Take i" "\<forall>t i. e \<noteq> Read t i" "\<forall>t i. e \<noteq> Plan t i"
    using step_keeps_workers [OF st that] ws errors by (simp add: loop_ok_def)
  show ?thesis
  proof (cases e)
    case (Take i)
    with st obtain w where "workers c' = (workers c)[i := w]" "executions c' = executions c" "loop_worker env good us w"
      by (auto simp: take_key_def split: if_splits list.splits)
    then show ?thesis by (rule one)
  next
    case (Read t i)
    with st obtain key current where w: "measure_state env t (intent_of c key) (podErrors c) (known_profiles c) = Inr current"
      "workers c' = (workers c)[i := Planning key current (getDesiredState (intent_of c key))]"
      "executions c' = executions c"
      by (auto simp: read_states_def split: if_splits worker.splits sum.splits)
    have "measured env good (intent_of c key) current"
      using w(1) ok unfolding measured_def loop_ok_def by blast
    moreover have "intent_of c key \<in> set us \<and> IntentKey (intent_of c key) = key" if "ActivelyManaged (intent_of c key)"
      using known [of key] that by (auto simp: intent_of_def mget_def zero_Intent_def split: option.splits)
    ultimately show ?thesis by (intro one [OF w(2,3)]) auto
  next
    case (Plan now i)
    with st obtain key current desired where w: "i < length (workers c)" "workers c ! i = Planning key current desired"
      "workers c' = (workers c)[i := Idle]"
      "executions c' = executions c \<or> ActivelyManaged (IntentOf desired) \<and>
         create_plan env current desired (known_profiles c) \<noteq> [] \<and>
         executions c' = executions c @ [(key, create_plan env current desired (known_profiles c), now)]"
      by (auto simp: plan_key_def Let_def split: if_splits worker.splits sum.splits)
    then have "loop_worker env good us (Planning key current desired)" using ws(1) by (metis list_all_length)
    then obtain j where j: "desired = getDesiredState j" "measured env good j current"
      "ActivelyManaged j \<longrightarrow> j \<in> set us \<and> IntentKey j = key" by auto
    have new: "loop_execution env good us (key, create_plan env current desired ps, now)"
      if "ActivelyManaged (IntentOf desired)" "create_plan env current desired ps \<noteq> []" for ps
    proof -
      have "ActivelyManaged j" using that(1) j(1) by (simp add: getDesiredState_def)
      with j that(2) show ?thesis unfolding loop_execution_def prod.case by blast
    qed
    have "list_all (loop_execution env good us) (executions c')"
      using w(4) ws(2) new by auto
    moreover have "list_all (loop_worker env good us) (workers c')"
      using w(3) ws(1) set_update_subset_insert [of "workers c" i Idle] by (auto simp: list_all_iff)
    ultimately show ?thesis using errors by (simp add: loop_ok_def)
  qed (rule other; simp)+
qed

lemma run_loop:
  assumes "run env es c = Some c'" and "maps_ok c" and "channel_ok env c" and "intents c = mmake"
    and "loop_ok env good [] c" and "\<And>x. UpdatePodError x \<in> set es \<Longrightarrow> good (ErrorKey x)"
  shows "loop_ok env good (updates es) c'"
  using assms(1,6)
proof (induction es arbitrary: c' rule: rev_induct)
  case Nil
  then show ?case using assms(5) by simp
next
  case (snoc e es)
  obtain d where d: "run env es c = Some d" "step env e d = Some c'"
    using snoc.prems(1) by (rule run_snoc_cases)
  have "i \<in> set (updates es) \<and> IntentKey i = k" if "mlookup (intents d) k = Some i" for k i
  proof -
    have "expected_intent (updates es) k = Some i"
      using intents_expected [OF d(1) assms(2-4)] that by simp
    then have "find (\<lambda>i. IntentKey i = k) (rev (updates es)) = Some i"
      by (auto simp: expected_intent_def split: option.splits if_splits)
    from find_SomeD [OF this] show ?thesis by simp
  qed
  with loop_ok_step [OF d(2) snoc.IH [OF d(1)]] snoc.prems(2) have "loop_ok env good (updates es) c'" by auto
  then show ?case by (rule loop_ok_mono) simp
qed

section \<open>Measured states\<close>

record world =
  \<comment> \<open>what is outside the program, at each time\<close>
  prometheus :: "int \<Rightarrow> string \<Rightarrow> http_reply"
  cluster_at :: "int \<Rightarrow> cluster"
  informer_at :: "int \<Rightarrow> informer"

definition planned :: "Action list go option \<Rightarrow> Action list" where
  \<comment> \<open>the plan, where planning returns one\<close>
  "planned r = (case r of Some (Inr plan) \<Rightarrow> plan | _ \<Rightarrow> [])"

definition loop_env ::
  "world \<Rightarrow> ControllerConfig \<Rightarrow> PlannerConfig \<Rightarrow> (node \<Rightarrow> next_state list) \<Rightarrow> environment" where
  "loop_env w cfg pcfg acts =
     \<lparr>capacity = nat (TaskChannelLength cfg),
      measure_state = (\<lambda>t i errs ps. getCurrentState (prometheus w t) cfg (cluster_at w t) (informer_at w t) t i errs ps),
      create_plan = (\<lambda>current desired ps. planned (CreatePlan pcfg acts current desired ps))\<rparr>"

definition plain_pod_names :: "world \<Rightarrow> bool" where
  \<comment> \<open>Kubernetes allows no slash in a name\<close>
  "plain_pod_names w \<longleftrightarrow> (\<forall>t ns sel. \<forall>p \<in> set (informer_at w t ns sel). CHR ''/'' \<notin> set (pod_name p))"

definition sound_intent :: "Intent \<Rightarrow> bool" where
  \<comment> \<open>the priority and all targets are positive\<close>
  "sound_intent i \<longleftrightarrow> (\<exists>p. Priority i = Fin p \<and> 0 < p) \<and>
     (\<forall>(k, v) \<in> set (entries (Objectives i)). \<exists>x. v = Fin x \<and> 0 < x)"

definition resource_names :: "(string, int64) gomap \<Rightarrow> bool" where
  "resource_names m \<longleftrightarrow> (\<forall>k \<in> set (mkeys m). 3 \<le> length (split_on (CHR ''_'') k))"

lemma resource_names_put:
  "resource_names m \<Longrightarrow> mput m (resource_key i name suffix) v = Inr m' \<Longrightarrow> resource_names m'"
  by (auto simp: resource_names_def resource_key_def resourceDelimiter_def length_split_on dest!: mkeys_mput)

lemma add_container_names: "resource_names m \<Longrightarrow> yields (add_container ic m) resource_names"
proof (cases ic)
  case (Pair i c)
  assume m: "resource_names m"
  have puts: "yields (foldG (\<lambda>(name, v) m. mput m (resource_key i name suffix) v) kvs m) resource_names"
    if "resource_names m" for suffix kvs m
    using that by (intro yields_foldG) (auto simp: yields_def dest: resource_names_put)
  show ?thesis unfolding Pair add_container_def prod.case
    by (rule yields_seq [OF puts [OF m]]) (rule puts)
qed

lemma scan_names:
  assumes "resource_names (containerResources s)"
  shows "yields (scan_pod errs now p s) (\<lambda>s. resource_names (containerResources s))"
proof -
  have "yields (foldG add_container (enumerate 0 (pod_containers p)) (containerResources s)) resource_names"
    by (rule yields_foldG [OF add_container_names assms])
  then have "yields (if mlen (containerResources s) < 1
      then foldG add_container (enumerate 0 (pod_containers p)) (containerResources s)
      else Inr (containerResources s)) resource_names" using assms by simp
  then show ?thesis unfolding scan_pod_def Let_def by (rule yields_seq) (simp add: yields_any)
qed

lemma getPods_names: "yields (getPods cl informer now key kd errs) (\<lambda>s. resource_names (containerResources s))"
proof -
  have "yields (foldG (scan_pod errs now) pods empty_scan) (\<lambda>s. resource_names (containerResources s))" for pods
    by (rule yields_foldG [OF scan_names]) (simp_all add: empty_scan_def resource_names_def mkeys_def)
  then show ?thesis
    by (simp add: getPods_def Let_def nil_scan_def resource_names_def mkeys_def split: option.split)
qed

lemma measured_joint:
  assumes "getCurrentState http cfg cl informer now i errs ps = Inr s" and "sound_intent i"
    and "\<forall>key \<in> set (mkeys errs). CHR ''/'' \<in> set key"
    and "\<forall>ns sel. \<forall>p \<in> set (informer ns sel). CHR ''/'' \<notin> set (pod_name p)"
  shows "joint_ok (set (mkeys (Objectives i))) s"
proof -
  obtain scan m where scan: "getPods cl informer now (TargetKey i) (TargetKind i) errs = Inr scan"
    and s: "objectives s = m" "CurrentPods s = podStates scan" "Resources s = containerResources scan"
    and m: "\<forall>j. mlookup m j =
       (if j \<in> set (mkeys (Objectives i)) \<and> profile_of ps j \<noteq> zero_Profile
        then Some (if TypeOf (profile_of ps j) = Availability then PodSetAvailability (podStates scan)
             else doQuery http (profile_of ps j) i)
        else None)"
    by (rule current_state_parts [OF assms(1)]) blast
  have "Priority (IntentOf s) = Priority i"
    using assms(1) by (auto simp: getCurrentState_def bindG_eq_Inr)
  then have "state_priority s" using assms(2) by (auto simp: state_priority_def sound_intent_def)
  moreover have "pods_ok s"
    using unreported_available [OF scan assms(3,4)] s(2)
    by (fastforce simp: pods_ok_def availability_ok_def finite_float_def float_consts)
  moreover have "keys_ok s"
    using getPods_names [of cl informer now "TargetKey i" "TargetKind i" errs] scan s(3)
    by (simp add: keys_ok_def resource_names_def)
  moreover have "knows_objectives (set (mkeys (Objectives i))) s"
    using m s(1) mlookup_dom [of _ m] by (auto simp: knows_objectives_def split: if_splits)
  ultimately show ?thesis by (simp add: joint_ok_def)
qed

lemma desired_joint: "sound_intent i \<Longrightarrow> joint_env (set (mkeys (Objectives i))) (getDesiredState i) ps"
proof -
  assume i: "sound_intent i"
  have "\<exists>x. mget 0 (Objectives i) k = Fin x \<and> 0 < x" if k: "k \<in> set (mkeys (Objectives i))" for k
  proof -
    obtain v where v: "mlookup (Objectives i) k = Some v" using k mlookup_dom [of k "Objectives i"] by auto
    then have "(k, v) \<in> set (entries (Objectives i))" by (simp add: mlookup_def map_of_SomeD)
    with i v show ?thesis by (auto simp: sound_intent_def mget_def)
  qed
  with i show ?thesis
    by (auto simp: joint_env_def positive_priority_def sound_intent_def knows_objectives_def getDesiredState_def)
qed

section \<open>What is executed\<close>

lemma executed_by_planner:
  assumes "loop_execution (loop_env w cfg pcfg acts) (\<lambda>k. CHR ''/'' \<in> set k) us (key, plan, t)"
    and "all_deployed acts performs" and "plain_pod_names w"
    and "\<And>i. i \<in> set us \<Longrightarrow> ActivelyManaged i \<Longrightarrow> sound_intent i"
  obtains i current ps t' errs ps' where "i \<in> set us" "IntentKey i = key" "ActivelyManaged i" "sound_intent i"
    "getCurrentState (prometheus w t') cfg (cluster_at w t') (informer_at w t') t' i errs ps' = Inr current"
    "joint_ok (set (mkeys (Objectives i))) current"
    "all_behave (joint_ok (set (mkeys (Objectives i)))) (getDesiredState i) ps acts"
    "CreatePlan pcfg acts current (getDesiredState i) ps = Some (Inr plan)" "plan \<noteq> []"
proof -
  obtain i current ps where i: "plan \<noteq> []" "i \<in> set us" "IntentKey i = key" "ActivelyManaged i"
    "measured (loop_env w cfg pcfg acts) (\<lambda>k. CHR ''/'' \<in> set k) i current"
    "plan = planned (CreatePlan pcfg acts current (getDesiredState i) ps)"
    using assms(1) by (auto simp: loop_execution_def loop_env_def)
  obtain t' errs ps' where m: "\<forall>k \<in> set (mkeys errs). CHR ''/'' \<in> set k"
    "getCurrentState (prometheus w t') cfg (cluster_at w t') (informer_at w t') t' i errs ps' = Inr current"
    using i(5) by (auto simp: measured_def loop_env_def)
  have sound: "sound_intent i" using assms(4) i(2,4) by blast
  have ok: "joint_ok (set (mkeys (Objectives i))) current"
    by (rule measured_joint [OF m(2) sound m(1)]) (use assms(3) in \<open>simp add: plain_pod_names_def\<close>)
  have behave: "all_behave (joint_ok (set (mkeys (Objectives i)))) (getDesiredState i) ps acts"
    by (rule deployed_behave [OF assms(2) desired_joint [OF sound]])
  obtain g where g: "build_graph pcfg acts (getDesiredState i) ps (init_graph current (getDesiredState i)) = Inr g"
    by (rule built_graph [OF behave ok])
  obtain plan' where "CreatePlan pcfg acts current (getDesiredState i) ps = Some (Inr plan')"
    by (cases rule: CreatePlan_cases [OF behave ok g]) blast+
  with i(6) have "CreatePlan pcfg acts current (getDesiredState i) ps = Some (Inr plan)" by (simp add: planned_def)
  from that [OF i(2-4) sound m(2) ok behave this i(1)] show thesis .
qed


definition loop_intent :: Intent where
  "loop_intent = zero_Intent\<lparr>IntentKey := ''a'', Priority := 1, TargetKey := ''ns/app'', TargetKind := ''Deployment'',
     ActivelyManaged := True, Objectives := Some [(''p99'', 10)]\<rparr>"

definition p99_profile :: Profile where
  "p99_profile = zero_Profile\<lparr>ProfileKey := ''p99'', TypeOf := Latency, Minimize := True, External := True, Query := ''up''\<rparr>"

definition slow_world :: world where
  \<comment> \<open>a workload without pods and a latency of 20\<close>
  "slow_world = \<lparr>prometheus = (\<lambda>_ _. Reply 200 (Inr [(None, [JNum 1, JStr ''20''])])),
     cluster_at = (\<lambda>_. sample_cluster), informer_at = (\<lambda>_ _ _. [])\<rparr>"

definition one_option :: RdtConfig where
  "one_option = rdt_cfg\<lparr>Options := [''COS1'']\<rparr>"

definition rdt_five :: next_state where
  \<comment> \<open>RDT with one option and a latency of 5 predicted for it\<close>
  "rdt_five = rdt_NextState one_option (\<lambda>_. Val (Fin 5))"

definition loop_state :: "float64 \<Rightarrow> (string, string) gomap \<Rightarrow> State" where
  "loop_state v annotations =
     \<lparr>IntentOf = loop_intent\<lparr>ActivelyManaged := False, Objectives := Some [(''p99'', v)]\<rparr>,
      CurrentPods = mmake, CurrentData = mmake, Resources = mmake, Annotations = annotations\<rparr>"

abbreviation loop_profiles :: profiles where
  "loop_profiles \<equiv> Some [(''p99'', p99_profile)]"

definition loop_events :: "event list" where
  "loop_events = [UpdateIntent loop_intent, ProcessIntents Intents [], UpdateProfile p99_profile,
     ProcessIntents Profiles [], Tick, ProcessIntents Ticker [''a''], Send, Unlock, Take 0, Read 0 0, Plan 1000 0]"

lemma loop_query: "doQuery (\<lambda>_. Reply 200 (Inr [(None, [JNum 1, JStr ''20''])])) p99_profile i = 20"
proof -
  have "ParseFloat ''20'' = Some (Fin 20)"
    by (simp add: ParseFloat_def split_sign_def to_lower_def lower_char_def is_digit_def Let_def
        parse_exponent_def scale10_def digit_value_def)
  then show ?thesis
    by (simp add: doQuery_def query_body_def build_query_def p99_profile_def reply_value_def query_result_def float_consts
        round_factor_def getFloat_def is_nan_def Let_def nthG_def)
qed

lemma loop_measured:
  "getCurrentState (\<lambda>_. Reply 200 (Inr [(None, [JNum 1, JStr ''20''])])) demo_controller sample_cluster (\<lambda>_ _. []) t
     loop_intent errs loop_profiles = Inr (loop_state (Fin 20) None)"
proof -
  have labels: "target_labels sample_cluster (''ns'', ''app'') ''Deployment'' = Some (Some None)"
    by (simp add: target_labels_def kind_of_def sample_cluster_def Get_def)
  have profile: "profile_of loop_profiles ''p99'' = p99_profile" "p99_profile \<noteq> zero_Profile"
    "TypeOf p99_profile = Latency"
    by (simp_all add: profile_of_def mget_def p99_profile_def zero_Profile_def ProfileTypeFromText_def to_lower_def lower_char_def)
  show ?thesis
    by (simp add: getCurrentState_def getPods_def loop_intent_def loop_state_def labels measure_objective_def profile
        loop_query demo_controller_def sample_controller_def empty_scan_def mmake_def zero_Intent_def)
qed

abbreviation visited :: "(string, string) gomap" where
  "visited \<equiv> Some [(''rdtVisited'', '''')]"

lemma loop_proposal:
  "rdt_five (loop_state (Fin 20) None) (getDesiredState loop_intent) loop_profiles =
     Inr ([loop_state (Fin 5) visited], [Fin (1 / 2)], [rdt_action ''COS1''])"
proof -
  have latency: "is_latency loop_profiles ''p99''" by (simp add: is_latency_def profile_of_def mget_def p99_profile_def)
  have copy: "DeepCopy (loop_state v None) = loop_state v None" for v
    by (simp add: DeepCopy_def loop_state_def loop_intent_def zero_Intent_def copy_map_def mmake_def)
  have putting: "set_objective ''p99'' w (loop_state v None) = Inr (loop_state w None)" for v w
    by (simp add: set_objective_def loop_state_def)
  have fields: "mkeys (objectives (loop_state v an)) = [''p99'']" "mget z (objectives (loop_state v an)) ''p99'' = v"
    "entries (Resources (loop_state v an)) = []" "CurrentPods (loop_state v an) = Some []" "Annotations (loop_state v an) = an" for v an z
    by (simp_all add: loop_state_def mkeys_def mmake_def mget_def)
  have goal: "mget z (objectives (getDesiredState loop_intent)) ''p99'' = 10" "Priority (IntentOf (getDesiredState loop_intent)) = 1" for z
    by (simp_all add: getDesiredState_def loop_intent_def mget_def)
  have better: "IsBetter (loop_state (Fin 5) an) (getDesiredState loop_intent) loop_profiles" for an
    by (simp add: IsBetter_def better_objective_def loop_state_def getDesiredState_def loop_intent_def mlen_def mget_def
        profile_of_def p99_profile_def)
  have visit: "mark_visited (loop_state v None) = Inr (loop_state v visited)" for v
    by (simp add: mark_visited_def loop_state_def mlen_def)
  let ?sums = "\<lparr>tempSum = Fin 10, tempPredSum = Fin 5, is_candidate = True, was_found = True\<rparr>"
  have looped: "rdt_objectives (\<lambda>_. Val (Fin 5)) (loop_state (Fin 20) None) (getDesiredState loop_intent) loop_profiles ''COS1''
      [''p99''] (loop_state (Fin 20) None, \<lparr>tempSum = 0, tempPredSum = 0, is_candidate = False, was_found = True\<rparr>) =
    Inr (loop_state (Fin 5) None, ?sums)"
    using latency by (simp add: fields putting goal rdt_doQuery_def Let_def float_consts)
  have utility: "rdt_utility (getDesiredState loop_intent) ?sums = Fin (1 / 2)" "is_candidate ?sums" "was_found ?sums"
    by (simp_all add: rdt_utility_def goal float_consts)
  show ?thesis
    unfolding rdt_five_def rdt_NextState_def rdt_findStates_def
    by (simp add: one_option_def rdt_cfg_def first_pod_guaranteed_def fields copy looped better visit utility
        Let_def mget_def no_proposal_def del: rdt_objectives.simps)
qed

lemma loop_better: "IsBetter (loop_state (Fin v) an) (getDesiredState loop_intent) loop_profiles \<longleftrightarrow> v \<le> 10"
  by (simp add: IsBetter_def better_objective_def loop_state_def getDesiredState_def loop_intent_def mlen_def mget_def
      profile_of_def p99_profile_def)

lemma loop_built:
  "\<exists>g. build_graph demo_cfg (\<lambda>_. [rdt_five]) (getDesiredState loop_intent) loop_profiles
     (init_graph (loop_state (Fin 20) None) (getDesiredState loop_intent)) = Inr g \<and> hasGoal g"
proof -
  let ?goal = "getDesiredState loop_intent" and ?new = "loop_state (Fin 5) visited"
  let ?start = "init_graph (loop_state (Fin 20) None) ?goal"
  let ?g = "?start\<lparr>todo := []\<rparr>"
  have differ: "\<not> state_deep_equal (loop_state (Fin 20) None) ?new" "\<not> state_deep_equal ?goal ?new"
    by (simp_all add: state_deep_equal_def intent_deep_equal_def loop_state_def getDesiredState_def loop_intent_def
        map_deep_equal_def mmake_def zero_Intent_def zero_State_def)
  have "expand_node demo_cfg (\<lambda>_. [rdt_five]) ?goal loop_profiles ?start =
    add_candidate ?goal loop_profiles startNode [Fin (1 / 2)] [rdt_action ''COS1''] (0, ?new) ?g"
    by (simp add: expand_node_def expand_with_def init_graph_def loop_proposal demo_cfg_def bindG_def split: sum.splits)
  also have "\<dots> = Inr (link_new ?new startNode (Fin (1 / 2)) (rdt_action ''COS1'') ?goal loop_profiles ?g)"
    by (simp add: add_candidate_def getNodeForState_def init_graph_def differ link_new_def Let_def nthG_def)
  finally have step: "expand_node demo_cfg (\<lambda>_. [rdt_five]) ?goal loop_profiles ?start =
    Inr (link_new ?new startNode (Fin (1 / 2)) (rdt_action ''COS1'') ?goal loop_profiles ?g)" .
  show ?thesis
    by (subst build_graph.simps, simp add: demo_cfg_def [symmetric] step, subst build_graph.simps)
      (simp add: link_new_simps init_graph_def startNode_def demo_cfg_def loop_better)
qed

lemma loop_sound: "sound_intent loop_intent"
  by (simp add: sound_intent_def loop_intent_def float_consts)

lemma loop_deployed: "all_deployed (\<lambda>_. [rdt_five]) [rdt_Perform one_option]"
proof -
  have "predictions_ok (\<lambda>_. Val (Fin 5))" by (simp add: predictions_ok_def rdt_doQuery_def)
  then show ?thesis unfolding all_deployed_def rdt_five_def by (auto intro: dep_rdt)
qed

lemma loop_planned:
  "\<exists>plan. CreatePlan demo_cfg (\<lambda>_. [rdt_five]) (loop_state (Fin 20) None) (getDesiredState loop_intent) loop_profiles =
     Some (Inr plan) \<and> plan \<noteq> []"
proof -
  let ?acts = "\<lambda>_ :: node. [rdt_five]" and ?start = "loop_state (Fin 20) None" and ?goal = "getDesiredState loop_intent"
  let ?K = "set (mkeys (Objectives loop_intent))"
  have ok: "joint_ok ?K ?start"
    by (rule measured_joint [OF loop_measured loop_sound, of None]) (simp_all add: mkeys_def)
  note behave = deployed_behave [OF loop_deployed desired_joint [OF loop_sound]]
  obtain g where g: "build_graph demo_cfg ?acts ?goal loop_profiles (init_graph ?start ?goal) = Inr g" "hasGoal g"
    using loop_built by blast
  obtain plan where plan: "CreatePlan demo_cfg ?acts ?start ?goal loop_profiles = Some (Inr plan)"
    "leads_well demo_cfg ?acts ?goal loop_profiles ?start plan"
    using g(2) by (cases rule: CreatePlan_cases [OF behave ok g(1)]) (auto simp: loop_better)
  then obtain as s where as: "as \<noteq> []" "leads demo_cfg ?acts ?goal loop_profiles ?start as s" "plan = final_plan as"
    by (auto simp: leads_well_def)
  then obtain a rest where "as = a # rest" "\<exists>s'. plan_step demo_cfg ?acts ?goal loop_profiles ?start a s'"
    by (cases as) auto
  moreover from this(2) have "a = rdt_action ''COS1''"
    by (auto simp: plan_step_def offers_def loop_proposal)
  ultimately have "plan \<noteq> []"
    using as(3) by (simp add: final_plan_def rdt_action_def rdtActionName_def emptyActionName_def opportunisticActionName_def)
  with plan(1) show ?thesis by blast
qed

lemma loop_runs:
  "\<exists>c plan. run (loop_env slow_world demo_controller demo_cfg (\<lambda>_. [rdt_five])) loop_events demo_start = Some c \<and>
     (''a'', plan, 1000) \<in> set (executions c)"
proof -
  let ?env = "loop_env slow_world demo_controller demo_cfg (\<lambda>_. [rdt_five])"
  obtain plan where plan: "CreatePlan demo_cfg (\<lambda>_. [rdt_five]) (loop_state (Fin 20) None) (getDesiredState loop_intent)
      loop_profiles = Some (Inr plan)" "plan \<noteq> []" using loop_planned by blast
  have one: "TaskChannelLength demo_controller = 1" by (simp add: demo_controller_def)
  have env: "capacity ?env = 1"
    "measure_state ?env t loop_intent errs loop_profiles = Inr (loop_state (Fin 20) None)"
    "create_plan ?env (loop_state (Fin 20) None) (getDesiredState loop_intent) loop_profiles = plan" for t errs
    by (simp_all add: loop_env_def slow_world_def loop_measured planned_def plan one)
  have learned: "IntentKey loop_intent = ''a''" "ProfileKey p99_profile = ''p99''" "\<not> Priority loop_intent < 0"
    "0 \<le> Priority loop_intent" "TypeOf p99_profile \<noteq> Obsolete" "ActivelyManaged (IntentOf (getDesiredState loop_intent))"
    by (simp_all add: loop_intent_def p99_profile_def getDesiredState_def float_consts)
  show ?thesis
    by (simp add: loop_events_def demo_start_def handle_intent_def handle_profile_def busy_def go_option_def
        start_processing_def send_key_def take_key_def read_states_def plan_key_def intent_of_def mget_def mmake_def
        IsIn_def Put_def Let_def env learned plan(2))
qed


end
