(* ===== verification/Monitors.thy ===== *)
theory Monitors
  imports Intent_Controller
begin

text \<open>
  What the intent monitor and the KPI profile monitor share: objects live in the
  informer's cache; its notifications put keys into a work queue; workers take a key,
  read the object and send a message to the controller; the deletion of an object is
  sent directly by the handler of the notification.  The informer and the work queue are
  libraries: of them the machine below has what their documentation promises, namely that
  notifications arrive in order and after the change of the cache, and that no key is
  given to two workers at once.  A monitor is the locale \<open>monitor\<close>, interpreted on both.
\<close>

section \<open>Workers\<close>

type_synonym object_id = "string \<times> string"   \<comment> \<open>namespace and name\<close>

datatype 'o lookup = Hit 'o | Miss | Fault   \<comment> \<open>found, an error of type not found, another error\<close>

datatype queue_call = Add string | Forget string | AddRateLimited string | Done string

definition enqueueItem :: "string option \<Rightarrow> queue_call list" where
  \<comment> \<open>of the key of an object, None where there is none\<close>
  "enqueueItem key = (case key of None \<Rightarrow> [] | Some k \<Rightarrow> [Add k])"

definition UpdateFunc :: "string \<Rightarrow> string \<Rightarrow> string option \<Rightarrow> queue_call list" where
  \<comment> \<open>of the two versions, and the key of the new object\<close>
  "UpdateFunc oldVersion newVersion key = (if oldVersion = newVersion then [] else enqueueItem key)"

definition DeleteFunc :: "(string \<Rightarrow> 'm) \<Rightarrow> string option \<Rightarrow> 'm list" where
  "DeleteFunc gone key = (case key of None \<Rightarrow> [] | Some k \<Rightarrow> [gone k])"

definition processNextWorkItem ::
  "(string \<Rightarrow> ('m list \<times> bool) go) \<Rightarrow> string \<Rightarrow> bool \<Rightarrow> ('m list \<times> queue_call list \<times> bool) go" where
  \<comment> \<open>of the handler and what the queue returned: the messages, the calls on the queue, and whether to go on.
      The deferred call is the last\<close>
  "processNextWorkItem syncHandler obj done =
     (if done then Inr ([], [], False)
      else bindG (syncHandler obj) (\<lambda>(sent, err).
        if \<not> err then Inr (sent, [Forget obj, Done obj], True)
        else Inr (sent, [AddRateLimited obj, Done obj], True)))"

definition added :: "queue_call list \<Rightarrow> string set" where
  \<comment> \<open>the keys that will come back from the queue\<close>
  "added calls = {k. Add k \<in> set calls \<or> AddRateLimited k \<in> set calls}"

section \<open>The machine\<close>

datatype notification = Added object_id | Updated object_id string string | Deleted object_id bool
  \<comment> \<open>the two versions; whether the object is only known to be gone, without its metadata\<close>

record ('o, 'm) monitored =
  cached :: "object_id \<Rightarrow> 'o option"
  notifications :: "notification list"
  queued :: "string set"
  inflight :: "string \<Rightarrow> ('m list \<times> queue_call list) option"   \<comment> \<open>of workers between reading and sending\<close>
  sent :: "'m list"

record ('o, 'm) monitor_code =
  meta_key :: "object_id \<Rightarrow> string"              \<comment> \<open>\<open>MetaNamespaceKeyFunc\<close>\<close>
  split_key :: "string \<Rightarrow> object_id option"      \<comment> \<open>\<open>SplitMetaNamespaceKey\<close>\<close>
  sync :: "(object_id \<Rightarrow> 'o lookup) \<Rightarrow> string \<Rightarrow> ('m list \<times> bool) go"
  obsolete :: "string \<Rightarrow> 'm"
  version :: "'o \<Rightarrow> string"

definition lister :: "(object_id \<Rightarrow> 'o option) \<Rightarrow> object_id \<Rightarrow> 'o lookup" where
  "lister objs i = (case objs i of None \<Rightarrow> Miss | Some x \<Rightarrow> Hit x)"

fun handle_notification ::
  "('o, 'm) monitor_code \<Rightarrow> notification \<Rightarrow> ('o, 'm) monitored \<Rightarrow> ('o, 'm) monitored" where
  "handle_notification code (Added i) s = s\<lparr>queued := queued s \<union> added (enqueueItem (Some (meta_key code i)))\<rparr>"
| "handle_notification code (Updated i v v') s =
     s\<lparr>queued := queued s \<union> added (UpdateFunc v v' (Some (meta_key code i)))\<rparr>"
| "handle_notification code (Deleted i lost) s =
     s\<lparr>sent := sent s @ DeleteFunc (obsolete code) (if lost then None else Some (meta_key code i))\<rparr>"

fun harmless :: "('o, 'm) monitor_code \<Rightarrow> ('o, 'm) monitored \<Rightarrow> notification \<Rightarrow> bool" where
  \<comment> \<open>no deletion overtakes a worker that has read the object, and none is lost\<close>
  "harmless code s (Deleted i lost) \<longleftrightarrow> inflight s (meta_key code i) = None \<and> \<not> lost"
| "harmless code s _ \<longleftrightarrow> True"

definition named :: "('o, 'm) monitor_code \<Rightarrow> object_id \<Rightarrow> bool" where
  \<comment> \<open>the key of the object has its namespace and its name\<close>
  "named code i \<longleftrightarrow> split_key code (meta_key code i) = Some i"

inductive mstep ::
  "('o, 'm) monitor_code \<Rightarrow> bool \<Rightarrow> ('o, 'm) monitored \<Rightarrow> ('o, 'm) monitored \<Rightarrow> bool"
  for code lucky where
  create: "named code i \<Longrightarrow> cached s i = None \<Longrightarrow>
    mstep code lucky s (s\<lparr>cached := (cached s)(i \<mapsto> x), notifications := notifications s @ [Added i]\<rparr>)"
| change: "named code i \<Longrightarrow> cached s i = Some x \<Longrightarrow> (version code y = version code x \<Longrightarrow> y = x) \<Longrightarrow>
    mstep code lucky s (s\<lparr>cached := (cached s)(i \<mapsto> y),
      notifications := notifications s @ [Updated i (version code x) (version code y)]\<rparr>)"
| delete: "named code i \<Longrightarrow> cached s i = Some x \<Longrightarrow>
    mstep code lucky s (s\<lparr>cached := (cached s)(i := None), notifications := notifications s @ [Deleted i lost]\<rparr>)"
| notify: "notifications s = n # ns \<Longrightarrow> (lucky \<Longrightarrow> harmless code s n) \<Longrightarrow>
    mstep code lucky s (handle_notification code n (s\<lparr>notifications := ns\<rparr>))"
| take: "k \<in> queued s \<Longrightarrow> inflight s k = None \<Longrightarrow> get = lister (cached s) \<or> get = (\<lambda>_. Fault) \<Longrightarrow>
    processNextWorkItem (sync code get) k False = Inr (ms, calls, True) \<Longrightarrow>
    mstep code lucky s (s\<lparr>queued := queued s - {k}, inflight := (inflight s)(k \<mapsto> (ms, calls))\<rparr>)"
| finish: "inflight s k = Some (ms, calls) \<Longrightarrow>
    mstep code lucky s (s\<lparr>sent := sent s @ ms, inflight := (inflight s)(k := None), queued := queued s \<union> added calls\<rparr>)"

definition empty_monitored :: "('o, 'm) monitored" where
  "empty_monitored = \<lparr>cached = (\<lambda>_. None), notifications = [], queued = {}, inflight = (\<lambda>_. None), sent = []\<rparr>"

inductive mreach ::
  "('o, 'm) monitor_code \<Rightarrow> bool \<Rightarrow> ('o, 'm) monitored \<Rightarrow> bool"
  for code lucky where
  mreach_start: "mreach code lucky empty_monitored"
| mreach_step: "mreach code lucky s \<Longrightarrow> mstep code lucky s t \<Longrightarrow> mreach code lucky t"

definition settled :: "('o, 'm) monitored \<Rightarrow> bool" where
  "settled s \<longleftrightarrow> notifications s = [] \<and> queued s = {} \<and> inflight s = (\<lambda>_. None)"

definition latest :: "('m \<Rightarrow> string) \<Rightarrow> string \<Rightarrow> 'm list \<Rightarrow> 'm option" where
  \<comment> \<open>the last message about a key\<close>
  "latest msg_key k ms = find (\<lambda>m. msg_key m = k) (rev ms)"

lemma latest_simps [simp]:
  "latest f k [] = None" "latest f k (ms @ [m]) = (if f m = k then Some m else latest f k ms)"
  by (simp_all add: latest_def)

lemma added_simps [simp]:
  "added [] = {}" "added [Add k] = {k}" "added [Forget k, Done k'] = {}" "added [AddRateLimited k, Done k'] = {k}"
  "added (enqueueItem (Some k)) = {k}" "added (UpdateFunc v v' (Some k)) = (if v = v' then {} else {k})"
  by (auto simp: added_def enqueueItem_def UpdateFunc_def)

section \<open>The contract of a monitor\<close>

fun about :: "object_id \<Rightarrow> notification \<Rightarrow> bool" where
  "about i (Added j) \<longleftrightarrow> j = i"
| "about i (Updated j v v') \<longleftrightarrow> j = i \<and> v \<noteq> v'"
| "about i (Deleted j lost) \<longleftrightarrow> j = i"

fun deletes :: "notification \<Rightarrow> bool" where
  "deletes (Deleted j lost) = True"
| "deletes _ = False"

definition final :: "object_id \<Rightarrow> notification list \<Rightarrow> notification option" where
  "final i ns = find (about i) (rev ns)"

lemma final_simps [simp]:
  "final i [] = None" "final i (ns @ [n]) = (if about i n then Some n else final i ns)"
  by (simp_all add: final_def)

lemma final_Cons: "final i (n # ns) = (if final i ns = None \<and> about i n then Some n else final i ns)"
  by (induction ns rule: rev_induct) (auto simp: final_def)

fun subject :: "notification \<Rightarrow> object_id" where
  "subject (Added i) = i"
| "subject (Updated i v v') = i"
| "subject (Deleted i lost) = i"

lemma about_subject: "about i n \<Longrightarrow> subject n = i"
  by (cases n) auto

locale monitor =
  fixes code :: "('o, 'm) monitor_code" and message :: "string \<Rightarrow> 'o \<Rightarrow> 'm"
    and msg_key :: "'m \<Rightarrow> string"
  assumes reads: "named code i \<Longrightarrow> sync code get (meta_key code i) =
      Inr (case get i of Hit x \<Rightarrow> ([message (meta_key code i) x], False) | Miss \<Rightarrow> ([], False) | Fault \<Rightarrow> ([], True))"
    and msg_key: "msg_key (message k x) = k" "msg_key (obsolete code k) = k"
begin

abbreviation key :: "object_id \<Rightarrow> string" where
  "key \<equiv> meta_key code"

lemma meta_key_inj: "named code i \<Longrightarrow> named code j \<Longrightarrow> key i = key j \<Longrightarrow> i = j"
  by (simp add: named_def)

definition reflected :: "('o, 'm) monitored \<Rightarrow> object_id \<Rightarrow> bool" where
  \<comment> \<open>what the receiver of the messages knows of the object is how it is\<close>
  "reflected s i \<longleftrightarrow>
     (case cached s i of
        None \<Rightarrow> latest msg_key (key i) (sent s) \<in> {None, Some (obsolete code (key i))}
      | Some x \<Rightarrow> latest msg_key (key i) (sent s) = Some (message (key i) x))"

definition on_its_way :: "('o, 'm) monitored \<Rightarrow> object_id \<Rightarrow> bool" where
  "on_its_way s i \<longleftrightarrow>
     (case inflight s (key i) of
        None \<Rightarrow> reflected s i \<or> key i \<in> queued s \<and> cached s i \<noteq> None
      | Some (ms, calls) \<Rightarrow>
          (case cached s i of
             None \<Rightarrow> ms = [] \<and> reflected s i
           | Some x \<Rightarrow> ms = [message (key i) x] \<or> ms = [] \<and> key i \<in> added calls \<or> key i \<in> queued s))"

definition tracked :: "('o, 'm) monitored \<Rightarrow> object_id \<Rightarrow> bool" where
  "tracked s i \<longleftrightarrow>
     (case final i (notifications s) of
        None \<Rightarrow> on_its_way s i
      | Some n \<Rightarrow> deletes n \<longleftrightarrow> cached s i = None)"

definition well_keyed :: "('o, 'm) monitored \<Rightarrow> bool" where
  "well_keyed s \<longleftrightarrow>
     (\<forall>k \<in> queued s. \<exists>i. named code i \<and> k = key i) \<and> (\<forall>n \<in> set (notifications s). named code (subject n)) \<and>
     (\<forall>k ms calls. inflight s k = Some (ms, calls) \<longrightarrow>
        (\<exists>i. named code i \<and> k = key i) \<and> (\<forall>m \<in> set ms. msg_key m = k) \<and> added calls \<subseteq> {k})"

definition tracks :: "('o, 'm) monitored \<Rightarrow> bool" where
  "tracks s \<longleftrightarrow> well_keyed s \<and> (\<forall>i. named code i \<longrightarrow> tracked s i)"

lemma latest_others: "(\<forall>m \<in> set ms'. msg_key m \<noteq> k) \<Longrightarrow> latest msg_key k (ms @ ms') = latest msg_key k ms"
  unfolding latest_def by (induction ms' rule: rev_induct) auto

lemma reflected_cong:
  "cached t i = cached s i \<Longrightarrow> latest msg_key (key i) (sent t) = latest msg_key (key i) (sent s) \<Longrightarrow>
     reflected t i = reflected s i"
  by (cases "cached s i") (simp_all add: reflected_def)

lemma on_its_way_mono:
  assumes "on_its_way s i" and "cached t i = cached s i" and "inflight t (key i) = inflight s (key i)"
    and "latest msg_key (key i) (sent t) = latest msg_key (key i) (sent s)" and "key i \<in> queued s \<longrightarrow> key i \<in> queued t"
  shows "on_its_way t i"
  using assms reflected_cong [OF assms(2,4)]
  by (cases "inflight s (key i)"; cases "cached s i") (auto simp: on_its_way_def)

lemma taken:
  assumes "named code i" and get: "get = lister (cached s) \<or> get = (\<lambda>_. Fault)"
    and "processNextWorkItem (sync code get) (key i) False = Inr (ms, calls, True)"
  shows "(case cached s i of
       None \<Rightarrow> ms = []
     | Some x \<Rightarrow> ms = [message (key i) x] \<or> ms = [] \<and> key i \<in> added calls) \<and>
    (\<forall>m \<in> set ms. msg_key m = key i) \<and> added calls \<subseteq> {key i}"
  using assms(3) get
  by (cases "cached s i") (auto simp: processNextWorkItem_def reads [OF assms(1)] lister_def msg_key split: if_splits)

lemma well_keyed_step: "mstep code lucky s t \<Longrightarrow> well_keyed s \<Longrightarrow> well_keyed t"
proof (induction rule: mstep.induct)
  case (notify s n ns)
  then have "named code (subject n)" by (simp add: well_keyed_def)
  with notify show ?case by (cases n) (auto simp: well_keyed_def split: if_splits)
next
  case (take k s get ms calls)
  then obtain i where i: "named code i" "k = key i" by (auto simp: well_keyed_def)
  with taken [OF i(1) take.hyps(3)] take show ?case by (auto simp: well_keyed_def split: if_splits)
next
  case (finish s k ms calls)
  then show ?case by (auto simp: well_keyed_def) blast
qed (auto simp: well_keyed_def)

lemma tracked_step:
  assumes "mstep code True s t" and wf: "well_keyed s" and "named code i" and "tracked s i"
  shows "tracked t i"
  using assms
proof (cases rule: mstep.cases)
  case (notify n ns)
  have n: "named code (subject n)" using wf notify(2) by (simp add: well_keyed_def)
  have same: "latest msg_key (key i) (sent t) = latest msg_key (key i) (sent s)" if "\<not> about i n"
  proof (cases n)
    case (Deleted j lost)
    with that n have "j \<noteq> i" "named code j" by simp_all
    then have "key j \<noteq> key i" using meta_key_inj assms(3) by blast
    with Deleted notify(1,3) show ?thesis by (cases lost) (auto simp: DeleteFunc_def msg_key(2))
  qed (use notify(1) in auto)
  have fields: "cached t = cached s" "inflight t = inflight s" "notifications t = ns" "queued s \<subseteq> queued t"
    using notify(1) by (cases n; auto)+
  show ?thesis
  proof (cases "final i ns")
    case (Some m)
    with assms(4) fields notify(2) show ?thesis by (simp add: tracked_def final_Cons)
  next
    case None
    show ?thesis
    proof (cases "about i n")
      case False
      then have "on_its_way s i" using assms(4) notify(2) None by (simp add: tracked_def final_Cons)
      then have "on_its_way t i" by (rule on_its_way_mono) (use fields same [OF False] in auto)
      with None fields show ?thesis by (simp add: tracked_def)
    next
      case True
      then have del: "deletes n \<longleftrightarrow> cached s i = None" using assms(4) notify(2) None by (simp add: tracked_def final_Cons)
      have "on_its_way t i"
      proof (cases n)
        case (Deleted j lost)
        with True notify(1,3) del show ?thesis by (auto simp: on_its_way_def reflected_def DeleteFunc_def msg_key(2))
      qed (use True notify(1) del in \<open>auto simp: on_its_way_def split: option.splits\<close>)
      with None fields show ?thesis by (simp add: tracked_def)
    qed
  qed
next
  case (take k get ms calls)
  then obtain j where j: "named code j" "k = key j" using wf by (auto simp: well_keyed_def)
  note read = taken [OF j(1) take(4) take(5) [unfolded j(2)]]
  show ?thesis
  proof (cases "i = j")
    case True
    then have "on_its_way s i \<Longrightarrow> on_its_way t i"
      using take(1,3) j(2) read by (cases "cached s i") (auto simp: on_its_way_def reflected_def)
    with assms(4) take(1) show ?thesis by (simp add: tracked_def split: option.splits)
  next
    case False
    then have "key i \<noteq> k" using meta_key_inj [OF assms(3) j(1)] j(2) by blast
    then have "on_its_way s i \<Longrightarrow> on_its_way t i" using take(1) by (auto elim: on_its_way_mono)
    with assms(4) take(1) show ?thesis by (simp add: tracked_def split: option.splits)
  qed
next
  case (finish k ms calls)
  then obtain j where j: "named code j" "k = key j" "\<forall>m \<in> set ms. msg_key m = k" "added calls \<subseteq> {k}"
    using wf unfolding well_keyed_def by blast
  have "on_its_way t i" if "on_its_way s i"
  proof (cases "i = j")
    case True
    with that finish j(2) show ?thesis
      by (cases "cached s i") (auto simp: on_its_way_def reflected_def msg_key)
  next
    case False
    then have "key i \<noteq> k" using meta_key_inj [OF assms(3) j(1)] j(2) by blast
    with that j(3) finish(1) show ?thesis by (auto elim!: on_its_way_mono intro!: latest_others)
  qed
  with assms(4) finish(1) show ?thesis by (simp add: tracked_def split: option.splits)
qed (auto simp: tracked_def on_its_way_def reflected_def split: option.splits)

lemma reach_tracks: "mreach code True s \<Longrightarrow> tracks s"
proof (induction rule: mreach.induct)
  case mreach_start
  then show ?case
    by (simp add: tracks_def well_keyed_def tracked_def on_its_way_def reflected_def empty_monitored_def)
next
  case (mreach_step s t)
  then show ?case using well_keyed_step tracked_step by (auto simp: tracks_def)
qed

lemma settled_reflects:
  assumes "mreach code True s" and "settled s" and "named code i"
  shows "reflected s i"
proof -
  have "tracked s i" using reach_tracks [OF assms(1)] assms(3) by (cases i) (simp add: tracks_def)
  with assms(2) show ?thesis by (simp add: tracked_def on_its_way_def settled_def)
qed

end

section \<open>Runs\<close>

context monitor
begin

definition only_sent :: "(object_id \<Rightarrow> 'o option) \<Rightarrow> 'm list \<Rightarrow> ('o, 'm) monitored" where
  "only_sent objs ms = \<lparr>cached = objs, notifications = [], queued = {}, inflight = (\<lambda>_. None), sent = ms\<rparr>"

definition reading :: "object_id \<Rightarrow> 'o \<Rightarrow> ('o, 'm) monitored" where
  \<comment> \<open>an object was created, and a worker has read it\<close>
  "reading i x = \<lparr>cached = [i \<mapsto> x], notifications = [], queued = {},
     inflight = [key i \<mapsto> ([message (key i) x], [Forget (key i), Done (key i)])], sent = []\<rparr>"

lemma only_sent_settled: "settled (only_sent objs ms)"
  by (simp add: settled_def only_sent_def)

lemma read_run:
  assumes "named code i"
  shows "mreach code lucky (reading i x)"
proof -
  let ?s1 = "\<lparr>cached = [i \<mapsto> x], notifications = [Added i], queued = {}, inflight = (\<lambda>_. None), sent = []\<rparr> :: ('o, 'm) monitored"
  let ?s2 = "\<lparr>cached = [i \<mapsto> x], notifications = [], queued = {key i}, inflight = (\<lambda>_. None), sent = []\<rparr> :: ('o, 'm) monitored"
  have "mstep code lucky empty_monitored ?s1"
    using create [OF assms, of empty_monitored lucky x] by (simp add: empty_monitored_def)
  moreover have "mstep code lucky ?s1 ?s2" using notify [of ?s1 "Added i" "[]" lucky code] by simp
  moreover have "mstep code lucky ?s2 (reading i x)"
    using take [of "key i" ?s2 "lister (cached ?s2)" code "[message (key i) x]" "[Forget (key i), Done (key i)]" lucky]
    by (simp add: reading_def processNextWorkItem_def reads [OF assms] lister_def)
  ultimately show ?thesis using mreach_start mreach_step by metis
qed

lemma created_run:
  assumes "named code i"
  shows "mreach code lucky (only_sent [i \<mapsto> x] [message (key i) x])"
  by (rule mreach_step [OF read_run [OF assms, of lucky x]])
    (use finish [of "reading i x" "key i" "[message (key i) x]" "[Forget (key i), Done (key i)]" code lucky]
     in \<open>simp add: reading_def only_sent_def\<close>)

lemma overtaken_run:
  assumes "named code i"
  shows "mreach code False (only_sent (\<lambda>_. None) [obsolete code (key i), message (key i) x])"
proof -
  let ?s1 = "(reading i x)\<lparr>cached := (\<lambda>_. None), notifications := [Deleted i False]\<rparr>"
  let ?s2 = "(reading i x)\<lparr>cached := (\<lambda>_. None), sent := [obsolete code (key i)]\<rparr>"
  have "mstep code False (reading i x) ?s1"
    using delete [OF assms, of "reading i x" x False False] by (simp add: reading_def)
  moreover have "mstep code False ?s1 ?s2"
    using notify [of ?s1 "Deleted i False" "[]" False code] by (simp add: reading_def DeleteFunc_def)
  moreover have "mstep code False ?s2 (only_sent (\<lambda>_. None) [obsolete code (key i), message (key i) x])"
    using finish [of ?s2 "key i" "[message (key i) x]" "[Forget (key i), Done (key i)]" code False]
    by (simp add: reading_def only_sent_def)
  ultimately show ?thesis using read_run [OF assms, of False x] mreach_step by metis
qed

lemma lost_run:
  assumes "named code i"
  shows "mreach code False (only_sent (\<lambda>_. None) [message (key i) x])"
proof -
  let ?s0 = "only_sent [i \<mapsto> x] [message (key i) x]"
  let ?s1 = "?s0\<lparr>cached := (\<lambda>_. None), notifications := [Deleted i True]\<rparr>"
  have "mstep code False ?s0 ?s1"
    using delete [OF assms, of ?s0 x False True] by (simp add: only_sent_def)
  moreover have "mstep code False ?s1 (only_sent (\<lambda>_. None) [message (key i) x])"
    using notify [of ?s1 "Deleted i True" "[]" False code] by (simp add: only_sent_def DeleteFunc_def)
  ultimately show ?thesis using created_run [OF assms, of False x] mreach_step by metis
qed

end

end
