(* ===== verification/Custom_Monitors.thy ===== *)
theory Custom_Monitors
  imports Monitors
begin

text \<open>
  \<^verbatim>\<open>pkg/controller/intent_monitor.go\<close> and
  \<^verbatim>\<open>pkg/controller/profile_monitor.go\<close>, on the custom resources of
  \<^verbatim>\<open>pkg/api/intents/v1alpha1/types.go\<close>: what each monitor makes of an object, the
  interpretation of the contract of monitors on both, and what that means for the maps of
  the controller, which receives their messages.
\<close>

section \<open>Custom resources\<close>

record TargetRef =
  tr_Kind :: string
  tr_Name :: string

record TargetObjective =
  to_Name :: string
  to_Value :: float64
  MeasuredBy :: string
  Tolerance :: float64

record IntentObject =
  in_ResourceVersion :: string
  in_TargetRef :: TargetRef
  in_Priority :: float64
  in_ActivelyManaged :: bool
  in_Objectives :: "TargetObjective list"

record KPIProfileStatus =
  Resolved :: bool
  Reason :: string

record KPIProfile =
  kp_ResourceVersion :: string
  kp_Query :: string
  kp_Minimize :: bool
  KPIType :: string
  Props :: "(string, string) gomap"
  Status :: KPIProfileStatus

section \<open>The intent monitor\<close>

definition target_maps :: "TargetObjective list \<Rightarrow> ((string, float64) gomap \<times> (string, float64) gomap) go" where
  "target_maps targets =
     foldG (\<lambda>target (objectivesMap, tolerationsMap).
       bindG (mput objectivesMap (MeasuredBy target) (to_Value target)) (\<lambda>objectivesMap.
       bindG (mput tolerationsMap (MeasuredBy target) (Tolerance target)) (\<lambda>tolerationsMap.
         Inr (objectivesMap, tolerationsMap)))) targets (mmake, mmake)"

definition processIntent ::
  "(string \<Rightarrow> object_id option) \<Rightarrow> (object_id \<Rightarrow> IntentObject lookup) \<Rightarrow> string \<Rightarrow> (Intent list \<times> bool) go" where
  \<comment> \<open>the messages and whether an error is returned\<close>
  "processIntent split get key =
     (case split key of
        None \<Rightarrow> Inr ([], False)
      | Some i \<Rightarrow>
          (case get i of
             Miss \<Rightarrow> Inr ([], False)
           | Fault \<Rightarrow> Inr ([], True)
           | Hit intent \<Rightarrow>
               bindG (target_maps (in_Objectives intent)) (\<lambda>(objectivesMap, tolerationsMap).
                 Inr ([\<lparr>IntentKey = key, Priority = in_Priority intent, TargetKey = tr_Name (in_TargetRef intent),
                        TargetKind = tr_Kind (in_TargetRef intent), ActivelyManaged = in_ActivelyManaged intent,
                        Objectives = objectivesMap, Tolerations = tolerationsMap\<rparr>], False))))"

definition obsolete_intent :: "string \<Rightarrow> Intent" where
  \<comment> \<open>what \<open>DeleteFunc\<close> sends\<close>
  "obsolete_intent key = zero_Intent\<lparr>IntentKey := key, Priority := - 1\<rparr>"

definition intent_monitor :: "(object_id \<Rightarrow> string) \<Rightarrow> (string \<Rightarrow> object_id option) \<Rightarrow> (IntentObject, Intent) monitor_code" where
  "intent_monitor meta split = \<lparr>meta_key = meta, split_key = split, sync = processIntent split,
     obsolete = obsolete_intent, version = in_ResourceVersion\<rparr>"

section \<open>The profile monitor\<close>

type_synonym default_profiles = "(string, (string, string) gomap) gomap"

definition updateStatus :: "KPIProfile \<Rightarrow> bool \<Rightarrow> string \<Rightarrow> KPIProfile" where
  \<comment> \<open>what is written to the status subresource; an error of the write is only logged\<close>
  "updateStatus profile resolved reason = profile\<lparr>Status := \<lparr>Resolved = resolved, Reason = reason\<rparr>\<rparr>"

definition parse_profile :: "default_profiles \<Rightarrow> string \<Rightarrow> KPIProfile \<Rightarrow> Profile \<times> KPIProfile" where
  \<comment> \<open>what is sent, and the object with the status that is set\<close>
  "parse_profile defaultProfiles key profile =
     (case mlookup defaultProfiles key of
        Some tmp \<Rightarrow>
          (\<lparr>ProfileKey = key, TypeOf = ProfileTypeFromText (KPIType profile), Query = mget '''' tmp ''query'',
            Minimize = kp_Minimize profile, External = False, Address = mget '''' tmp ''endpoint''\<rparr>, updateStatus profile True ''ok'')
      | None \<Rightarrow>
          if mlookup (Props profile) ''endpoint'' \<noteq> None \<and> kp_Query profile \<noteq> '''' then
            (\<lparr>ProfileKey = key, TypeOf = ProfileTypeFromText (KPIType profile), Query = kp_Query profile,
              Minimize = kp_Minimize profile, External = True, Address = mget '''' (Props profile) ''endpoint''\<rparr>,
             updateStatus profile True ''ok'')
          else
            (zero_Profile\<lparr>ProfileKey := key, TypeOf := Obsolete, External := True\<rparr>,
             updateStatus profile False ''Both a endpoint and a query need to be defined.''))"

definition processProfile ::
  "default_profiles \<Rightarrow> (string \<Rightarrow> object_id option) \<Rightarrow> (object_id \<Rightarrow> KPIProfile lookup) \<Rightarrow> string \<Rightarrow>
   ((Profile list \<times> KPIProfile list) \<times> bool) go" where
  \<comment> \<open>the messages, the writes of the status, and whether an error is returned\<close>
  "processProfile defaultProfiles split get key =
     (case split key of
        None \<Rightarrow> Inr (([], []), False)
      | Some i \<Rightarrow>
          (case get i of
             Miss \<Rightarrow> Inr (([], []), False)
           | Fault \<Rightarrow> Inr (([], []), True)
           | Hit profile \<Rightarrow>
               (let (parsedProfile, profileCopy) = parse_profile defaultProfiles key profile in
                Inr (([parsedProfile], [profileCopy]), False))))"

definition profile_messages ::
  "default_profiles \<Rightarrow> (string \<Rightarrow> object_id option) \<Rightarrow> (object_id \<Rightarrow> KPIProfile lookup) \<Rightarrow> string \<Rightarrow>
   (Profile list \<times> bool) go" where
  \<comment> \<open>a write of the status comes back to the monitor as a change like any other\<close>
  "profile_messages defaultProfiles split get key =
     bindG (processProfile defaultProfiles split get key) (\<lambda>((msgs, writes), err). Inr (msgs, err))"

definition obsolete_profile :: "string \<Rightarrow> Profile" where
  \<comment> \<open>what \<open>DeleteFunc\<close> sends\<close>
  "obsolete_profile key = zero_Profile\<lparr>ProfileKey := key, TypeOf := Obsolete, External := True\<rparr>"

definition profile_monitor ::
  "default_profiles \<Rightarrow> (object_id \<Rightarrow> string) \<Rightarrow> (string \<Rightarrow> object_id option) \<Rightarrow> (KPIProfile, Profile) monitor_code" where
  "profile_monitor defaultProfiles meta split = \<lparr>meta_key = meta, split_key = split,
     sync = profile_messages defaultProfiles split, obsolete = obsolete_profile, version = kp_ResourceVersion\<rparr>"

section \<open>The workers\<close>

definition assoc_targets :: "(TargetObjective \<Rightarrow> float64) \<Rightarrow> TargetObjective list \<Rightarrow> (string, float64) gomap" where
  \<comment> \<open>the values by profile, the last one counts\<close>
  "assoc_targets f targets = Some (fold (\<lambda>t. AList.update (MeasuredBy t) (f t)) targets [])"

lemma target_maps_eq: "target_maps ts = Inr (assoc_targets to_Value ts, assoc_targets Tolerance ts)"
proof -
  have "foldG (\<lambda>target (objectivesMap, tolerationsMap).
       bindG (mput objectivesMap (MeasuredBy target) (to_Value target)) (\<lambda>objectivesMap.
       bindG (mput tolerationsMap (MeasuredBy target) (Tolerance target)) (\<lambda>tolerationsMap.
         Inr (objectivesMap, tolerationsMap)))) ts (Some xs, Some ys) =
     Inr (Some (fold (\<lambda>t. AList.update (MeasuredBy t) (to_Value t)) ts xs),
          Some (fold (\<lambda>t. AList.update (MeasuredBy t) (Tolerance t)) ts ys))" for xs ys
    by (induction ts arbitrary: xs ys) simp_all
  from this [of "[]" "[]"] show ?thesis by (simp add: target_maps_def assoc_targets_def mmake_def)
qed

definition intent_worker ::
  "(string \<Rightarrow> object_id option) \<Rightarrow> (object_id \<Rightarrow> IntentObject lookup) \<Rightarrow> string \<Rightarrow> bool \<Rightarrow>
   (Intent list \<times> queue_call list \<times> bool) go" where
  "intent_worker split get = processNextWorkItem (processIntent split get)"

definition profile_worker ::
  "default_profiles \<Rightarrow> (string \<Rightarrow> object_id option) \<Rightarrow> (object_id \<Rightarrow> KPIProfile lookup) \<Rightarrow> string \<Rightarrow> bool \<Rightarrow>
   (Profile list \<times> queue_call list \<times> bool) go" where
  "profile_worker defaultProfiles split get = processNextWorkItem (profile_messages defaultProfiles split get)"

lemma worker_outcome:
  \<comment> \<open>a worker never ends on its own, and exactly the keys with a failed read come back\<close>
  "\<exists>ms calls. profile_worker defaults split get key False = Inr (ms, calls, True) \<and>
     added calls = (if (\<exists>i. split key = Some i \<and> get i = Fault) then {key} else {})"
  "\<exists>ms calls. intent_worker split get' key False = Inr (ms, calls, True) \<and>
     added calls = (if (\<exists>i. split key = Some i \<and> get' i = Fault) then {key} else {})"
  by (auto simp: profile_worker_def intent_worker_def processNextWorkItem_def profile_messages_def processProfile_def
      processIntent_def target_maps_eq split: option.split lookup.split prod.split)

section \<open>Both keep the contract\<close>

definition intent_message :: "string \<Rightarrow> IntentObject \<Rightarrow> Intent" where
  "intent_message key x =
     \<lparr>IntentKey = key, Priority = in_Priority x, TargetKey = tr_Name (in_TargetRef x), TargetKind = tr_Kind (in_TargetRef x),
      ActivelyManaged = in_ActivelyManaged x, Objectives = assoc_targets to_Value (in_Objectives x),
      Tolerations = assoc_targets Tolerance (in_Objectives x)\<rparr>"

lemma assoc_targets_lookup:
  "mlookup (assoc_targets f ts) k = map_option f (find (\<lambda>t. MeasuredBy t = k) (rev ts))"
proof -
  have "map_of (fold (\<lambda>t. AList.update (MeasuredBy t) (f t)) ts xs) k =
      (case find (\<lambda>t. MeasuredBy t = k) (rev ts) of None \<Rightarrow> map_of xs k | Some t \<Rightarrow> Some (f t))" for xs
    by (induction ts rule: rev_induct) (auto simp: update_conv')
  from this [of "[]"] show ?thesis by (simp add: assoc_targets_def split: option.split)
qed

interpretation intents: monitor "intent_monitor meta split" intent_message IntentKey for meta split
proof
  fix i get
  assume "named (intent_monitor meta split) i"
  then show "sync (intent_monitor meta split) get (meta_key (intent_monitor meta split) i) =
      Inr (case get i of
        Hit x \<Rightarrow> ([intent_message (meta_key (intent_monitor meta split) i) x], False)
      | Miss \<Rightarrow> ([], False) | Fault \<Rightarrow> ([], True))"
    by (simp add: named_def intent_monitor_def processIntent_def target_maps_eq intent_message_def split: lookup.split)
qed (simp_all add: intent_message_def intent_monitor_def obsolete_intent_def)

interpretation profiles: monitor "profile_monitor defaults meta split" "\<lambda>k x. fst (parse_profile defaults k x)" ProfileKey
  for defaults meta split
proof
  fix i get
  assume "named (profile_monitor defaults meta split) i"
  then show "sync (profile_monitor defaults meta split) get (meta_key (profile_monitor defaults meta split) i) =
      Inr (case get i of
        Hit x \<Rightarrow> ([fst (parse_profile defaults (meta_key (profile_monitor defaults meta split) i) x)], False)
      | Miss \<Rightarrow> ([], False) | Fault \<Rightarrow> ([], True))"
    by (simp add: named_def profile_monitor_def profile_messages_def processProfile_def
        split: lookup.split prod.split)
qed (simp_all add: parse_profile_def profile_monitor_def obsolete_profile_def zero_Profile_def split: option.split)

section \<open>What the controller knows\<close>

lemma controller_intents:
  "\<exists>m. foldG handle_intent es mmake = Inr m \<and> m \<noteq> None \<and> wf_map m \<and>
     (\<forall>k. mlookup m k = (case latest IntentKey k es of None \<Rightarrow> None | Some e \<Rightarrow> if 0 \<le> Priority e then Some e else None))"
proof (induction es rule: rev_induct)
  case (snoc e es)
  then obtain m where m: "foldG handle_intent es mmake = Inr m" "m \<noteq> None" "wf_map m"
    "\<forall>k. mlookup m k = (case latest IntentKey k es of None \<Rightarrow> None | Some e \<Rightarrow> if 0 \<le> Priority e then Some e else None)"
    by blast
  obtain m' where "handle_intent e m = Inr m'" "m' \<noteq> None" "wf_map m'"
    "\<forall>k. mlookup m' k = (if k = IntentKey e then (if 0 \<le> Priority e then Some e else None) else mlookup m k)"
    by (rule handle_intent_ok [OF m(2,3)])
  with m(1,4) show ?case by (intro exI [of _ m']) (simp add: foldG_append del: not_None_eq)
qed simp

lemma controller_profiles:
  "\<exists>m. foldG handle_profile es mmake = Inr m \<and> m \<noteq> None \<and> wf_map m \<and>
     (\<forall>k. mlookup m k = (case latest ProfileKey k es of None \<Rightarrow> None | Some e \<Rightarrow> if TypeOf e \<noteq> Obsolete then Some e else None))"
proof (induction es rule: rev_induct)
  case (snoc e es)
  then obtain m where m: "foldG handle_profile es mmake = Inr m" "m \<noteq> None" "wf_map m"
    "\<forall>k. mlookup m k = (case latest ProfileKey k es of None \<Rightarrow> None | Some e \<Rightarrow> if TypeOf e \<noteq> Obsolete then Some e else None)"
    by blast
  obtain m' where "handle_profile e m = Inr m'" "m' \<noteq> None" "wf_map m'"
    "\<forall>k. mlookup m' k = (if k = ProfileKey e then (if TypeOf e \<noteq> Obsolete then Some e else None) else mlookup m k)"
    by (rule handle_profile_ok [OF m(2,3)])
  with m(1,4) show ?case by (intro exI [of _ m']) (simp add: foldG_append del: not_None_eq)
qed simp

definition knows_intent :: "string \<Rightarrow> IntentObject \<Rightarrow> Intent \<Rightarrow> bool" where
  \<comment> \<open>the specification: the intent has the fields of the object, and of several targets for one profile the last\<close>
  "knows_intent key x e \<longleftrightarrow>
     IntentKey e = key \<and> Priority e = in_Priority x \<and> TargetKey e = tr_Name (in_TargetRef x) \<and>
     TargetKind e = tr_Kind (in_TargetRef x) \<and> ActivelyManaged e = in_ActivelyManaged x \<and>
     (\<forall>p. mlookup (Objectives e) p = map_option to_Value (find (\<lambda>t. MeasuredBy t = p) (rev (in_Objectives x))) \<and>
          mlookup (Tolerations e) p = map_option Tolerance (find (\<lambda>t. MeasuredBy t = p) (rev (in_Objectives x))))"

lemma message_knows: "knows_intent key x (intent_message key x)"
  by (simp add: knows_intent_def intent_message_def assoc_targets_lookup)

text \<open>
  C17. Once the intent monitor has settled the controller knows exactly the intents that exist: whatever the order of
  changes, notifications, failed reads and worker steps was, the map that the controller makes of the messages
  has each existing intent with a priority of at least 0, as it is now, and no other; provided that
  no deletion overtook a worker with the same intent and none was lost.
\<close>
theorem intents_reflected:
  assumes "mreach (intent_monitor meta split) True s" and "settled s" and "split (meta i) = Some i"
  shows "\<exists>m. foldG handle_intent (sent s) mmake = Inr m \<and>
    (case cached s i of
       None \<Rightarrow> mlookup m (meta i) = None
     | Some x \<Rightarrow> if 0 \<le> in_Priority x then \<exists>e. mlookup m (meta i) = Some e \<and> knows_intent (meta i) x e
               else mlookup m (meta i) = None)"
proof -
  obtain m where m: "foldG handle_intent (sent s) mmake = Inr m"
    "\<And>k. mlookup m k = (case latest IntentKey k (sent s) of None \<Rightarrow> None | Some e \<Rightarrow> if 0 \<le> Priority e then Some e else None)"
    using controller_intents [of "sent s"] by blast
  have "named (intent_monitor meta split) i" using assms(3) by (simp add: named_def intent_monitor_def)
  note r = intents.settled_reflects [OF assms(1,2) this, unfolded intents.reflected_def]
  have fields: "meta_key (intent_monitor meta split) i = meta i"
    "obsolete (intent_monitor meta split) (meta i) = obsolete_intent (meta i)" by (simp_all add: intent_monitor_def)
  show ?thesis
  proof (cases "cached s i")
    case None
    with r fields have "latest IntentKey (meta i) (sent s) \<in> {None, Some (obsolete_intent (meta i))}" by simp
    then have "mlookup m (meta i) = None" by (auto simp: m(2) obsolete_intent_def float_consts)
    with m(1) None show ?thesis by simp
  next
    case (Some x)
    with r fields have "latest IntentKey (meta i) (sent s) = Some (intent_message (meta i) x)" by simp
    then have "mlookup m (meta i) = (if 0 \<le> in_Priority x then Some (intent_message (meta i) x) else None)"
      by (simp add: m(2) intent_message_def)
    with m(1) Some message_knows show ?thesis by auto
  qed
qed

text \<open>
  Once the profile monitor has settled the controller knows exactly the profiles that exist and can be resolved: a
  profile among the defaults has the default query and address, another one its own, and one that
  has no query or no endpoint is unknown, as is one of an unknown type.
\<close>
theorem profiles_reflected:
  assumes "mreach (profile_monitor defaults meta split) True s" and "settled s" and "split (meta i) = Some i"
  shows "\<exists>m. foldG handle_profile (sent s) mmake = Inr m \<and>
    (\<forall>p. mlookup m (meta i) = Some p \<longleftrightarrow>
       (\<exists>x. cached s i = Some x \<and> ProfileTypeFromText (KPIType x) \<noteq> Obsolete \<and>
          ProfileKey p = meta i \<and> TypeOf p = ProfileTypeFromText (KPIType x) \<and> Minimize p = kp_Minimize x \<and>
          (case mlookup defaults (meta i) of
             Some d \<Rightarrow> Query p = mget '''' d ''query'' \<and> Address p = mget '''' d ''endpoint'' \<and> \<not> External p
           | None \<Rightarrow> kp_Query x \<noteq> '''' \<and> Query p = kp_Query x \<and>
               mlookup (Props x) ''endpoint'' = Some (Address p) \<and> External p)))"
proof -
  obtain m where m: "foldG handle_profile (sent s) mmake = Inr m"
    "\<And>k. mlookup m k = (case latest ProfileKey k (sent s) of None \<Rightarrow> None | Some e \<Rightarrow> if TypeOf e \<noteq> Obsolete then Some e else None)"
    using controller_profiles [of "sent s"] by blast
  have "named (profile_monitor defaults meta split) i" using assms(3) by (simp add: named_def profile_monitor_def)
  note r = profiles.settled_reflects [OF assms(1,2) this, unfolded profiles.reflected_def]
  have fields: "meta_key (profile_monitor defaults meta split) i = meta i"
    "obsolete (profile_monitor defaults meta split) (meta i) = obsolete_profile (meta i)" by (simp_all add: profile_monitor_def)
  show ?thesis
  proof (cases "cached s i")
    case None
    with r fields have "latest ProfileKey (meta i) (sent s) \<in> {None, Some (obsolete_profile (meta i))}" by simp
    then have "mlookup m (meta i) = None" by (auto simp: m(2) obsolete_profile_def)
    with m(1) None show ?thesis by simp
  next
    case (Some x)
    with r fields have "latest ProfileKey (meta i) (sent s) = Some (fst (parse_profile defaults (meta i) x))" by simp
    then have "mlookup m (meta i) = (let p = fst (parse_profile defaults (meta i) x) in if TypeOf p \<noteq> Obsolete then Some p else None)"
      by (simp add: m(2) Let_def)
    with m(1) Some show ?thesis
      by (cases "mlookup defaults (meta i)")
        (auto simp: parse_profile_def Let_def mget_def intro: Profile.equality split: if_splits)
  qed
qed

section \<open>Runs\<close>

definition demo_meta :: "object_id \<Rightarrow> string" where
  "demo_meta = (\<lambda>(namespace, name). namespace @ ''/'' @ name)"

definition demo_split :: "string \<Rightarrow> object_id option" where
  "demo_split key = (case split_on (CHR ''/'') key of [namespace, name] \<Rightarrow> Some (namespace, name) | _ \<Rightarrow> None)"

definition sample_intent :: IntentObject where
  \<comment> \<open>two targets for one profile\<close>
  "sample_intent = \<lparr>in_ResourceVersion = ''1'', in_TargetRef = \<lparr>tr_Kind = ''Deployment'', tr_Name = ''ns/app''\<rparr>, in_Priority = 1,
     in_ActivelyManaged = True,
     in_Objectives = [\<lparr>to_Name = ''a'', to_Value = 20, MeasuredBy = ''ns/p99'', Tolerance = 0\<rparr>,
       \<lparr>to_Name = ''b'', to_Value = 10, MeasuredBy = ''ns/p99'', Tolerance = 0\<rparr>]\<rparr>"

definition sample_profile :: KPIProfile where
  "sample_profile = \<lparr>kp_ResourceVersion = ''1'', kp_Query = ''q'', kp_Minimize = True, KPIType = ''latency'',
     Props = Some [(''endpoint'', ''http://prom'')], Status = \<lparr>Resolved = False, Reason = ''''\<rparr>\<rparr>"

lemma demo_key: "demo_split (demo_meta (''ns'', ''a'')) = Some (''ns'', ''a'')" "demo_meta (''ns'', ''a'') = ''ns/a''"
    "demo_split ''ns/a'' = Some (''ns'', ''a'')"
  by (simp_all add: demo_split_def demo_meta_def)

theorem intents_reflected_witness:
  "\<exists>s m e. mreach (intent_monitor demo_meta demo_split) True s \<and> settled s \<and> foldG handle_intent (sent s) mmake = Inr m \<and>
     mlookup m ''ns/a'' = Some e \<and> mlookup (Objectives e) ''ns/p99'' = Some 10"
proof -
  let ?s = "intents.only_sent [(''ns'', ''a'') \<mapsto> sample_intent] [intent_message ''ns/a'' sample_intent]"
  have "mreach (intent_monitor demo_meta demo_split) True ?s"
    using intents.created_run [of demo_meta demo_split "(''ns'', ''a'')" True sample_intent]
    by (simp add: named_def intent_monitor_def demo_key)
  moreover have "settled ?s" by (rule intents.only_sent_settled)
  ultimately show ?thesis
    using intents_reflected [of demo_meta demo_split ?s "(''ns'', ''a'')"]
    by (fastforce simp: demo_key intents.only_sent_def sample_intent_def knows_intent_def float_consts)
qed

theorem profiles_reflected_witness:
  "\<exists>s m p. mreach (profile_monitor None demo_meta demo_split) True s \<and> settled s \<and> foldG handle_profile (sent s) mmake = Inr m \<and>
     mlookup m ''ns/a'' = Some p \<and> TypeOf p = Latency"
proof -
  let ?p = "fst (parse_profile None ''ns/a'' sample_profile)"
  let ?s = "profiles.only_sent [(''ns'', ''a'') \<mapsto> sample_profile] [?p]"
  have "mreach (profile_monitor None demo_meta demo_split) True ?s"
    using profiles.created_run [of None demo_meta demo_split "(''ns'', ''a'')" True sample_profile]
    by (simp add: named_def profile_monitor_def demo_key)
  moreover have "settled ?s" by (rule profiles.only_sent_settled)
  moreover obtain m where m: "foldG handle_profile (sent ?s) mmake = Inr m"
    "\<And>p. mlookup m (demo_meta (''ns'', ''a'')) = Some p \<longleftrightarrow>
       (\<exists>x. cached ?s (''ns'', ''a'') = Some x \<and> ProfileTypeFromText (KPIType x) \<noteq> Obsolete \<and>
          ProfileKey p = demo_meta (''ns'', ''a'') \<and> TypeOf p = ProfileTypeFromText (KPIType x) \<and> Minimize p = kp_Minimize x \<and>
          (case mlookup None (demo_meta (''ns'', ''a'')) of
             Some d \<Rightarrow> Query p = mget '''' d ''query'' \<and> Address p = mget '''' d ''endpoint'' \<and> \<not> External p
           | None \<Rightarrow> kp_Query x \<noteq> '''' \<and> Query p = kp_Query x \<and>
               mlookup (Props x) ''endpoint'' = Some (Address p) \<and> External p))"
    using profiles_reflected [OF calculation demo_key(1)] by blast
  moreover have "mlookup m ''ns/a'' = Some ?p"
    using m(2) [of ?p] by (simp add: demo_key profiles.only_sent_def parse_profile_def sample_profile_def ProfileTypeFromText_def to_lower_def lower_char_def mget_def)
  ultimately show ?thesis
    by (intro exI [of _ ?s] exI [of _ m] exI [of _ ?p]) (simp add: parse_profile_def sample_profile_def ProfileTypeFromText_def to_lower_def lower_char_def)
qed

text \<open>
  C18. Without that proviso the controller can keep an intent that is gone, for good: a worker that has read the intent is
  overtaken by the handler of its deletion and sends it after the removal; and a deletion the informer missed
  is reported without the metadata from which the handler makes the key, so no removal is sent at
  all. In both cases the monitor is settled, no intent exists, and the controller has one.
\<close>
theorem deleted_intent_kept:
  "\<exists>s t m. mreach (intent_monitor demo_meta demo_split) False s \<and> settled s \<and> cached s = (\<lambda>_. None) \<and>
     mreach (intent_monitor demo_meta demo_split) False t \<and> settled t \<and> cached t = (\<lambda>_. None) \<and>
     obsolete_intent ''ns/a'' \<in> set (sent s) \<and> obsolete_intent ''ns/a'' \<notin> set (sent t) \<and>
     foldG handle_intent (sent s) mmake = Inr m \<and> foldG handle_intent (sent t) mmake = Inr m \<and>
     mlookup m ''ns/a'' \<noteq> None"
proof -
  let ?e = "intent_message ''ns/a'' sample_intent"
  let ?s = "intents.only_sent (\<lambda>_. None) [obsolete_intent ''ns/a'', ?e]" and ?t = "intents.only_sent (\<lambda>_. None) [?e]"
  have n: "named (intent_monitor demo_meta demo_split) (''ns'', ''a'')" by (simp add: named_def intent_monitor_def demo_key)
  have fields: "meta_key (intent_monitor demo_meta demo_split) (''ns'', ''a'') = ''ns/a''"
    "obsolete (intent_monitor demo_meta demo_split) = obsolete_intent" by (simp_all add: intent_monitor_def demo_key)
  have run: "mreach (intent_monitor demo_meta demo_split) False ?s" "mreach (intent_monitor demo_meta demo_split) False ?t"
    using intents.overtaken_run [OF n, of sample_intent] intents.lost_run [OF n, of sample_intent] by (simp_all add: fields)
  have e: "handle_intent ?e mmake = Inr (Some [(''ns/a'', ?e)])" "handle_intent (obsolete_intent ''ns/a'') mmake = Inr mmake"
    "?e \<noteq> obsolete_intent ''ns/a''"
    by (simp_all add: handle_intent_def intent_message_def sample_intent_def obsolete_intent_def float_consts mmake_def mdelete_def
        zero_Intent_def)
  show ?thesis
    by (intro exI [of _ ?s] exI [of _ ?t] exI [of _ "Some [(''ns/a'', ?e)]"])
      (use run e in \<open>simp add: intents.only_sent_settled; simp add: intents.only_sent_def\<close>)
qed

end
