(* ===== verification/Deep_Copies.thy ===== *)
theory Deep_Copies
  imports Custom_Monitors
begin

text \<open>
  The deep copies of \<^verbatim>\<open>pkg/common/types.go\<close> (states) and
  \<^verbatim>\<open>pkg/api/intents/v1alpha1/zz_generated.deepcopy.go\<close> (custom resources) on an explicit
  store, where a map and the array behind a slice are objects that several references can point to.  The other
  theories treat states and objects as values; the refinement proved here is what allows it: the copy has the
  value the value model gives it, and whatever is written through the one is not seen through the other.
\<close>

section \<open>The store\<close>

type_synonym addr = nat

record object_meta =
  \<comment> \<open>the metadata the program reads\<close>
  om_Namespace :: string
  om_Name :: string
  om_ResourceVersion :: string

record slice =
  s_array :: "addr option"      \<comment> \<open>nil: None\<close>
  s_off :: nat
  s_len :: nat

record intent_ref =
  i_meta :: object_meta
  i_TargetRef :: TargetRef
  i_Priority :: float64
  i_ActivelyManaged :: bool
  i_Objectives :: slice

record profile_ref =
  p_meta :: object_meta
  p_Query :: string
  p_Description :: string
  p_Minimize :: bool
  p_KPIType :: string
  p_Props :: "addr option"
  p_Status :: KPIProfileStatus

datatype cell =
    Floats "(string \<times> float64) list"            \<comment> \<open>a map of numbers\<close>
  | Pods "(string \<times> PodState) list"
  | Ints "(string \<times> int64) list"
  | Texts "(string \<times> string) list"
  | Refs "(string \<times> addr option) list"           \<comment> \<open>a map of maps of numbers\<close>
  | Targets "TargetObjective list"                \<comment> \<open>an array\<close>
  | IntentCell intent_ref
  | ProfileCell profile_ref

record store =
  cells :: "addr \<Rightarrow> cell option"
  next_addr :: addr                              \<comment> \<open>nothing is allocated from here on\<close>

definition alloc :: "cell \<Rightarrow> store \<Rightarrow> addr \<times> store" where
  "alloc c st = (next_addr st, st\<lparr>cells := (cells st)(next_addr st \<mapsto> c), next_addr := Suc (next_addr st)\<rparr>)"

definition update_cell :: "addr \<Rightarrow> (cell \<Rightarrow> cell) \<Rightarrow> store \<Rightarrow> store" where
  "update_cell a f st = st\<lparr>cells := (cells st)(a := map_option f (cells st a))\<rparr>"

fun floats_of :: "cell option \<Rightarrow> (string \<times> float64) list" where
  "floats_of (Some (Floats xs)) = xs" | "floats_of c = []"
fun pods_of :: "cell option \<Rightarrow> (string \<times> PodState) list" where
  "pods_of (Some (Pods xs)) = xs" | "pods_of c = []"
fun ints_of :: "cell option \<Rightarrow> (string \<times> int64) list" where
  "ints_of (Some (Ints xs)) = xs" | "ints_of c = []"
fun texts_of :: "cell option \<Rightarrow> (string \<times> string) list" where
  "texts_of (Some (Texts xs)) = xs" | "texts_of c = []"
fun refs_of :: "cell option \<Rightarrow> (string \<times> addr option) list" where
  "refs_of (Some (Refs xs)) = xs" | "refs_of c = []"
fun targets_of :: "cell option \<Rightarrow> TargetObjective list" where
  "targets_of (Some (Targets xs)) = xs" | "targets_of c = []"

definition view :: "(cell option \<Rightarrow> 'a list) \<Rightarrow> store \<Rightarrow> addr option \<Rightarrow> 'a list option" where
  \<comment> \<open>what a reference shows; nil is None\<close>
  "view sel st r = map_option (\<lambda>a. sel (cells st a)) r"

fun put_float :: "string \<Rightarrow> float64 \<Rightarrow> cell \<Rightarrow> cell" where
  "put_float k v (Floats xs) = Floats (AList.update k v xs)" | "put_float k v c = c"
fun put_pod :: "string \<Rightarrow> PodState \<Rightarrow> cell \<Rightarrow> cell" where
  "put_pod k v (Pods xs) = Pods (AList.update k v xs)" | "put_pod k v c = c"
fun put_int :: "string \<Rightarrow> int64 \<Rightarrow> cell \<Rightarrow> cell" where
  "put_int k v (Ints xs) = Ints (AList.update k v xs)" | "put_int k v c = c"
fun put_text :: "string \<Rightarrow> string \<Rightarrow> cell \<Rightarrow> cell" where
  "put_text k v (Texts xs) = Texts (AList.update k v xs)" | "put_text k v c = c"
fun put_ref :: "string \<Rightarrow> addr option \<Rightarrow> cell \<Rightarrow> cell" where
  "put_ref k v (Refs xs) = Refs (AList.update k v xs)" | "put_ref k v c = c"

definition fill :: "(string \<Rightarrow> 'v \<Rightarrow> cell \<Rightarrow> cell) \<Rightarrow> addr \<Rightarrow> (string \<times> 'v) list \<Rightarrow> store \<Rightarrow> store" where
  \<comment> \<open>\<open>for k, v := range ... { m[k] = v }\<close>\<close>
  "fill put a kvs = fold (\<lambda>(k, v). update_cell a (put k v)) kvs"

section \<open>States\<close>

record state_ref =
  r_Key :: string
  r_Priority :: float64
  r_TargetKey :: string
  r_TargetKind :: string
  r_ActivelyManaged :: bool
  r_Objectives :: "addr option"
  r_Tolerations :: "addr option"
  r_CurrentPods :: "addr option"
  r_CurrentData :: "addr option"
  r_Resources :: "addr option"
  r_Annotations :: "addr option"

definition state_at :: "store \<Rightarrow> state_ref \<Rightarrow> State" where
  \<comment> \<open>the value of a state in a store\<close>
  "state_at st r =
     \<lparr>IntentOf =
        \<lparr>IntentKey = r_Key r, Priority = r_Priority r, TargetKey = r_TargetKey r, TargetKind = r_TargetKind r,
         ActivelyManaged = r_ActivelyManaged r, Objectives = view floats_of st (r_Objectives r),
         Tolerations = view floats_of st (r_Tolerations r)\<rparr>,
      CurrentPods = view pods_of st (r_CurrentPods r),
      CurrentData = map_option (map (\<lambda>(k, m). (k, view floats_of st m))) (view refs_of st (r_CurrentData r)),
      Resources = view ints_of st (r_Resources r),
      Annotations = view texts_of st (r_Annotations r)\<rparr>"

definition copy_data :: "addr \<Rightarrow> string \<times> addr option \<Rightarrow> store \<Rightarrow> store" where
  \<comment> \<open>the body of the loop over \<open>CurrentData\<close>\<close>
  "copy_data d = (\<lambda>(k, m) st.
     let (subMap, st) = alloc (Floats []) st;
         st = fill put_float subMap (entries (view floats_of st m)) st
     in update_cell d (put_ref k (Some subMap)) st)"

definition DeepCopy_at :: "state_ref \<Rightarrow> store \<Rightarrow> state_ref \<times> store" where
  "DeepCopy_at one st =
     (let (obj, st) = alloc (Floats []) st;
          st = fill put_float obj (entries (view floats_of st (r_Objectives one))) st;
          (_, st) = alloc (Pods []) st;
          (d, st) = alloc (Refs []) st;
          (rs, st) = alloc (Ints []) st;
          (an, st) = alloc (Texts []) st;
          (pods, st) = alloc (Pods []) st;
          st = fill put_pod pods (entries (view pods_of st (r_CurrentPods one))) st;
          (res, st) = (case r_Resources one of None \<Rightarrow> (None, st)
            | Some _ \<Rightarrow> (Some rs, fill put_int rs (entries (view ints_of st (r_Resources one))) st));
          (ann, st) = (case r_Annotations one of None \<Rightarrow> (None, st)
            | Some _ \<Rightarrow> (Some an, fill put_text an (entries (view texts_of st (r_Annotations one))) st));
          st = fold (copy_data d) (entries (view refs_of st (r_CurrentData one))) st
      in (\<lparr>r_Key = r_Key one, r_Priority = r_Priority one, r_TargetKey = r_TargetKey one,
           r_TargetKind = r_TargetKind one, r_ActivelyManaged = False, r_Objectives = Some obj, r_Tolerations = None,
           r_CurrentPods = Some pods, r_CurrentData = Some d, r_Resources = res, r_Annotations = ann\<rparr>, st))"

section \<open>What a copy is\<close>

definition footprint :: "store \<Rightarrow> state_ref \<Rightarrow> addr set" where
  \<comment> \<open>the objects a state consists of\<close>
  "footprint st r =
     set_option (r_Objectives r) \<union> set_option (r_Tolerations r) \<union> set_option (r_CurrentPods r) \<union>
     set_option (r_CurrentData r) \<union> set_option (r_Resources r) \<union> set_option (r_Annotations r) \<union>
     (\<Union>(k, m) \<in> set (entries (view refs_of st (r_CurrentData r))). set_option m)"

definition keys_once :: "('k \<times> 'v) list option \<Rightarrow> bool" where
  "keys_once m \<longleftrightarrow> distinct (map fst (entries m))"

definition placed :: "store \<Rightarrow> state_ref \<Rightarrow> bool" where
  \<comment> \<open>the objects of the state are allocated, and its maps have each key once\<close>
  "placed st r \<longleftrightarrow>
     footprint st r \<subseteq> {..<next_addr st} \<and>
     keys_once (view floats_of st (r_Objectives r)) \<and> keys_once (view pods_of st (r_CurrentPods r)) \<and>
     keys_once (view refs_of st (r_CurrentData r)) \<and> keys_once (view ints_of st (r_Resources r)) \<and>
     keys_once (view texts_of st (r_Annotations r)) \<and>
     (\<forall>(k, m) \<in> set (entries (view refs_of st (r_CurrentData r))). keys_once (view floats_of st m))"

definition assign :: "(addr \<times> cell option) list \<Rightarrow> store \<Rightarrow> store" where
  \<comment> \<open>any writes to the objects at these addresses\<close>
  "assign ws st = fold (\<lambda>(a, c) st. st\<lparr>cells := (cells st)(a := c)\<rparr>) ws st"

lemma view_simps [simp]: "view sel st None = None" "view sel st (Some a) = Some (sel (cells st a))"
  by (simp_all add: view_def)

lemma view_cong: "(\<And>a. r = Some a \<Longrightarrow> cells st' a = cells st a) \<Longrightarrow> view sel st' r = view sel st r"
  by (cases r) auto

lemma fill_fields [simp]:
  "next_addr (fill put a kvs st) = next_addr st"
  "cells (fill put a kvs st) = (cells st)(a := map_option (fold (\<lambda>(k, v). put k v) kvs) (cells st a))"
  by (induction kvs arbitrary: st) (auto simp: fill_def update_cell_def fun_eq_iff option.map_comp o_def option.map_id)

lemma filled:
  "distinct (map fst kvs) \<Longrightarrow> fold (\<lambda>(k, v). put_float k v) kvs (Floats []) = Floats kvs"
  "distinct (map fst pvs) \<Longrightarrow> fold (\<lambda>(k, v). put_pod k v) pvs (Pods []) = Pods pvs"
  "distinct (map fst ivs) \<Longrightarrow> fold (\<lambda>(k, v). put_int k v) ivs (Ints []) = Ints ivs"
  "distinct (map fst tvs) \<Longrightarrow> fold (\<lambda>(k, v). put_text k v) tvs (Texts []) = Texts tvs"
proof -
  have "fold (\<lambda>(k, v). put_float k v) kvs (Floats xs) = Floats (fold (\<lambda>(k, v). AList.update k v) kvs xs)" for kvs xs
    by (induction kvs arbitrary: xs) auto
  then show "distinct (map fst kvs) \<Longrightarrow> fold (\<lambda>(k, v). put_float k v) kvs (Floats []) = Floats kvs"
    by (simp add: fold_update [of "[]"])
  have "fold (\<lambda>(k, v). put_pod k v) kvs (Pods xs) = Pods (fold (\<lambda>(k, v). AList.update k v) kvs xs)" for kvs xs
    by (induction kvs arbitrary: xs) auto
  then show "distinct (map fst pvs) \<Longrightarrow> fold (\<lambda>(k, v). put_pod k v) pvs (Pods []) = Pods pvs"
    by (simp add: fold_update [of "[]"])
  have "fold (\<lambda>(k, v). put_int k v) kvs (Ints xs) = Ints (fold (\<lambda>(k, v). AList.update k v) kvs xs)" for kvs xs
    by (induction kvs arbitrary: xs) auto
  then show "distinct (map fst ivs) \<Longrightarrow> fold (\<lambda>(k, v). put_int k v) ivs (Ints []) = Ints ivs"
    by (simp add: fold_update [of "[]"])
  have "fold (\<lambda>(k, v). put_text k v) kvs (Texts xs) = Texts (fold (\<lambda>(k, v). AList.update k v) kvs xs)" for kvs xs
    by (induction kvs arbitrary: xs) auto
  then show "distinct (map fst tvs) \<Longrightarrow> fold (\<lambda>(k, v). put_text k v) tvs (Texts []) = Texts tvs"
    by (simp add: fold_update [of "[]"])
qed

lemma assign_off: "a \<notin> fst ` set ws \<Longrightarrow> cells (assign ws st) a = cells st a"
  by (induction ws arbitrary: st) (auto simp: assign_def)

lemma state_at_cong:
  assumes "\<forall>a \<in> footprint st r. cells st' a = cells st a"
  shows "state_at st' r = state_at st r" "footprint st' r = footprint st r"
proof -
  have views: "view sel st' x = view sel st x"
    if "x \<in> {r_Objectives r, r_Tolerations r, r_CurrentPods r, r_CurrentData r, r_Resources r, r_Annotations r}" for sel x
    using assms that by (intro view_cong) (auto simp: footprint_def)
  have inner: "view floats_of st' m = view floats_of st m"
    if "(k, m) \<in> set (entries (view refs_of st (r_CurrentData r)))" for k m
    using assms that by (intro view_cong) (force simp: footprint_def)
  show "footprint st' r = footprint st r" by (simp add: footprint_def views)
  show "state_at st' r = state_at st r"
    using inner by (cases "view refs_of st (r_CurrentData r)") (auto simp: state_at_def views)
qed

definition copied :: "store \<Rightarrow> store \<Rightarrow> addr \<Rightarrow> string \<times> addr option \<Rightarrow> string \<times> addr option \<Rightarrow> bool" where
  \<comment> \<open>the second entry refers to a new map with the contents of the first's\<close>
  "copied st st' n x y \<longleftrightarrow> fst y = fst x \<and> (\<exists>a. snd y = Some a \<and> n \<le> a \<and>
     cells st' a = Some (Floats (entries (view floats_of st (snd x)))))"

lemma copy_loop:
  assumes "cells st d = Some (Refs xs)" and "n \<le> d" and "d < next_addr st" and "distinct (map fst (xs @ kvs))"
    and "\<forall>(k, m) \<in> set kvs. set_option m \<subseteq> {..<n} \<and> keys_once (view floats_of st m)"
  shows "\<exists>ys. cells (fold (copy_data d) kvs st) d = Some (Refs (xs @ ys)) \<and>
    next_addr st \<le> next_addr (fold (copy_data d) kvs st) \<and>
    (\<forall>a. a < next_addr st \<and> a \<noteq> d \<longrightarrow> cells (fold (copy_data d) kvs st) a = cells st a) \<and>
    list_all2 (copied st (fold (copy_data d) kvs st) (next_addr st)) kvs ys"
  using assms
proof (induction kvs arbitrary: st xs)
  case Nil
  then show ?case by simp
next
  case (Cons kv kvs)
  obtain k m where kv: "kv = (k, m)" by (cases kv)
  let ?s = "next_addr st"
  define st3 where "st3 = copy_data d (k, m) st"
  have source: "view floats_of st' j = view floats_of st j"
    if "\<forall>a < n. cells st' a = cells st a" "set_option j \<subseteq> {..<n}" for st' j
    using that by (intro view_cong) auto
  have m: "set_option m \<subseteq> {..<n}" "keys_once (view floats_of st m)" using Cons.prems(5) kv by auto
  have one: "view floats_of (st\<lparr>cells := (cells st)(?s \<mapsto> Floats []), next_addr := Suc ?s\<rparr>) m = view floats_of st m"
    by (rule source [OF _ m(1)]) (use Cons.prems(2,3) in auto)
  have "k \<notin> fst ` set xs" using Cons.prems(4) kv by auto
  then have cells3: "cells st3 = (cells st)(?s \<mapsto> Floats (entries (view floats_of st m)), d \<mapsto> Refs (xs @ [(k, Some ?s)]))"
    and next3: "next_addr st3 = Suc ?s"
    using Cons.prems(1,3) m(2)
    by (simp_all add: st3_def copy_data_def alloc_def Let_def one update_cell_def filled keys_once_def update_new)
  have low: "\<forall>a < n. cells st3 a = cells st a" using cells3 Cons.prems(2,3) by auto
  have "\<exists>ys. cells (fold (copy_data d) kvs st3) d = Some (Refs ((xs @ [(k, Some ?s)]) @ ys)) \<and>
    next_addr st3 \<le> next_addr (fold (copy_data d) kvs st3) \<and>
    (\<forall>a. a < next_addr st3 \<and> a \<noteq> d \<longrightarrow> cells (fold (copy_data d) kvs st3) a = cells st3 a) \<and>
    list_all2 (copied st3 (fold (copy_data d) kvs st3) (next_addr st3)) kvs ys"
  proof (rule Cons.IH)
    show "\<forall>(k, m) \<in> set kvs. set_option m \<subseteq> {..<n} \<and> keys_once (view floats_of st3 m)"
      using Cons.prems(5) source [OF low] by auto
  qed (use Cons.prems kv cells3 next3 in auto)
  then obtain ys where ys: "cells (fold (copy_data d) kvs st3) d = Some (Refs ((xs @ [(k, Some ?s)]) @ ys))"
    "next_addr st3 \<le> next_addr (fold (copy_data d) kvs st3)"
    "\<forall>a. a < next_addr st3 \<and> a \<noteq> d \<longrightarrow> cells (fold (copy_data d) kvs st3) a = cells st3 a"
    "list_all2 (copied st3 (fold (copy_data d) kvs st3) (next_addr st3)) kvs ys"
    by blast
  have rest: "list_all2 (copied st (fold (copy_data d) kvs st3) ?s) kvs ys"
    using ys(4)
  proof (rule list.rel_mono_strong)
    fix x y
    assume x: "x \<in> set kvs" and c: "copied st3 (fold (copy_data d) kvs st3) (next_addr st3) x y"
    have "view floats_of st3 (snd x) = view floats_of st (snd x)"
      by (rule source [OF low]) (use Cons.prems(5) x in auto)
    with c show "copied st (fold (copy_data d) kvs st3) ?s x y"
      using next3 unfolding copied_def by auto
  qed
  have new: "cells (fold (copy_data d) kvs st3) ?s = Some (Floats (entries (view floats_of st m)))"
    using ys(3) next3 cells3 Cons.prems(3) by simp
  have "fold (copy_data d) (kv # kvs) st = fold (copy_data d) kvs st3" by (simp add: kv st3_def)
  moreover from new have "copied st (fold (copy_data d) kvs st3) ?s (k, m) (k, Some ?s)" by (simp add: copied_def)
  ultimately show ?case
    using ys(1-3) rest next3 cells3 by (intro exI [of _ "(k, Some ?s) # ys"]) (simp add: kv)
qed

lemma alloc_fields [simp]:
  "fst (alloc c st) = next_addr st" "next_addr (snd (alloc c st)) = Suc (next_addr st)"
  "cells (snd (alloc c st)) = (cells st)(next_addr st \<mapsto> c)"
  by (simp_all add: alloc_def)

lemma view_low: "\<forall>a < n. cells s a = cells st a \<Longrightarrow> set_option r \<subseteq> {..<n} \<Longrightarrow> view sel s r = view sel st r"
  by (intro view_cong) auto

lemma before_loop:
  \<comment> \<open>the copy is made of the objects made before the loop over the data, and of the submaps made there\<close>
  assumes "placed st one"
  defines "n \<equiv> next_addr st"
  obtains s where "\<forall>a < n. cells s a = cells st a" "next_addr s = n + 6"
    "cells s n = Some (Floats (entries (view floats_of st (r_Objectives one))))"
    "cells s (n + 2) = Some (Refs [])"
    "cells s (n + 3) = Some (Ints (entries (view ints_of st (r_Resources one))))"
    "cells s (n + 4) = Some (Texts (entries (view texts_of st (r_Annotations one))))"
    "cells s (n + 5) = Some (Pods (entries (view pods_of st (r_CurrentPods one))))"
    "DeepCopy_at one st =
       (\<lparr>r_Key = r_Key one, r_Priority = r_Priority one, r_TargetKey = r_TargetKey one,
         r_TargetKind = r_TargetKind one, r_ActivelyManaged = False, r_Objectives = Some n, r_Tolerations = None,
         r_CurrentPods = Some (n + 5), r_CurrentData = Some (n + 2),
         r_Resources = map_option (\<lambda>_. n + 3) (r_Resources one),
         r_Annotations = map_option (\<lambda>_. n + 4) (r_Annotations one)\<rparr>,
        fold (copy_data (n + 2)) (entries (view refs_of st (r_CurrentData one))) s)"
proof -
  define s1 where "s1 = snd (alloc (Floats []) st)"
  define s2 where "s2 = fill put_float n (entries (view floats_of s1 (r_Objectives one))) s1"
  define s3 where "s3 = snd (alloc (Pods []) s2)"
  define s4 where "s4 = snd (alloc (Refs []) s3)"
  define s5 where "s5 = snd (alloc (Ints []) s4)"
  define s6 where "s6 = snd (alloc (Texts []) s5)"
  define s7 where "s7 = snd (alloc (Pods []) s6)"
  define s8 where "s8 = fill put_pod (n + 5) (entries (view pods_of s7 (r_CurrentPods one))) s7"
  define s9 where "s9 = (case r_Resources one of None \<Rightarrow> s8
    | Some _ \<Rightarrow> fill put_int (n + 3) (entries (view ints_of s8 (r_Resources one))) s8)"
  define s10 where "s10 = (case r_Annotations one of None \<Rightarrow> s9
    | Some _ \<Rightarrow> fill put_text (n + 4) (entries (view texts_of s9 (r_Annotations one))) s9)"
  note stages = s1_def s2_def s3_def s4_def s5_def s6_def s7_def s8_def s9_def s10_def
  have low: "set_option (r_Objectives one) \<subseteq> {..<n}" "set_option (r_CurrentPods one) \<subseteq> {..<n}"
    "set_option (r_CurrentData one) \<subseteq> {..<n}" "set_option (r_Resources one) \<subseteq> {..<n}"
    "set_option (r_Annotations one) \<subseteq> {..<n}"
    using assms(1) by (auto simp: placed_def footprint_def n_def)
  have once: "keys_once (view floats_of st (r_Objectives one))" "keys_once (view pods_of st (r_CurrentPods one))"
    "keys_once (view ints_of st (r_Resources one))" "keys_once (view texts_of st (r_Annotations one))"
    using assms(1) by (simp_all add: placed_def)
  have "next_addr s1 = n + 1" "next_addr s2 = n + 1" "next_addr s3 = n + 2" "next_addr s4 = n + 3"
    "next_addr s5 = n + 4" "next_addr s6 = n + 5" "next_addr s7 = n + 6" "next_addr s8 = n + 6"
    "next_addr s9 = n + 6" "next_addr s10 = n + 6"
    by (simp_all add: stages n_def split: option.split)
  note nexts = this
  have v2: "view floats_of s1 (r_Objectives one) = view floats_of st (r_Objectives one)"
    by (rule view_low [OF _ low(1)]) (simp add: s1_def n_def)
  have c2: "cells s2 = (cells st)(n \<mapsto> Floats (entries (view floats_of st (r_Objectives one))))"
    unfolding s2_def v2 using once(1) by (simp add: s1_def n_def filled keys_once_def)
  have c7: "cells s7 = (cells s2)(n + 1 \<mapsto> Pods [], n + 2 \<mapsto> Refs [], n + 3 \<mapsto> Ints [], n + 4 \<mapsto> Texts [], n + 5 \<mapsto> Pods [])"
    using nexts by (simp add: s3_def s4_def s5_def s6_def s7_def eval_nat_numeral)
  have v8: "view pods_of s7 (r_CurrentPods one) = view pods_of st (r_CurrentPods one)"
    by (rule view_low [OF _ low(2)]) (simp add: c7 c2)
  have c8: "cells s8 = (cells s7)(n + 5 \<mapsto> Pods (entries (view pods_of st (r_CurrentPods one))))"
    unfolding s8_def v8 using once(2) by (simp add: c7 filled keys_once_def)
  have v9: "view ints_of s8 (r_Resources one) = view ints_of st (r_Resources one)"
    by (rule view_low [OF _ low(4)]) (simp add: c8 c7 c2)
  have c9: "cells s9 = (cells s8)(n + 3 \<mapsto> Ints (entries (view ints_of st (r_Resources one))))"
    unfolding s9_def v9 using once(3) by (cases "r_Resources one") (auto simp: c8 c7 filled keys_once_def fun_eq_iff)
  have v10: "view texts_of s9 (r_Annotations one) = view texts_of st (r_Annotations one)"
    by (rule view_low [OF _ low(5)]) (simp add: c9 c8 c7 c2)
  have c10: "cells s10 = (cells s9)(n + 4 \<mapsto> Texts (entries (view texts_of st (r_Annotations one))))"
    unfolding s10_def v10 using once(4) by (cases "r_Annotations one") (auto simp: c9 c8 c7 filled keys_once_def fun_eq_iff)
  have v11: "view refs_of s10 (r_CurrentData one) = view refs_of st (r_CurrentData one)"
    by (rule view_low [OF _ low(3)]) (simp add: c10 c9 c8 c7 c2)
  have addrs: "alloc (Floats []) st = (n, s1)" "alloc (Pods []) s2 = (n + 1, s3)" "alloc (Refs []) s3 = (n + 2, s4)"
    "alloc (Ints []) s4 = (n + 3, s5)" "alloc (Texts []) s5 = (n + 4, s6)" "alloc (Pods []) s6 = (n + 5, s7)"
    using nexts by (simp_all add: alloc_def s1_def s3_def s4_def s5_def s6_def s7_def n_def)
  have "DeepCopy_at one st =
       (\<lparr>r_Key = r_Key one, r_Priority = r_Priority one, r_TargetKey = r_TargetKey one,
         r_TargetKind = r_TargetKind one, r_ActivelyManaged = False, r_Objectives = Some n, r_Tolerations = None,
         r_CurrentPods = Some (n + 5), r_CurrentData = Some (n + 2),
         r_Resources = map_option (\<lambda>_. n + 3) (r_Resources one),
         r_Annotations = map_option (\<lambda>_. n + 4) (r_Annotations one)\<rparr>,
        fold (copy_data (n + 2)) (entries (view refs_of st (r_CurrentData one))) s10)"
    unfolding DeepCopy_at_def Let_def addrs prod.case s2_def [symmetric] s8_def [symmetric] v11 [symmetric]
    by (cases "r_Resources one"; cases "r_Annotations one") (simp_all add: s9_def s10_def)
  with c10 c9 c8 c7 c2 nexts(10) show thesis by (intro that [of s10]) simp_all
qed

lemma deep_copy_parts:
  assumes "placed st one" and "DeepCopy_at one st = (c, st')"
  shows "\<forall>a < next_addr st. cells st' a = cells st a" "state_at st' c = DeepCopy (state_at st one)"
    "footprint st' c \<subseteq> {next_addr st..}"
proof -
  let ?n = "next_addr st" and ?data = "entries (view refs_of st (r_CurrentData one))"
  obtain s where s: "\<forall>a < ?n. cells s a = cells st a" "next_addr s = ?n + 6"
    "cells s ?n = Some (Floats (entries (view floats_of st (r_Objectives one))))"
    "cells s (?n + 2) = Some (Refs [])"
    "cells s (?n + 3) = Some (Ints (entries (view ints_of st (r_Resources one))))"
    "cells s (?n + 4) = Some (Texts (entries (view texts_of st (r_Annotations one))))"
    "cells s (?n + 5) = Some (Pods (entries (view pods_of st (r_CurrentPods one))))"
    and eq: "DeepCopy_at one st =
       (\<lparr>r_Key = r_Key one, r_Priority = r_Priority one, r_TargetKey = r_TargetKey one,
         r_TargetKind = r_TargetKind one, r_ActivelyManaged = False, r_Objectives = Some ?n, r_Tolerations = None,
         r_CurrentPods = Some (?n + 5), r_CurrentData = Some (?n + 2),
         r_Resources = map_option (\<lambda>_. ?n + 3) (r_Resources one),
         r_Annotations = map_option (\<lambda>_. ?n + 4) (r_Annotations one)\<rparr>,
        fold (copy_data (?n + 2)) ?data s)"
    by (rule before_loop [OF assms(1)])
  have st': "st' = fold (copy_data (?n + 2)) ?data s" using eq assms(2) by simp
  have inner: "set_option m \<subseteq> {..<?n}" "keys_once (view floats_of s m)" if km: "(k, m) \<in> set ?data" for k m
  proof -
    show low: "set_option m \<subseteq> {..<?n}" using assms(1) km by (fastforce simp: placed_def footprint_def)
    have "keys_once (view floats_of st m)" using assms(1) km by (fastforce simp: placed_def)
    with view_low [where sel = floats_of, OF s(1) low] show "keys_once (view floats_of s m)" by simp
  qed
  have "\<exists>ys. cells st' (?n + 2) = Some (Refs ([] @ ys)) \<and> next_addr s \<le> next_addr st' \<and>
    (\<forall>a. a < next_addr s \<and> a \<noteq> ?n + 2 \<longrightarrow> cells st' a = cells s a) \<and>
    list_all2 (copied s st' (next_addr s)) ?data ys"
    unfolding st'
  proof (rule copy_loop [where n = ?n])
    show "distinct (map fst ([] @ ?data))" using assms(1) by (simp add: placed_def keys_once_def)
  qed (use s inner in auto)
  then obtain ys where ys: "cells st' (?n + 2) = Some (Refs ys)"
    "\<forall>a. a < ?n + 6 \<and> a \<noteq> ?n + 2 \<longrightarrow> cells st' a = cells s a"
    "list_all2 (copied s st' (?n + 6)) ?data ys"
    using s(2) by auto
  show "\<forall>a < ?n. cells st' a = cells st a" using ys(2) s(1) by simp
  have at: "cells st' ?n = cells s ?n" "cells st' (?n + 3) = cells s (?n + 3)" "cells st' (?n + 4) = cells s (?n + 4)"
    "cells st' (?n + 5) = cells s (?n + 5)" using ys(2) by simp_all
  have pair: "(case y of (k, r) \<Rightarrow> (k, view floats_of st' r)) = (case x of (k, m) \<Rightarrow> (k, copy_map (view floats_of st m)))"
    "set_option (snd y) \<subseteq> {?n..}" if "copied s st' (?n + 6) x y" "x \<in> set ?data" for x y
  proof -
    have "view floats_of s (snd x) = view floats_of st (snd x)"
      using inner(1) [of "fst x" "snd x"] that(2) by (intro view_low [OF s(1)]) simp
    with that(1) show "(case y of (k, r) \<Rightarrow> (k, view floats_of st' r)) = (case x of (k, m) \<Rightarrow> (k, copy_map (view floats_of st m)))"
      by (auto simp: copied_def copy_map_def split: prod.split)
    show "set_option (snd y) \<subseteq> {?n..}" using that(1) by (auto simp: copied_def)
  qed
  have data: "map (\<lambda>(k, r). (k, view floats_of st' r)) ys = map (\<lambda>(k, m). (k, copy_map (view floats_of st m))) ?data"
    using ys(3) pair(1) by (intro nth_equalityI) (auto simp: list_all2_conv_all_nth)
  have c: "c = fst (DeepCopy_at one st)" using assms(2) by simp
  show "state_at st' c = DeepCopy (state_at st one)"
    unfolding c eq using at s data ys(1)
    by (cases "view refs_of st (r_CurrentData one)"; cases "r_Resources one"; cases "r_Annotations one")
      (auto simp: state_at_def DeepCopy_def copy_map_def split_beta o_def)
  have "\<forall>y \<in> set ys. set_option (snd y) \<subseteq> {?n..}"
    using ys(3) pair(2) unfolding list_all2_conv_all_nth by (metis in_set_conv_nth nth_mem)
  then show "footprint st' c \<subseteq> {?n..}"
    unfolding c eq using ys(1) by (cases "r_Resources one"; cases "r_Annotations one") (auto simp: footprint_def)
qed

text \<open>
  C13. A deep copy of a state is a copy: it has the value the value model gives it, the state it was made from
  keeps its value, and from then on no writes to the maps of the one are seen through the other.
\<close>
theorem DeepCopy_refines:
  assumes "placed st one" and "DeepCopy_at one st = (c, st')"
  shows "state_at st' c = DeepCopy (state_at st one) \<and> state_at st' one = state_at st one \<and>
    (\<forall>ws. fst ` set ws \<subseteq> footprint st' c \<longrightarrow> state_at (assign ws st') one = state_at st one) \<and>
    (\<forall>ws. fst ` set ws \<subseteq> footprint st' one \<longrightarrow> state_at (assign ws st') c = DeepCopy (state_at st one))"
proof -
  note parts = deep_copy_parts [OF assms]
  have low: "footprint st one \<subseteq> {..<next_addr st}" using assms(1) by (simp add: placed_def)
  then have same: "state_at st' one = state_at st one" "footprint st' one = footprint st one"
    using state_at_cong [of st one st'] parts(1) by auto
  have apart: "footprint st' c \<inter> footprint st' one = {}" using low parts(3) same(2) by fastforce
  have "state_at (assign ws st') one = state_at st one" if "fst ` set ws \<subseteq> footprint st' c" for ws
    using state_at_cong(1) [of st' one "assign ws st'"] assign_off [of _ ws st'] that apart same(1) by fastforce
  moreover have "state_at (assign ws st') c = DeepCopy (state_at st one)" if "fst ` set ws \<subseteq> footprint st' one" for ws
    using state_at_cong(1) [of st' c "assign ws st'"] assign_off [of _ ws st'] that apart parts(2) by fastforce
  ultimately show ?thesis using parts(2) same(1) by blast
qed

definition two_floats :: store where
  "two_floats = \<lparr>cells = [0 \<mapsto> Floats [(''p99'', 20)], 1 \<mapsto> Refs [(''cpu'', Some 2)], 2 \<mapsto> Floats [(''node-a'', 1)]],
     next_addr = 3\<rparr>"

definition two_floats_ref :: state_ref where
  "two_floats_ref = \<lparr>r_Key = ''ns/intent'', r_Priority = 1, r_TargetKey = ''ns/app'', r_TargetKind = ''Deployment'',
     r_ActivelyManaged = True, r_Objectives = Some 0, r_Tolerations = None, r_CurrentPods = None,
     r_CurrentData = Some 1, r_Resources = None, r_Annotations = None\<rparr>"

theorem DeepCopy_refines_witness:
  "\<exists>c st'. DeepCopy_at two_floats_ref two_floats = (c, st') \<and>
     CurrentData (state_at (assign [(2, Some (Floats []))] st') two_floats_ref) = Some [(''cpu'', Some [])] \<and>
     CurrentData (state_at (assign [(2, Some (Floats []))] st') c) = Some [(''cpu'', Some [(''node-a'', 1)])]"
proof -
  obtain c st' where c: "DeepCopy_at two_floats_ref two_floats = (c, st')" by (cases "DeepCopy_at two_floats_ref two_floats")
  have foot: "footprint two_floats two_floats_ref = {0, 1, 2}"
    by (auto simp: footprint_def two_floats_def two_floats_ref_def)
  have placed: "placed two_floats two_floats_ref"
    unfolding placed_def foot by (auto simp: two_floats_def two_floats_ref_def keys_once_def)
  have "\<forall>a < 3. cells st' a = cells two_floats a" using deep_copy_parts(1) [OF placed c] by (simp add: two_floats_def)
  then have cells: "cells st' 1 = Some (Refs [(''cpu'', Some 2)])" "cells st' 2 = Some (Floats [(''node-a'', 1)])"
    "footprint st' two_floats_ref = {0, 1, 2}"
    using state_at_cong(2) [of two_floats two_floats_ref st'] foot by (simp_all add: two_floats_def)
  then have "state_at (assign [(2, Some (Floats []))] st') c = DeepCopy (state_at two_floats two_floats_ref)"
    using DeepCopy_refines [OF placed c] by simp
  moreover have "CurrentData (DeepCopy (state_at two_floats two_floats_ref)) = Some [(''cpu'', Some [(''node-a'', 1)])]"
    by (simp add: DeepCopy_def state_at_def two_floats_def two_floats_ref_def copy_map_def)
  ultimately show ?thesis
    using c cells by (intro exI [of _ c] exI [of _ st']) (simp add: state_at_def two_floats_ref_def assign_def)
qed

section \<open>Custom resources\<close>

fun intent_of_cell :: "cell option \<Rightarrow> intent_ref list" where
  "intent_of_cell (Some (IntentCell i)) = [i]" | "intent_of_cell c = []"
fun profile_of_cell :: "cell option \<Rightarrow> profile_ref list" where
  "profile_of_cell (Some (ProfileCell p)) = [p]" | "profile_of_cell c = []"
fun on_intent :: "(intent_ref \<Rightarrow> intent_ref) \<Rightarrow> cell \<Rightarrow> cell" where
  "on_intent f (IntentCell i) = IntentCell (f i)" | "on_intent f c = c"
fun on_profile :: "(profile_ref \<Rightarrow> profile_ref) \<Rightarrow> cell \<Rightarrow> cell" where
  "on_profile f (ProfileCell p) = ProfileCell (f p)" | "on_profile f c = c"
fun on_targets :: "(TargetObjective list \<Rightarrow> TargetObjective list) \<Rightarrow> cell \<Rightarrow> cell" where
  "on_targets f (Targets xs) = Targets (f xs)" | "on_targets f c = c"

definition zero_meta :: object_meta where
  "zero_meta = \<lparr>om_Namespace = '''', om_Name = '''', om_ResourceVersion = ''''\<rparr>"

definition zero_target :: TargetObjective where
  "zero_target = \<lparr>to_Name = '''', to_Value = 0, MeasuredBy = '''', Tolerance = 0\<rparr>"

definition zero_intent_ref :: intent_ref where
  "zero_intent_ref = \<lparr>i_meta = zero_meta, i_TargetRef = \<lparr>tr_Kind = '''', tr_Name = ''''\<rparr>, i_Priority = 0,
     i_ActivelyManaged = False, i_Objectives = \<lparr>s_array = None, s_off = 0, s_len = 0\<rparr>\<rparr>"

definition zero_profile_ref :: profile_ref where
  "zero_profile_ref = \<lparr>p_meta = zero_meta, p_Query = '''', p_Description = '''', p_Minimize = False, p_KPIType = '''',
     p_Props = None, p_Status = \<lparr>Resolved = False, Reason = ''''\<rparr>\<rparr>"

definition elements :: "store \<Rightarrow> slice \<Rightarrow> TargetObjective list" where
  "elements st s = take (s_len s) (drop (s_off s) (case view targets_of st (s_array s) of None \<Rightarrow> [] | Some xs \<Rightarrow> xs))"

definition copy_targets :: "addr \<Rightarrow> TargetObjective list \<Rightarrow> store \<Rightarrow> store" where
  \<comment> \<open>the builtin \<open>copy\<close> into an array\<close>
  "copy_targets a xs = update_cell a (on_targets (\<lambda>ys. take (length ys) xs @ drop (length xs) ys))"

definition IntentSpec_DeepCopyInto :: "intent_ref \<Rightarrow> addr \<Rightarrow> store \<Rightarrow> store" where
  \<comment> \<open>into the specification of the intent at an address\<close>
  "IntentSpec_DeepCopyInto i out st =
     (let st = update_cell out (on_intent (\<lambda>o'. o'\<lparr>i_TargetRef := i_TargetRef i, i_Priority := i_Priority i,
            i_ActivelyManaged := i_ActivelyManaged i, i_Objectives := i_Objectives i\<rparr>)) st
      in case s_array (i_Objectives i) of
           None \<Rightarrow> st
         | Some _ \<Rightarrow>
             let n = s_len (i_Objectives i); (a, st) = alloc (Targets (replicate n zero_target)) st;
                 st = update_cell out (on_intent (\<lambda>o'. o'\<lparr>i_Objectives := \<lparr>s_array = Some a, s_off = 0, s_len = n\<rparr>\<rparr>)) st
             in copy_targets a (elements st (i_Objectives i)) st)"

definition Intent_DeepCopyInto :: "intent_ref \<Rightarrow> addr \<Rightarrow> store \<Rightarrow> store" where
  "Intent_DeepCopyInto i out st =
     IntentSpec_DeepCopyInto i out (update_cell out (on_intent (\<lambda>_. i)) st)"

definition Intent_DeepCopy :: "addr option \<Rightarrow> store \<Rightarrow> addr option \<times> store" where
  "Intent_DeepCopy p st =
     (case p of
        None \<Rightarrow> (None, st)
      | Some a \<Rightarrow>
          (let (out, st') = alloc (IntentCell zero_intent_ref) st
           in (Some out, fold (\<lambda>i. Intent_DeepCopyInto i out) (intent_of_cell (cells st a)) st')))"

definition KPIProfileSpec_DeepCopyInto :: "profile_ref \<Rightarrow> addr \<Rightarrow> store \<Rightarrow> store" where
  "KPIProfileSpec_DeepCopyInto p out st =
     (let st = update_cell out (on_profile (\<lambda>o'. o'\<lparr>p_Query := p_Query p, p_Description := p_Description p,
            p_Minimize := p_Minimize p, p_KPIType := p_KPIType p, p_Props := p_Props p\<rparr>)) st
      in case p_Props p of
           None \<Rightarrow> st
         | Some _ \<Rightarrow>
             let (m, st) = alloc (Texts []) st; st = update_cell out (on_profile (\<lambda>o'. o'\<lparr>p_Props := Some m\<rparr>)) st
             in fill put_text m (entries (view texts_of st (p_Props p))) st)"

definition KPIProfile_DeepCopyInto :: "profile_ref \<Rightarrow> addr \<Rightarrow> store \<Rightarrow> store" where
  "KPIProfile_DeepCopyInto p out st =
     (let st = update_cell out (on_profile (\<lambda>_. p)) st; st = KPIProfileSpec_DeepCopyInto p out st
      in update_cell out (on_profile (\<lambda>o'. o'\<lparr>p_Status := p_Status p\<rparr>)) st)"

definition KPIProfile_DeepCopy :: "addr option \<Rightarrow> store \<Rightarrow> addr option \<times> store" where
  "KPIProfile_DeepCopy p st =
     (case p of
        None \<Rightarrow> (None, st)
      | Some a \<Rightarrow>
          (let (out, st') = alloc (ProfileCell zero_profile_ref) st
           in (Some out, fold (\<lambda>p. KPIProfile_DeepCopyInto p out) (profile_of_cell (cells st a)) st')))"

definition updateStatus_at :: "addr \<Rightarrow> bool \<Rightarrow> string \<Rightarrow> store \<Rightarrow> addr option \<times> store" where
  \<comment> \<open>the object handed to the client's \<open>UpdateStatus\<close>, and the store\<close>
  "updateStatus_at profile resolved reason st =
     (case KPIProfile_DeepCopy (Some profile) st of
        (None, st) \<Rightarrow> (None, st)
      | (Some c, st) \<Rightarrow>
          (let st = update_cell c (on_profile (\<lambda>p. p\<lparr>p_Status := (p_Status p)\<lparr>Resolved := resolved\<rparr>\<rparr>)) st;
               st = update_cell c (on_profile (\<lambda>p. p\<lparr>p_Status := (p_Status p)\<lparr>Reason := reason\<rparr>\<rparr>)) st
           in (Some c, st)))"

section \<open>Copies of custom resources\<close>

definition profile_at :: "store \<Rightarrow> profile_ref \<Rightarrow> KPIProfile" where
  "profile_at st p = \<lparr>kp_ResourceVersion = om_ResourceVersion (p_meta p), kp_Query = p_Query p, kp_Minimize = p_Minimize p,
     KPIType = p_KPIType p, Props = view texts_of st (p_Props p), Status = p_Status p\<rparr>"

definition intent_at :: "store \<Rightarrow> intent_ref \<Rightarrow> IntentObject" where
  "intent_at st i = \<lparr>in_ResourceVersion = om_ResourceVersion (i_meta i), in_TargetRef = i_TargetRef i,
     in_Priority = i_Priority i, in_ActivelyManaged = i_ActivelyManaged i, in_Objectives = elements st (i_Objectives i)\<rparr>"

lemma update_fields [simp]:
  "next_addr (update_cell a f st) = next_addr st"
  "cells (update_cell a f st) = (cells st)(a := map_option f (cells st a))"
  by (simp_all add: update_cell_def)

lemma alloc_pair: "alloc c st = (next_addr st, snd (alloc c st))"
  by (simp add: alloc_def)

definition profile_placed :: "store \<Rightarrow> profile_ref \<Rightarrow> bool" where
  "profile_placed st p \<longleftrightarrow> set_option (p_Props p) \<subseteq> {..<next_addr st} \<and> keys_once (view texts_of st (p_Props p))"

definition intent_placed :: "store \<Rightarrow> intent_ref \<Rightarrow> bool" where
  "intent_placed st i \<longleftrightarrow> set_option (s_array (i_Objectives i)) \<subseteq> {..<next_addr st} \<and>
     (s_array (i_Objectives i) = None \<longrightarrow> s_len (i_Objectives i) = 0) \<and>
     length (elements st (i_Objectives i)) = s_len (i_Objectives i)"

lemma profile_copy:
  assumes "cells st a = Some (ProfileCell p)" and "a < next_addr st" and "profile_placed st p"
  shows "\<exists>st'. KPIProfile_DeepCopy (Some a) st = (Some (next_addr st), st') \<and>
    (\<forall>b < next_addr st. cells st' b = cells st b) \<and> next_addr st < next_addr st' \<and>
    cells st' (next_addr st) = Some (ProfileCell (p\<lparr>p_Props := map_option (\<lambda>_. Suc (next_addr st)) (p_Props p)\<rparr>)) \<and>
    view texts_of st' (map_option (\<lambda>_. Suc (next_addr st)) (p_Props p)) = view texts_of st (p_Props p)"
proof (cases "p_Props p")
  case None
  then show ?thesis
    using assms by (auto simp: KPIProfile_DeepCopy_def KPIProfile_DeepCopyInto_def KPIProfileSpec_DeepCopyInto_def alloc_def)
next
  case (Some m)
  with assms(3) have m: "m < next_addr st" "distinct (map fst (texts_of (cells st m)))"
    by (simp_all add: profile_placed_def keys_once_def)
  then show ?thesis
    using assms Some
    by (auto simp: KPIProfile_DeepCopy_def KPIProfile_DeepCopyInto_def KPIProfileSpec_DeepCopyInto_def alloc_def filled Let_def)
qed

lemma intent_copy:
  assumes "cells st a = Some (IntentCell i)" and "a < next_addr st" and "intent_placed st i"
  shows "\<exists>st' j. Intent_DeepCopy (Some a) st = (Some (next_addr st), st') \<and>
    (\<forall>b < next_addr st. cells st' b = cells st b) \<and> next_addr st < next_addr st' \<and>
    cells st' (next_addr st) = Some (IntentCell j) \<and> intent_at st' j = intent_at st i \<and>
    set_option (s_array (i_Objectives j)) \<subseteq> {next_addr st..}"
proof (cases "s_array (i_Objectives i)")
  case None
  then show ?thesis
    using assms by (auto simp: Intent_DeepCopy_def Intent_DeepCopyInto_def IntentSpec_DeepCopyInto_def alloc_def intent_at_def elements_def)
next
  case (Some m)
  with assms(3) have m: "m < next_addr st" "length (elements st (i_Objectives i)) = s_len (i_Objectives i)"
    by (simp_all add: intent_placed_def)
  then show ?thesis
    using assms Some
    by (auto simp: Intent_DeepCopy_def Intent_DeepCopyInto_def IntentSpec_DeepCopyInto_def alloc_def intent_at_def elements_def
      copy_targets_def Let_def)
qed

text \<open>
  Setting the status of a profile writes to a copy: what is sent to the API server is the profile with the
  new status and nothing else changed, and the object that was passed, which belongs to the cache of the
  informer, and every other object keep their contents.
\<close>
theorem updateStatus_on_copy:
  assumes "cells st a = Some (ProfileCell p)" and "a < next_addr st" and "profile_placed st p"
  shows "\<exists>c st' q. updateStatus_at a resolved reason st = (Some c, st') \<and> cells st' c = Some (ProfileCell q) \<and>
    profile_at st' q = updateStatus (profile_at st p) resolved reason \<and> p_meta q = p_meta p \<and>
    p_Description q = p_Description p \<and> next_addr st \<le> c \<and>
    (\<forall>b < next_addr st. cells st' b = cells st b)"
proof -
  obtain st' where st': "KPIProfile_DeepCopy (Some a) st = (Some (next_addr st), st')"
    "\<forall>b < next_addr st. cells st' b = cells st b"
    "cells st' (next_addr st) = Some (ProfileCell (p\<lparr>p_Props := map_option (\<lambda>_. Suc (next_addr st)) (p_Props p)\<rparr>))"
    "view texts_of st' (map_option (\<lambda>_. Suc (next_addr st)) (p_Props p)) = view texts_of st (p_Props p)"
    using profile_copy [OF assms] by blast
  then show ?thesis
    by (cases "p_Props p") (auto simp: updateStatus_at_def profile_at_def updateStatus_def Let_def)
qed

end
