(* ===== verification/Informers.thy ===== *)
theory Informers
  imports Custom_Monitors
begin

text \<open>
  Where the monitors get their objects from: the factory of shared informers
  (\<^verbatim>\<open>pkg/generated/informers/externalversions/factory.go\<close>, \<^verbatim>\<open>generic.go\<close> and
  the typed informers below it), the listers (\<^verbatim>\<open>pkg/generated/listers\<close>), and the part of
  \<^verbatim>\<open>cmd/main.go\<close> that requests the informers, adds the handlers and starts the factory.  An informer
  itself is library code: here it is what it is made with, and the calls on it are recorded.
\<close>

section \<open>The factory\<close>

datatype object_type = IntentType | KPIProfileType | OtherType string   \<comment> \<open>the \<open>reflect.Type\<close> of an object\<close>

record ('c, 'w, 't) informer =
  \<comment> \<open>of the client, the functions that change the options of lists, and the transforms\<close>
  inf_object :: object_type
  inf_client :: 'c
  inf_namespace :: string
  inf_tweak :: "'w option"
  inf_resync :: int64
  inf_indexers :: "string list"
  inf_transform :: "'t option"

datatype 's call = AddEventHandler nat | Run nat 's | Ended nat
  \<comment> \<open>on the informer at a position of \<open>made\<close>; with the stop channel; the goroutine has returned\<close>

record ('c, 'w, 't, 's) shared_factory =
  f_client :: 'c
  f_namespace :: string
  f_tweak :: "'w option"
  f_defaultResync :: int64
  f_customResync :: "(object_type \<times> int64) list"
  f_transform :: "'t option"
  f_informers :: "(object_type \<times> nat) list"
  startedInformers :: "(object_type \<times> bool) list"
  wg :: nat
  shuttingDown :: bool
  made :: "('c, 'w, 't) informer list"     \<comment> \<open>a pointer to an informer is its position here\<close>
  calls :: "'s call list"

type_synonym ('c, 'w, 't, 's) factory_option = "('c, 'w, 't, 's) shared_factory \<Rightarrow> ('c, 'w, 't, 's) shared_factory"

definition WithCustomResyncConfig :: "(object_type \<times> int64) list \<Rightarrow> ('c, 'w, 't, 's) factory_option" where
  "WithCustomResyncConfig resyncConfig fac =
     fac\<lparr>f_customResync := fold (\<lambda>(k, v). AList.update k v) resyncConfig (f_customResync fac)\<rparr>"

definition WithTweakListOptions :: "'w option \<Rightarrow> ('c, 'w, 't, 's) factory_option" where
  "WithTweakListOptions tweak fac = fac\<lparr>f_tweak := tweak\<rparr>"

definition WithNamespace :: "string \<Rightarrow> ('c, 'w, 't, 's) factory_option" where
  "WithNamespace ns fac = fac\<lparr>f_namespace := ns\<rparr>"

definition WithTransform :: "'t option \<Rightarrow> ('c, 'w, 't, 's) factory_option" where
  "WithTransform tr fac = fac\<lparr>f_transform := tr\<rparr>"

definition NewSharedInformerFactoryWithOptions ::
  "'c \<Rightarrow> int64 \<Rightarrow> ('c, 'w, 't, 's) factory_option list \<Rightarrow> ('c, 'w, 't, 's) shared_factory" where
  "NewSharedInformerFactoryWithOptions client resync options =
     foldl (\<lambda>fac opt. opt fac)
       \<lparr>f_client = client, f_namespace = '''', f_tweak = None, f_defaultResync = resync, f_customResync = [],
        f_transform = None, f_informers = [], startedInformers = [], wg = 0, shuttingDown = False, made = [],
        calls = []\<rparr> options"

definition NewSharedInformerFactory :: "'c \<Rightarrow> int64 \<Rightarrow> ('c, 'w, 't, 's) shared_factory" where
  "NewSharedInformerFactory client resync = NewSharedInformerFactoryWithOptions client resync []"

definition NewFilteredSharedInformerFactory ::
  "'c \<Rightarrow> int64 \<Rightarrow> string \<Rightarrow> 'w option \<Rightarrow> ('c, 'w, 't, 's) shared_factory" where
  "NewFilteredSharedInformerFactory client resync ns tweak =
     NewSharedInformerFactoryWithOptions client resync [WithNamespace ns, WithTweakListOptions tweak]"

definition InformerFor ::
  "object_type \<Rightarrow> ('c \<Rightarrow> int64 \<Rightarrow> ('c, 'w, 't) informer) \<Rightarrow> ('c, 'w, 't, 's) shared_factory \<Rightarrow>
   nat \<times> ('c, 'w, 't, 's) shared_factory" where
  "InformerFor informerType newFunc f =
     (case map_of (f_informers f) informerType of
        Some i \<Rightarrow> (i, f)
      | None \<Rightarrow>
          let resyncPeriod = (case map_of (f_customResync f) informerType of None \<Rightarrow> f_defaultResync f | Some d \<Rightarrow> d);
              new = (newFunc (f_client f) resyncPeriod)\<lparr>inf_transform := f_transform f\<rparr>;
              i = length (made f)
          in (i, f\<lparr>made := made f @ [new], f_informers := AList.update informerType i (f_informers f)\<rparr>))"

definition start_one :: "'s \<Rightarrow> object_type \<times> nat \<Rightarrow> ('c, 'w, 't, 's) shared_factory \<Rightarrow> ('c, 'w, 't, 's) shared_factory" where
  \<comment> \<open>the body of the loop of \<open>Start\<close>\<close>
  "start_one stopCh = (\<lambda>(informerType, i) f.
     if map_of (startedInformers f) informerType \<noteq> Some True
     then f\<lparr>wg := wg f + 1, calls := calls f @ [Run i stopCh],
            startedInformers := AList.update informerType True (startedInformers f)\<rparr>
     else f)"

definition Start_factory :: "'s \<Rightarrow> ('c, 'w, 't, 's) shared_factory \<Rightarrow> ('c, 'w, 't, 's) shared_factory" where
  "Start_factory stopCh f = (if shuttingDown f then f else fold (start_one stopCh) (f_informers f) f)"

definition informer_returns :: "nat \<Rightarrow> ('c, 'w, 't, 's) shared_factory \<Rightarrow> ('c, 'w, 't, 's) shared_factory" where
  \<comment> \<open>the goroutine of \<open>Start\<close> ends, with the deferred \<open>Done\<close>\<close>
  "informer_returns i f = f\<lparr>wg := wg f - 1, calls := calls f @ [Ended i]\<rparr>"

definition Shutdown_begin :: "('c, 'w, 't, 's) shared_factory \<Rightarrow> ('c, 'w, 't, 's) shared_factory" where
  "Shutdown_begin f = f\<lparr>shuttingDown := True\<rparr>"

definition Shutdown_returns :: "('c, 'w, 't, 's) shared_factory \<Rightarrow> bool" where
  \<comment> \<open>the wait that ends it\<close>
  "Shutdown_returns f \<longleftrightarrow> shuttingDown f \<and> wg f = 0"

definition WaitForCacheSync :: "(nat \<Rightarrow> bool) \<Rightarrow> ('c, 'w, 't, 's) shared_factory \<Rightarrow> (object_type \<times> bool) list" where
  \<comment> \<open>of what the library's function of the same name returns for each informer\<close>
  "WaitForCacheSync synced f =
     (let informers = fold (\<lambda>(informerType, i) m.
            if map_of (startedInformers f) informerType = Some True then AList.update informerType i m else m) (f_informers f) []
      in fold (\<lambda>(informType, i). AList.update informType (synced i)) informers [])"

section \<open>The typed informers\<close>

record 'w typed_informer =
  ti_tweak :: "'w option"
  ti_namespace :: string

definition NewFilteredIntentInformer ::
  "'c \<Rightarrow> string \<Rightarrow> int64 \<Rightarrow> string list \<Rightarrow> 'w option \<Rightarrow> ('c, 'w, 't) informer" where
  "NewFilteredIntentInformer client ns resyncPeriod indexers tweak =
     \<lparr>inf_object = IntentType, inf_client = client, inf_namespace = ns, inf_tweak = tweak,
      inf_resync = resyncPeriod, inf_indexers = indexers, inf_transform = None\<rparr>"

definition NewFilteredKPIProfileInformer ::
  "'c \<Rightarrow> string \<Rightarrow> int64 \<Rightarrow> string list \<Rightarrow> 'w option \<Rightarrow> ('c, 'w, 't) informer" where
  "NewFilteredKPIProfileInformer client ns resyncPeriod indexers tweak =
     \<lparr>inf_object = KPIProfileType, inf_client = client, inf_namespace = ns, inf_tweak = tweak,
      inf_resync = resyncPeriod, inf_indexers = indexers, inf_transform = None\<rparr>"

definition intent_defaultInformer :: "'w typed_informer \<Rightarrow> 'c \<Rightarrow> int64 \<Rightarrow> ('c, 'w, 't) informer" where
  "intent_defaultInformer f client resyncPeriod =
     NewFilteredIntentInformer client (ti_namespace f) resyncPeriod [''namespace''] (ti_tweak f)"

definition profile_defaultInformer :: "'w typed_informer \<Rightarrow> 'c \<Rightarrow> int64 \<Rightarrow> ('c, 'w, 't) informer" where
  "profile_defaultInformer f client resyncPeriod =
     NewFilteredKPIProfileInformer client (ti_namespace f) resyncPeriod [''namespace''] (ti_tweak f)"

definition intent_Informer :: "'w typed_informer \<Rightarrow> ('c, 'w, 't, 's) shared_factory \<Rightarrow> nat \<times> ('c, 'w, 't, 's) shared_factory" where
  "intent_Informer f = InformerFor IntentType (intent_defaultInformer f)"

definition profile_Informer :: "'w typed_informer \<Rightarrow> ('c, 'w, 't, 's) shared_factory \<Rightarrow> nat \<times> ('c, 'w, 't, 's) shared_factory" where
  "profile_Informer f = InformerFor KPIProfileType (profile_defaultInformer f)"

definition Ido_Intents :: "('c, 'w, 't, 's) shared_factory \<Rightarrow> 'w typed_informer" where
  \<comment> \<open>\<open>Ido().V1alpha1().Intents()\<close>\<close>
  "Ido_Intents f = \<lparr>ti_tweak = f_tweak f, ti_namespace = f_namespace f\<rparr>"

definition Ido_KPIProfiles :: "('c, 'w, 't, 's) shared_factory \<Rightarrow> 'w typed_informer" where
  "Ido_KPIProfiles f = \<lparr>ti_tweak = f_tweak f, ti_namespace = f_namespace f\<rparr>"

definition ForResource ::
  "string \<times> string \<times> string \<Rightarrow> ('c, 'w, 't, 's) shared_factory \<Rightarrow> nat option \<times> ('c, 'w, 't, 's) shared_factory" where
  \<comment> \<open>of group, version and resource; None is the error\<close>
  "ForResource resource f =
     (if resource = (''ido.intel.com'', ''v1alpha1'', ''intents'') then map_prod Some id (intent_Informer (Ido_Intents f) f)
      else if resource = (''ido.intel.com'', ''v1alpha1'', ''kpiprofiles'') then map_prod Some id (profile_Informer (Ido_KPIProfiles f) f)
      else (None, f))"

section \<open>Listers\<close>

definition lister_List :: "('sel \<Rightarrow> 'o list \<times> bool) \<Rightarrow> 'sel \<Rightarrow> 'o list \<times> bool" where
  \<comment> \<open>of what the library calls the function with, and whether it returns an error\<close>
  "lister_List listAll sel = (case listAll sel of (ms, err) \<Rightarrow> (foldl (\<lambda>ret m. ret @ [m]) [] ms, err))"

definition lister_Get :: "(string \<Rightarrow> 'o option \<times> bool) \<Rightarrow> string \<Rightarrow> string \<Rightarrow> 'o lookup" where
  \<comment> \<open>of \<open>GetByKey\<close> of the indexer: the object if it exists, and whether there is an error\<close>
  "lister_Get getByKey ns name =
     (case getByKey (ns @ ''/'' @ name) of
        (obj, err) \<Rightarrow> if err then Fault else (case obj of None \<Rightarrow> Miss | Some x \<Rightarrow> Hit x))"

section \<open>The start of the program\<close>

definition connect_monitor ::
  "(('c, 'w, 't, 's) shared_factory \<Rightarrow> nat \<times> ('c, 'w, 't, 's) shared_factory) \<Rightarrow>
   ('c, 'w, 't, 's) shared_factory \<Rightarrow> ('c, 'w, 't, 's) shared_factory" where
  \<comment> \<open>what \<open>NewIntentMonitor\<close> and \<open>NewKPIProfileMonitor\<close> do with the \<open>Informer()\<close> they are given: for
      the lister, for \<open>HasSynced\<close>, and for the handlers\<close>
  "connect_monitor Informer f =
     (let (_, f) = Informer f; (_, f) = Informer f; (i, f) = Informer f
      in f\<lparr>calls := calls f @ [AddEventHandler i]\<rparr>)"

definition start_monitors :: "'c \<Rightarrow> int64 \<Rightarrow> 's \<Rightarrow> ('c, 'w, 't, 's) shared_factory" where
  \<comment> \<open>of the client, the configured timeout and the stop channel\<close>
  "start_monitors crdClient timeout stopper =
     (let f = NewSharedInformerFactory crdClient (1000000000 * timeout);
          f = connect_monitor (profile_Informer (Ido_KPIProfiles f)) f;
          f = connect_monitor (intent_Informer (Ido_Intents f)) f
      in Start_factory stopper f)"


section \<open>The factory over time\<close>

inductive fstep :: "('c, 'w, 't, 's) shared_factory \<Rightarrow> ('c, 'w, 't, 's) shared_factory \<Rightarrow> bool" where
  request: "fstep f (snd (InformerFor informerType newFunc f))"
| handler: "fstep f (f\<lparr>calls := calls f @ [AddEventHandler i]\<rparr>)"
| start: "fstep f (Start_factory stopCh f)"
| return: "Run i stopCh \<in> set (calls f) \<Longrightarrow> Ended i \<notin> set (calls f) \<Longrightarrow> fstep f (informer_returns i f)"
| shutdown: "fstep f (Shutdown_begin f)"

fun run_of :: "'s call \<Rightarrow> nat list" where
  "run_of (Run i stopCh) = [i]" | "run_of _ = []"
fun ended_of :: "'s call \<Rightarrow> nat list" where
  "ended_of (Ended i) = [i]" | "ended_of _ = []"

definition runs :: "('c, 'w, 't, 's) shared_factory \<Rightarrow> nat list" where
  "runs f = concat (map run_of (calls f))"

definition ended :: "('c, 'w, 't, 's) shared_factory \<Rightarrow> nat list" where
  "ended f = concat (map ended_of (calls f))"

definition given_option :: "('c, 'w, 't, 's) factory_option \<Rightarrow> bool" where
  "given_option opt \<longleftrightarrow> (\<exists>cfg. opt = WithCustomResyncConfig cfg) \<or> (\<exists>tweak. opt = WithTweakListOptions tweak) \<or>
     (\<exists>ns. opt = WithNamespace ns) \<or> (\<exists>tr. opt = WithTransform tr)"

inductive freach :: "('c, 'w, 't, 's) shared_factory \<Rightarrow> bool" where
  new: "list_all given_option options \<Longrightarrow> freach (NewSharedInformerFactoryWithOptions client resync options)"
| step: "freach f \<Longrightarrow> fstep f f' \<Longrightarrow> freach f'"

definition marked :: "('c, 'w, 't, 's) shared_factory \<Rightarrow> nat set" where
  \<comment> \<open>the informers noted as started\<close>
  "marked f = {i. \<exists>k. (k, i) \<in> set (f_informers f) \<and> map_of (startedInformers f) k = Some True}"

definition factory_ok :: "('c, 'w, 't, 's) shared_factory \<Rightarrow> bool" where
  "factory_ok f \<longleftrightarrow>
     distinct (map fst (f_informers f)) \<and> distinct (map snd (f_informers f)) \<and>
     snd ` set (f_informers f) \<subseteq> {..<length (made f)} \<and>
     (\<forall>k b. map_of (startedInformers f) k = Some b \<longrightarrow> k \<in> fst ` set (f_informers f)) \<and>
     distinct (runs f) \<and> set (runs f) = marked f \<and>
     distinct (ended f) \<and> set (ended f) \<subseteq> set (runs f) \<and> wg f + length (ended f) = length (runs f)"

lemma set_runs: "set (runs f) = {i. \<exists>stopCh. Run i stopCh \<in> set (calls f)}"
proof -
  have "i \<in> set (run_of c) \<longleftrightarrow> (\<exists>stopCh. c = Run i stopCh)" for i and c :: "'d call" by (cases c) auto
  then show ?thesis by (auto simp: runs_def)
qed

lemma set_ended: "set (ended f) = {i. Ended i \<in> set (calls f)}"
proof -
  have "i \<in> set (ended_of c) \<longleftrightarrow> c = Ended i" for i and c :: "'d call" by (cases c) auto
  then show ?thesis by (auto simp: ended_def)
qed

lemma calls_simps [simp]:
  "concat (map run_of (calls f)) = runs f" "concat (map ended_of (calls f)) = ended f"
  "runs (f\<lparr>calls := cs\<rparr>) = concat (map run_of cs)" "ended (f\<lparr>calls := cs\<rparr>) = concat (map ended_of cs)"
  "runs (f\<lparr>made := ms\<rparr>) = runs f" "ended (f\<lparr>made := ms\<rparr>) = ended f"
  "runs (f\<lparr>f_informers := fs\<rparr>) = runs f" "ended (f\<lparr>f_informers := fs\<rparr>) = ended f"
  "runs (f\<lparr>startedInformers := ss\<rparr>) = runs f" "ended (f\<lparr>startedInformers := ss\<rparr>) = ended f"
  "runs (f\<lparr>wg := n\<rparr>) = runs f" "ended (f\<lparr>wg := n\<rparr>) = ended f"
  "runs (f\<lparr>shuttingDown := b\<rparr>) = runs f" "ended (f\<lparr>shuttingDown := b\<rparr>) = ended f"
  by (simp_all add: runs_def ended_def)

lemma marked_simps [simp]:
  "marked (f\<lparr>calls := cs\<rparr>) = marked f" "marked (f\<lparr>wg := n\<rparr>) = marked f" "marked (f\<lparr>shuttingDown := b\<rparr>) = marked f"
  "marked (f\<lparr>made := ms\<rparr>) = marked f"
  by (simp_all add: marked_def)

lemma given_fresh:
  assumes "list_all given_option options"
  shows "factory_ok (NewSharedInformerFactoryWithOptions client resync options)"
proof -
  have "f_informers (foldl (\<lambda>fac opt. opt fac) fac options) = f_informers fac \<and>
      startedInformers (foldl (\<lambda>fac opt. opt fac) fac options) = startedInformers fac \<and>
      wg (foldl (\<lambda>fac opt. opt fac) fac options) = wg fac \<and>
      calls (foldl (\<lambda>fac opt. opt fac) fac options) = calls fac" for fac :: "('a, 'b, 'c, 'd) shared_factory"
    using assms
    by (induction options arbitrary: fac)
      (auto simp: given_option_def WithCustomResyncConfig_def WithTweakListOptions_def WithNamespace_def WithTransform_def)
  then show ?thesis
    by (simp add: factory_ok_def marked_def NewSharedInformerFactoryWithOptions_def runs_def ended_def)
qed

lemma InformerFor_cases:
  obtains (old) i where "map_of (f_informers f) k = Some i" "InformerFor k newFunc f = (i, f)"
  | (new) x where "map_of (f_informers f) k = None"
    "InformerFor k newFunc f = (length (made f),
      f\<lparr>made := made f @ [x], f_informers := f_informers f @ [(k, length (made f))]\<rparr>)"
proof (cases "map_of (f_informers f) k")
  case None
  then have "AList.update k v (f_informers f) = f_informers f @ [(k, v)]" for v
    by (simp add: map_of_eq_None_iff update_new)
  with None show thesis by (intro new) (auto simp: InformerFor_def Let_def)
qed (auto simp: InformerFor_def intro: old)

lemma request_ok: "factory_ok f \<Longrightarrow> factory_ok (snd (InformerFor k newFunc f))"
proof (cases rule: InformerFor_cases [of f k newFunc])
  case (new x)
  assume ok: "factory_ok f"
  have k: "k \<notin> fst ` set (f_informers f)" using new(1) by (simp add: map_of_eq_None_iff)
  then have "map_of (startedInformers f) k = None"
    using ok unfolding factory_ok_def by (metis option.exhaust)
  then have "marked (f\<lparr>made := made f @ [x], f_informers := f_informers f @ [(k, length (made f))]\<rparr>) = marked f"
    by (auto simp: marked_def)
  with ok k new(2) show ?thesis by (auto simp: factory_ok_def)
qed simp

lemma start_one_ok:
  assumes "factory_ok f" and "(k, i) \<in> set (f_informers f)"
  shows "factory_ok (start_one stopCh (k, i) f) \<and> set (runs (start_one stopCh (k, i) f)) = insert i (set (runs f))"
proof (cases "map_of (startedInformers f) k = Some True")
  case True
  with assms have "i \<in> set (runs f)" by (auto simp: factory_ok_def marked_def)
  with True assms(1) show ?thesis by (auto simp: start_one_def)
next
  case False
  let ?g = "f\<lparr>startedInformers := AList.update k True (startedInformers f)\<rparr>"
  have inj: "inj_on snd (set (f_informers f))" using assms(1) by (simp add: factory_ok_def distinct_map)
  have same: "k' = k" if "(k', i) \<in> set (f_informers f)" for k'
    using inj_onD [OF inj _ that assms(2)] by simp
  with False have "i \<notin> marked f" unfolding marked_def by blast
  then have "i \<notin> set (runs f)" using assms(1) by (simp add: factory_ok_def)
  moreover have "marked ?g = insert i (marked f)"
  proof -
    have "distinct (map fst (f_informers f))" using assms(1) by (simp add: factory_ok_def)
    from eq_key_imp_eq_value [OF this _ assms(2)] have "j = i" if "(k, j) \<in> set (f_informers f)" for j
      using that by blast
    with assms(2) have "(\<exists>k'. (k', j) \<in> set (f_informers f) \<and> (if k' = k then Some True else map_of (startedInformers f) k') = Some True)
        \<longleftrightarrow> j = i \<or> (\<exists>k'. (k', j) \<in> set (f_informers f) \<and> map_of (startedInformers f) k' = Some True)" for j
      by metis
    then show ?thesis unfolding marked_def by (simp add: update_conv' set_eq_iff)
  qed
  moreover have "\<forall>k' b. map_of (startedInformers ?g) k' = Some b \<longrightarrow> k' \<in> fst ` set (f_informers f)"
  proof -
    have "k \<in> fst ` set (f_informers f)" using assms(2) by force
    then show ?thesis using assms(1) by (auto simp: factory_ok_def update_conv' split: if_splits)
  qed
  moreover have "start_one stopCh (k, i) f = ?g\<lparr>wg := wg f + 1, calls := calls f @ [Run i stopCh]\<rparr>"
    using False by (simp add: start_one_def)
  ultimately show ?thesis using assms(1) unfolding factory_ok_def by auto
qed

lemma start_one_fields [simp]:
  "f_informers (start_one stopCh x f) = f_informers f" "made (start_one stopCh x f) = made f"
  "shuttingDown (start_one stopCh x f) = shuttingDown f"
  by (simp_all add: start_one_def split: prod.split)

lemma start_loop:
  assumes "factory_ok f" and "set xs \<subseteq> set (f_informers f)"
  shows "factory_ok (fold (start_one stopCh) xs f) \<and> f_informers (fold (start_one stopCh) xs f) = f_informers f \<and>
    set (runs (fold (start_one stopCh) xs f)) = set (runs f) \<union> snd ` set xs"
  using assms
proof (induction xs arbitrary: f)
  case (Cons x xs)
  obtain k i where x: "x = (k, i)" by (cases x)
  have one: "factory_ok (start_one stopCh x f) \<and> set (runs (start_one stopCh x f)) = insert i (set (runs f))"
    unfolding x by (rule start_one_ok) (use Cons.prems x in auto)
  with Cons.IH [of "start_one stopCh x f"] Cons.prems x show ?case by auto
qed simp

lemma returns_ok:
  assumes "factory_ok f" and "i \<in> set (runs f)" and "i \<notin> set (ended f)"
  shows "factory_ok (informer_returns i f)"
proof -
  have "set (ended f) \<subset> set (runs f)" using assms by (auto simp: factory_ok_def)
  then have "card (set (ended f)) < card (set (runs f))" by (simp add: psubset_card_mono)
  then have "length (ended f) < length (runs f)"
    using assms(1) distinct_card [of "ended f"] distinct_card [of "runs f"] by (simp only: factory_ok_def)
  with assms show ?thesis by (auto simp: factory_ok_def informer_returns_def)
qed

lemma step_ok: "fstep f f' \<Longrightarrow> factory_ok f \<Longrightarrow> factory_ok f'"
proof (induction rule: fstep.induct)
  case (return i stopCh f)
  then show ?case by (intro returns_ok) (auto simp: set_runs set_ended)
next
  case (start f stopCh)
  then show ?case using start_loop [OF start subset_refl] by (simp add: Start_factory_def)
next
  case (request f k newFunc)
  then show ?case by (rule request_ok)
qed (auto simp: Shutdown_begin_def factory_ok_def)

lemma reachable_ok: "freach f \<Longrightarrow> factory_ok f"
  by (induction rule: freach.induct) (auto intro: given_fresh step_ok)

lemma start_loop_fields [simp]:
  "f_informers (fold (start_one stopCh) xs f) = f_informers f" "shuttingDown (fold (start_one stopCh) xs f) = shuttingDown f"
  by (induction xs arbitrary: f) simp_all

lemma step_informers: "fstep f f' \<Longrightarrow> map_of (f_informers f) k = Some i \<Longrightarrow> map_of (f_informers f') k = Some i"
proof (induction rule: fstep.induct)
  case (request f k' newFunc)
  then show ?case by (cases rule: InformerFor_cases [of f k' newFunc]) (auto simp: map_add_def)
qed (auto simp: Start_factory_def informer_returns_def Shutdown_begin_def)

lemma step_shut: "fstep f f' \<Longrightarrow> shuttingDown f \<Longrightarrow> shuttingDown f' \<and> runs f' = runs f"
proof (induction rule: fstep.induct)
  case (request f k' newFunc)
  then show ?case by (cases rule: InformerFor_cases [of f k' newFunc]) (auto simp:)
qed (auto simp: Start_factory_def informer_returns_def Shutdown_begin_def)

lemma step_ended: "fstep f f' \<Longrightarrow> set (ended f) \<subseteq> set (ended f')"
proof (induction rule: fstep.induct)
  case (request f k' newFunc)
  then show ?case by (cases rule: InformerFor_cases [of f k' newFunc]) (auto simp:)
next
  case (start f stopCh)
  have "ended (fold (start_one stopCh) xs f) = ended f" for xs
    by (induction xs arbitrary: f) (auto simp: start_one_def)
  then show ?case by (simp add: Start_factory_def)
qed (auto simp: informer_returns_def Shutdown_begin_def)

lemma later:
  assumes "fstep\<^sup>*\<^sup>* f f'"
  shows "map_of (f_informers f) k = Some i \<Longrightarrow> map_of (f_informers f') k = Some i"
    "shuttingDown f \<Longrightarrow> runs f' = runs f"
proof -
  show "map_of (f_informers f) k = Some i \<Longrightarrow> map_of (f_informers f') k = Some i"
    using assms by (induction rule: rtranclp_induct) (auto intro: step_informers)
  have "shuttingDown f \<Longrightarrow> shuttingDown f' \<and> runs f' = runs f"
    using assms by (induction rule: rtranclp_induct) (auto dest: step_shut)
  then show "shuttingDown f \<Longrightarrow> runs f' = runs f" by simp
qed

lemma running_count:
  assumes "factory_ok f"
  shows "wg f = card (set (runs f) - set (ended f))"
proof -
  have "card (set (runs f) - set (ended f)) = length (runs f) - length (ended f)"
    using assms unfolding factory_ok_def by (metis List.finite_set card_Diff_subset distinct_card)
  moreover have "wg f + length (ended f) = length (runs f)" using assms by (simp add: factory_ok_def)
  ultimately show ?thesis by simp
qed

text \<open>
  C24. The factory of informers keeps its promises in every order of calls: an informer is run at most once, its
  counter is the number of informers that are running, starting runs everything that was requested so far, a
  type keeps the informer it was given first, and once a shutdown has begun nothing is run any more, so that a
  shutdown only returns when no informer runs, and none will.
\<close>
theorem informers_run_once:
  assumes "freach f"
  shows "distinct (runs f) \<and> wg f = card (set (runs f) - set (ended f)) \<and>
    (\<not> shuttingDown f \<longrightarrow> set (runs (Start_factory stopCh f)) = snd ` set (f_informers f)) \<and>
    (\<forall>f'. fstep\<^sup>*\<^sup>* (snd (InformerFor k newFunc f)) f' \<longrightarrow> fst (InformerFor k newFunc' f') = fst (InformerFor k newFunc f)) \<and>
    (\<forall>f'. Shutdown_returns f \<and> fstep\<^sup>*\<^sup>* f f' \<longrightarrow> set (runs f') \<subseteq> set (ended f'))"
proof (intro conjI impI allI)
  note ok = reachable_ok [OF assms]
  from ok show "distinct (runs f)" by (simp add: factory_ok_def)
  from ok show "wg f = card (set (runs f) - set (ended f))" by (rule running_count)
  show "set (runs (Start_factory stopCh f)) = snd ` set (f_informers f)" if "\<not> shuttingDown f"
  proof -
    have "set (runs f) = marked f" using ok by (simp add: factory_ok_def)
    then have "set (runs f) \<subseteq> snd ` set (f_informers f)" unfolding marked_def by force
    then show ?thesis using that start_loop [OF ok subset_refl, of stopCh] by (simp add: Start_factory_def Un_absorb1)
  qed
  show "fst (InformerFor k newFunc' f') = fst (InformerFor k newFunc f)" if "fstep\<^sup>*\<^sup>* (snd (InformerFor k newFunc f)) f'" for f'
  proof -
    have "map_of (f_informers (snd (InformerFor k newFunc f))) k = Some (fst (InformerFor k newFunc f))"
      by (cases rule: InformerFor_cases [of f k newFunc]) (auto simp: map_add_def)
    from later(1) [OF that this] show ?thesis by (simp add: InformerFor_def)
  qed
  show "set (runs f') \<subseteq> set (ended f')" if "Shutdown_returns f \<and> fstep\<^sup>*\<^sup>* f f'" for f'
  proof -
    have "freach f'" using conjunct2 [OF that] assms by (induction rule: rtranclp_induct) (auto intro: freach.step)
    note ok' = reachable_ok [OF this]
    have "runs f' = runs f" using that later(2) by (auto simp: Shutdown_returns_def)
    moreover have "set (runs f) \<subseteq> set (ended f)" using that running_count [OF ok] by (simp add: Shutdown_returns_def)
    moreover have "set (ended f) \<subseteq> set (ended f')"
      using conjunct2 [OF that] by (induction rule: rtranclp_induct) (auto dest: step_ended)
    ultimately show ?thesis by auto
  qed
qed

definition small_factory :: "(unit, unit, unit, unit) shared_factory" where
  "small_factory = NewSharedInformerFactory () 30"

theorem informers_run_once_witness:
  "freach small_factory \<and>
   fst (intent_Informer (Ido_Intents small_factory) (snd (intent_Informer (Ido_Intents small_factory) small_factory))) = 0"
proof -
  let ?f = small_factory and ?g = intent_defaultInformer
  have new: "freach ?f"
    using freach.new [of "[]" "()" 30] by (simp add: small_factory_def NewSharedInformerFactory_def)
  have "fst (InformerFor IntentType newFunc ?f) = 0" for newFunc
    by (simp add: InformerFor_def small_factory_def NewSharedInformerFactory_def NewSharedInformerFactoryWithOptions_def Let_def)
  moreover have "fst (InformerFor IntentType newFunc (snd (InformerFor IntentType newFunc ?f))) = fst (InformerFor IntentType newFunc ?f)" for newFunc
    using informers_run_once [OF new, of "()" IntentType newFunc newFunc] by blast
  ultimately show ?thesis using new by (simp add: intent_Informer_def)
qed

section \<open>The objects the monitors see\<close>

text \<open>
  The program starts one informer for profiles and one for intents, for all namespaces and without a filter; their
  handlers are added before they run, so no notification is missed, and starting the factory again does nothing.
\<close>
theorem monitors_started:
  "calls (start_monitors crdClient timeout stopper) =
     [AddEventHandler 0, AddEventHandler 1, Run 0 stopper, Run 1 stopper] \<and>
   made (start_monitors crdClient timeout stopper) =
     [\<lparr>inf_object = KPIProfileType, inf_client = crdClient, inf_namespace = '''', inf_tweak = None,
       inf_resync = 1000000000 * timeout, inf_indexers = [''namespace''], inf_transform = None\<rparr>,
      \<lparr>inf_object = IntentType, inf_client = crdClient, inf_namespace = '''', inf_tweak = None,
       inf_resync = 1000000000 * timeout, inf_indexers = [''namespace''], inf_transform = None\<rparr>] \<and>
   Start_factory again (start_monitors crdClient timeout stopper) = start_monitors crdClient timeout stopper"
  by (simp add: start_monitors_def NewSharedInformerFactory_def NewSharedInformerFactoryWithOptions_def connect_monitor_def
    profile_Informer_def intent_Informer_def InformerFor_def profile_defaultInformer_def intent_defaultInformer_def
    NewFilteredKPIProfileInformer_def NewFilteredIntentInformer_def Ido_KPIProfiles_def Ido_Intents_def Start_factory_def
    start_one_def Let_def)

definition stores :: "(string \<Rightarrow> 'o option \<times> bool) \<Rightarrow> (object_id \<Rightarrow> 'o option) \<Rightarrow> bool" where
  \<comment> \<open>what the library documents of an indexer: objects are stored under \<open>namespace/name\<close>, and a read does not fail\<close>
  "stores getByKey objs \<longleftrightarrow> (\<forall>ns name. ns \<noteq> '''' \<longrightarrow> getByKey (ns @ ''/'' @ name) = (objs (ns, name), False))"

text \<open>The reads of the monitors find exactly the objects in the cache: the lister of the machine of monitors.\<close>
lemma lister_Get_cached: "stores getByKey objs \<Longrightarrow> fst i \<noteq> '''' \<Longrightarrow> lister_Get getByKey (fst i) (snd i) = lister objs i"
  by (cases i) (auto simp: stores_def lister_Get_def lister_def)

lemma foldl_snoc: "foldl (\<lambda>ret m. ret @ [m]) ys xs = ys @ xs"
  by (induction xs arbitrary: ys) simp_all

lemma lister_List_all: "lister_List listAll sel = listAll sel"
  by (simp add: lister_List_def foldl_snoc split: prod.split)

text \<open>So the handlers of both monitors can be taken as those of the machine, with the lister for the reads.\<close>
lemma processIntent_cached:
  assumes "stores getByKey objs" and "\<And>i. split key = Some i \<Longrightarrow> fst i \<noteq> ''''"
  shows "processIntent split (\<lambda>i. lister_Get getByKey (fst i) (snd i)) key = processIntent split (lister objs) key"
  using assms lister_Get_cached [OF assms(1)] by (auto simp: processIntent_def split: option.split)

lemma processProfile_cached:
  assumes "stores getByKey objs" and "\<And>i. split key = Some i \<Longrightarrow> fst i \<noteq> ''''"
  shows "processProfile defaults split (\<lambda>i. lister_Get getByKey (fst i) (snd i)) key =
    processProfile defaults split (lister objs) key"
  using assms lister_Get_cached [OF assms(1)] by (auto simp: processProfile_def split: option.split)

lemma map_of_rev_distinct: "distinct (map fst xs) \<Longrightarrow> map_of (rev xs) = map_of xs"
  by (subst map_of_inject_set) (simp_all flip: rev_map)

lemma pick_fold:
  "map_of (fold (\<lambda>(k, i) m. if P k then AList.update k (g i) m else m) xs m) k =
    (case map_of (rev xs) k of Some i \<Rightarrow> if P k then Some (g i) else map_of m k | None \<Rightarrow> map_of m k)"
  by (induction xs arbitrary: m) (auto simp: update_conv' map_add_def split: option.splits)

lemma pick_distinct:
  "distinct (map fst m) \<Longrightarrow> distinct (map fst (fold (\<lambda>(k, i) m. if P k then AList.update k (g i) m else m) xs m))"
  by (induction xs arbitrary: m) (auto simp: distinct_update)

text \<open>The wait for the caches reports exactly the informers that were started.\<close>
lemma WaitForCacheSync_meaning:
  assumes "freach f"
  shows "map_of (WaitForCacheSync synced f) k =
    (if map_of (startedInformers f) k = Some True then map_option synced (map_of (f_informers f) k) else None)"
proof -
  have "distinct (map fst (f_informers f))" using reachable_ok [OF assms] by (simp add: factory_ok_def)
  then have rev: "map_of (rev (f_informers f)) = map_of (f_informers f)"
    by (rule map_of_rev_distinct)
  let ?started = "\<lambda>k. map_of (startedInformers f) k = Some True"
  define ms where "ms = fold (\<lambda>(k, i) m. if ?started k then AList.update k i m else m) (f_informers f) []"
  have ms: "map_of ms k = (if ?started k then map_of (f_informers f) k else None)" for k
    unfolding ms_def by (simp add: pick_fold [of ?started "\<lambda>i. i"] rev split: option.split)
  have "distinct (map fst ms)"
    unfolding ms_def using pick_distinct [of "[]" ?started "\<lambda>i. i"] by simp
  then have "map_of (rev ms) = map_of ms" by (rule map_of_rev_distinct)
  then have "map_of (fold (\<lambda>(k, i). AList.update k (synced i)) ms []) k = map_option synced (map_of ms k)"
    using pick_fold [of "\<lambda>_. True" synced ms "[]"] by (simp split: option.split)
  then show ?thesis by (simp add: WaitForCacheSync_def ms_def [symmetric] ms)
qed

end
