(* ===== verification/Pod_Monitor.thy ===== *)
theory Pod_Monitor
  imports Monitors
begin

text \<open>
  \<^verbatim>\<open>pkg/controller/pod_monitor.go\<close>: the monitor that reports the failures of pods.
  It looks at the first container of a pod and remembers in a cache which pods are
  failing; the cache is written by a goroutine of its own, which the model lets finish
  before the next pod is looked at.  Times are numbers of nanoseconds, 0 is the zero time.
\<close>

section \<open>Data\<close>

record container_status =
  Ready :: bool
  LastTermination :: "int option"   \<comment> \<open>\<open>FinishedAt\<close> of the last instance, where it was terminated\<close>
  Running :: "int option"           \<comment> \<open>\<open>StartedAt\<close>, where the container is running\<close>

record pod_object =
  ContainerStatuses :: "container_status list"
  CreationTimestamp :: int

type_synonym pod_cache = "string set"   \<comment> \<open>the keys of \<open>podsWithError\<close>\<close>

section \<open>Operations\<close>

definition updatePodCache :: "string \<times> bool \<Rightarrow> pod_cache \<Rightarrow> pod_cache" where
  \<comment> \<open>one message on the cache channel\<close>
  "updatePodCache = (\<lambda>(key, state) podsWithError. if \<not> state then podsWithError - {key} else insert key podsWithError)"

definition look_at :: "string \<Rightarrow> pod_cache \<Rightarrow> int \<Rightarrow> container_status \<Rightarrow> (PodError list \<times> (string \<times> bool) list) go" where
  \<comment> \<open>the body of the loop over the first container: the messages and the updates of the cache\<close>
  "look_at key podsWithError created state =
     (if key \<in> podsWithError then
        (case LastTermination state of
           Some start \<Rightarrow>
             if Ready state then
               (case Running state of
                  None \<Rightarrow> Inl NilDereference
                | Some end \<Rightarrow> Inr ([\<lparr>ErrorKey = key, Start = start, End = end, Created = created\<rparr>], [(key, False)]))
             else Inr ([], [])
         | None \<Rightarrow> Inr ([], []))
      else if \<not> Ready state \<and> LastTermination state \<noteq> None then Inr ([], [(key, True)])
      else Inr ([], []))"

definition processPod ::
  "(string \<Rightarrow> object_id option) \<Rightarrow> (object_id \<Rightarrow> pod_object lookup) \<Rightarrow> pod_cache \<Rightarrow> string \<Rightarrow>
   ((PodError list \<times> (string \<times> bool) list) \<times> bool) go" where
  \<comment> \<open>what is sent on the two channels, and whether an error is returned\<close>
  "processPod split get podsWithError key =
     (case split key of
        None \<Rightarrow> Inr (([], []), False)
      | Some i \<Rightarrow>
          (case get i of
             Miss \<Rightarrow> Inr (([], []), False)
           | Fault \<Rightarrow> Inr (([], []), True)
           | Hit pod \<Rightarrow>
               (case ContainerStatuses pod of
                  [] \<Rightarrow> Inr (([], []), False)
                | state # _ \<Rightarrow>
                    bindG (look_at key podsWithError (CreationTimestamp pod) state) (\<lambda>r. Inr (r, False)))))"

definition obsolete_pod :: "string \<Rightarrow> PodError" where
  \<comment> \<open>what \<open>DeleteFunc\<close> sends\<close>
  "obsolete_pod key = \<lparr>ErrorKey = key, Start = 0, End = 0, Created = 0\<rparr>"

definition pod_worker ::
  "(string \<Rightarrow> object_id option) \<Rightarrow> (object_id \<Rightarrow> pod_object lookup) \<Rightarrow> pod_cache \<Rightarrow> string \<Rightarrow> bool \<Rightarrow>
   (PodError list \<times> queue_call list \<times> bool) go" where
  "pod_worker split get podsWithError =
     processNextWorkItem (\<lambda>key. bindG (processPod split get podsWithError key) (\<lambda>((msgs, updates), err). Inr (msgs, err)))"

section \<open>Sequences of observations\<close>

datatype observation = Seen pod_object | Removed

definition observe ::
  "(string \<Rightarrow> object_id option) \<Rightarrow> string \<times> observation \<Rightarrow> pod_cache \<Rightarrow> (PodError list \<times> pod_cache) go" where
  \<comment> \<open>one pod is looked at, or its deletion is handled\<close>
  "observe split = (\<lambda>(key, e) c.
     case e of
       Removed \<Rightarrow> Inr (DeleteFunc obsolete_pod (Some key), c)
     | Seen pod \<Rightarrow>
         bindG (processPod split (\<lambda>_. Hit pod) c key) (\<lambda>((msgs, updates), err). Inr (msgs, fold updatePodCache updates c)))"

fun observe_all ::
  "(string \<Rightarrow> object_id option) \<Rightarrow> (string \<times> observation) list \<Rightarrow> pod_cache \<Rightarrow> (PodError list list \<times> pod_cache) go" where
  "observe_all split [] c = Inr ([], c)"
| "observe_all split (e # es) c =
     bindG (observe split e c) (\<lambda>(msgs, c). bindG (observe_all split es c) (\<lambda>(rest, c). Inr (msgs # rest, c)))"

section \<open>What is reported\<close>

definition first_container :: "pod_object \<Rightarrow> container_status option" where
  "first_container pod = (case ContainerStatuses pod of [] \<Rightarrow> None | state # _ \<Rightarrow> Some state)"

fun failing :: "string \<Rightarrow> string \<times> observation \<Rightarrow> bool" where
  "failing k (key, Seen pod) \<longleftrightarrow> key = k \<and>
     (\<exists>state. first_container pod = Some state \<and> \<not> Ready state \<and> LastTermination state \<noteq> None)"
| "failing k (key, Removed) \<longleftrightarrow> False"

fun recovered :: "string \<Rightarrow> string \<times> observation \<Rightarrow> bool" where
  "recovered k (key, Seen pod) \<longleftrightarrow> key = k \<and>
     (\<exists>state. first_container pod = Some state \<and> Ready state \<and> LastTermination state \<noteq> None)"
| "recovered k (key, Removed) \<longleftrightarrow> False"

fun sane_observation :: "(string \<Rightarrow> object_id option) \<Rightarrow> string \<times> observation \<Rightarrow> bool" where
  \<comment> \<open>a container that is ready is running, and keys are those of objects\<close>
  "sane_observation split (key, Seen pod) \<longleftrightarrow>
     split key \<noteq> None \<and> (\<forall>state. first_container pod = Some state \<and> Ready state \<longrightarrow> Running state \<noteq> None)"
| "sane_observation split (key, Removed) \<longleftrightarrow> True"

definition in_error :: "(string \<times> observation) list \<Rightarrow> string \<Rightarrow> bool" where
  \<comment> \<open>the pod was seen failing, and not recovered since\<close>
  "in_error es k \<longleftrightarrow>
     (\<exists>i < length es. failing k (es ! i) \<and> (\<forall>j. i < j \<and> j < length es \<longrightarrow> \<not> recovered k (es ! j)))"

fun report :: "(string \<times> observation) list \<Rightarrow> string \<times> observation \<Rightarrow> PodError list" where
  \<comment> \<open>the specification of what is sent at an observation, of the ones before\<close>
  "report es (key, Removed) = [obsolete_pod key]"
| "report es (key, Seen pod) =
     (case first_container pod of
        None \<Rightarrow> []
      | Some state \<Rightarrow>
          if in_error es key \<and> Ready state \<and> LastTermination state \<noteq> None
          then [\<lparr>ErrorKey = key, Start = the (LastTermination state), End = the (Running state), Created = CreationTimestamp pod\<rparr>]
          else [])"

lemma in_error_snoc: "in_error (es @ [e]) k \<longleftrightarrow> failing k e \<or> in_error es k \<and> \<not> recovered k e"
proof -
  let ?n = "length es" and ?es = "es @ [e]"
  have old: "?es ! i = es ! i" if "i < ?n" for i using that by (simp add: nth_append)
  have before: "(\<forall>j. i < j \<and> j < Suc ?n \<longrightarrow> \<not> recovered k (?es ! j)) \<longleftrightarrow>
      (\<forall>j. i < j \<and> j < ?n \<longrightarrow> \<not> recovered k (es ! j)) \<and> \<not> recovered k e" if "i < ?n" for i
    using that old less_Suc_eq by (metis nth_append_length)
  have last: "failing k (?es ! ?n) \<and> (\<forall>j. ?n < j \<and> j < Suc ?n \<longrightarrow> \<not> recovered k (?es ! j)) \<longleftrightarrow> failing k e"
    by (auto dest: less_le_trans)
  have "in_error ?es k \<longleftrightarrow> (\<exists>i < Suc ?n. failing k (?es ! i) \<and> (\<forall>j. i < j \<and> j < Suc ?n \<longrightarrow> \<not> recovered k (?es ! j)))"
    by (simp add: in_error_def)
  also have "\<dots> \<longleftrightarrow> failing k e \<or>
      (\<exists>i < ?n. failing k (?es ! i) \<and> (\<forall>j. i < j \<and> j < Suc ?n \<longrightarrow> \<not> recovered k (?es ! j)))"
    unfolding Ex_less_Suc last by (rule refl)
  also have "\<dots> \<longleftrightarrow> failing k e \<or> in_error es k \<and> \<not> recovered k e"
    by (simp add: in_error_def old before del: nth_append_length cong: conj_cong) blast
  finally show ?thesis .
qed

lemma observe_spec:
  assumes "sane_observation split e" and "c = {k. in_error es k}"
  shows "observe split e c = Inr (report es e, {k. in_error (es @ [e]) k})"
proof -
  obtain key ev where e: "e = (key, ev)" by (cases e)
  show ?thesis
  proof (cases ev)
    case Removed
    with e assms(2) show ?thesis by (simp add: observe_def DeleteFunc_def in_error_snoc)
  next
    case (Seen pod)
    obtain i where i: "split key = Some i" using assms(1) e Seen by auto
    show ?thesis
    proof (cases "ContainerStatuses pod")
      case Nil
      with e Seen i assms(2) show ?thesis by (simp add: observe_def processPod_def first_container_def in_error_snoc)
    next
      case (Cons state rest)
      then have first: "first_container pod = Some state" by (simp add: first_container_def)
      have run: "Ready state \<longrightarrow> Running state \<noteq> None" using assms(1) e Seen first by auto
      have eq: "observe split e c = bindG (look_at key c (CreationTimestamp pod) state)
          (\<lambda>(msgs, updates). Inr (msgs, fold updatePodCache updates c))"
        using e Seen i Cons by (cases "look_at key c (CreationTimestamp pod) state") (auto simp: observe_def processPod_def)
      have next_cache: "{k. in_error (es @ [e]) k} =
          (if LastTermination state = None then c else if Ready state then c - {key} else insert key c)"
        using e Seen first assms(2) by (auto simp: in_error_snoc)
      show ?thesis
        unfolding eq next_cache
        using e Seen first run assms(2)
        by (cases "LastTermination state"; cases "Ready state"; cases "in_error es key")
          (auto simp: look_at_def updatePodCache_def)
    qed
  qed
qed

lemma observe_all_spec:
  assumes "list_all (sane_observation split) fs" and "c = {k. in_error es k}"
  shows "\<exists>mss. observe_all split fs c = Inr (mss, {k. in_error (es @ fs) k}) \<and> length mss = length fs \<and>
    (\<forall>j < length fs. mss ! j = report (es @ take j fs) (fs ! j))"
  using assms
proof (induction fs arbitrary: c es)
  case (Cons f fs)
  have step: "observe split f c = Inr (report es f, {k. in_error (es @ [f]) k})"
    using observe_spec [of split f c es] Cons.prems by simp
  obtain mss where mss: "observe_all split fs {k. in_error (es @ [f]) k} = Inr (mss, {k. in_error ((es @ [f]) @ fs) k})"
    "length mss = length fs" "\<forall>j < length fs. mss ! j = report ((es @ [f]) @ take j fs) (fs ! j)"
    using Cons.IH [OF _ refl, of "es @ [f]"] Cons.prems(1) by auto
  then have "(report es f # mss) ! j = report (es @ take j (f # fs)) ((f # fs) ! j)" if "j < length (f # fs)" for j
    using that by (cases j) simp_all
  with step mss show ?case by (intro exI [of _ "report es f # mss"]) simp
qed simp

text \<open>
  C23. The pod monitor reports exactly the failures it saw: at an observation of a pod a failure is sent if and only if
  the first container is ready again after a termination and the pod was seen not ready after
  a termination before, with no recovery since; the times are those of the termination and of the restart. A
  removal of the pod in between does not end the failure: the cache keeps the key.
\<close>
theorem pod_failures_reported:
  assumes "list_all (sane_observation split) es"
  shows "\<exists>mss. observe_all split es {} = Inr (mss, {k. in_error es k}) \<and> length mss = length es \<and>
    (\<forall>j < length es. mss ! j = report (take j es) (es ! j))"
  using observe_all_spec [OF assms, of "{}" "[]"] by (simp add: in_error_def)

definition sample_pod :: "bool \<Rightarrow> pod_object" where
  "sample_pod ready = \<lparr>ContainerStatuses = [\<lparr>Ready = ready, LastTermination = Some 10, Running = Some 20\<rparr>], CreationTimestamp = 5\<rparr>"

theorem pod_failures_reported_witness:
  "\<exists>mss c. observe_all (\<lambda>_. Some (''ns'', ''a''))
      [(''ns/a'', Seen (sample_pod False)), (''ns/a'', Removed), (''ns/a'', Seen (sample_pod True)),
       (''ns/a'', Seen (sample_pod True))] {} = Inr (mss, c) \<and>
    mss = [[], [obsolete_pod ''ns/a''], [\<lparr>ErrorKey = ''ns/a'', Start = 10, End = 20, Created = 5\<rparr>], []]"
proof -
  let ?es = "[(''ns/a'', Seen (sample_pod False)), (''ns/a'', Removed), (''ns/a'', Seen (sample_pod True)),
       (''ns/a'', Seen (sample_pod True))]"
  have "list_all (sane_observation (\<lambda>_. Some (''ns'', ''a''))) ?es" by (simp add: sample_pod_def first_container_def)
  from pod_failures_reported [OF this] obtain mss where
    m: "observe_all (\<lambda>_. Some (''ns'', ''a'')) ?es {} = Inr (mss, {k. in_error ?es k})" "length mss = 4"
    "\<And>j. j < 4 \<Longrightarrow> mss ! j = report (take j ?es) (?es ! j)" by auto
  have e: "in_error [(''ns/a'', Seen (sample_pod False)), (''ns/a'', Removed)] ''ns/a''"
    "\<not> in_error [(''ns/a'', Seen (sample_pod False)), (''ns/a'', Removed), (''ns/a'', Seen (sample_pod True))] ''ns/a''"
    "\<not> in_error [] ''ns/a''"
    using in_error_snoc [of "[]" "(''ns/a'', Seen (sample_pod False))" "''ns/a''"]
      in_error_snoc [of "[(''ns/a'', Seen (sample_pod False))]" "(''ns/a'', Removed)" "''ns/a''"]
      in_error_snoc [of "[(''ns/a'', Seen (sample_pod False)), (''ns/a'', Removed)]" "(''ns/a'', Seen (sample_pod True))" "''ns/a''"]
    by (simp_all add: in_error_def sample_pod_def first_container_def)
  have "mss = map (\<lambda>j. mss ! j) [0, 1, 2, 3]"
    using m(2) by (auto simp: list_eq_iff_nth_eq less_Suc_eq numeral_eq_Suc)
  also have "\<dots> = [[], [obsolete_pod ''ns/a''], [\<lparr>ErrorKey = ''ns/a'', Start = 10, End = 20, Created = 5\<rparr>], []]"
    using m(3) [of 0] m(3) [of 1] m(3) [of 2] m(3) [of 3] e
    by (simp add: sample_pod_def first_container_def numeral_eq_Suc)
  finally show ?thesis using m(1) by blast
qed

end
