(* ===== verification/Spec2Isabelle.thy ===== *)
theory Spec2Isabelle
  imports Resource_Keys Plugin_Lifecycle Plugin_Commands Knowledge_Base Control_Loop Deep_Copies Informers Pod_Monitor
begin

text \<open>
  A verification library of the intent driven orchestration planner (Go, \<^verbatim>\<open>src/\<close>).

  \<^bold>\<open>The program.\<close>  Users store intents (objectives for a workload) and KPI profiles (how an
  objective is measured) as custom resources.  Three monitors watch them and the pods, and send what changed to the
  intent controller.  The controller keeps intents, profiles and pod errors; a ticker, and each update, put the
  keys of the intents into a channel, from which workers take them.  A worker measures the current state of the
  workload (pods from the Kubernetes API, availability from the pod errors, latencies and the like from
  Prometheus), derives the desired state from the intent and asks the planner for a plan.  The planner asks every
  actuator which states it could bring about (\<open>NextState\<close>), builds a graph of states, searches it with
  A* for a path to a state at least as good as the desired one, and hands the actions of that path back.  The
  controller then lets every actuator perform the plan (\<open>Perform\<close>), which changes the cluster, and
  remembers the intent in a cache with expiry so that it is not planned for again at once.  Actuators are part of
  the planner or run as plugins in other processes, behind gRPC stubs and a plugin manager.

  \<^bold>\<open>The theories\<close>, with the code each models:

  \<^item> \<open>Prelude\<close>, \<open>GoFloat\<close>: the effects of Go the others share (panics, maps,
    strings, machine integers, \<open>float64\<close>), and the lemmas and collections of hints for them.
  \<^item> \<open>Common_Types\<close>, \<open>Deep_Copies\<close>, \<open>Configuration\<close>,
    \<open>TTL_Cache\<close>: \<^verbatim>\<open>pkg/common\<close>. \<open>State\<close>, \<open>Intent\<close>, \<open>Profile\<close> and
    \<open>PodState\<close> are the structs with the same names; a field that clashes with another name has a
    prefix.  \<open>Deep_Copies\<close> has them, and the custom resources, once more as references into a store.
    \<open>ParseConfig\<close> is the whole validation, with each of its errors.
  \<^item> \<open>Priority_Queue\<close>, \<open>State_Graph\<close>, \<open>AStar\<close>,
    \<open>AStar_Planner\<close>: \<^verbatim>\<open>pkg/planner/astar\<close> and
    \<^verbatim>\<open>pkg/planner/interface.go\<close>. A pointer to a state is a natural number, the states
    behind the pointers are the field \<open>memory\<close> of \<open>graph_state\<close>.
  \<^item> \<open>Actuators\<close>, \<open>Kubernetes\<close>, \<open>Scale_Out\<close>, \<open>Rm_Pod\<close>,
    \<open>Cpu_Scale\<close>, \<open>Rdt\<close>, \<open>Power_Profiles\<close>:
    \<^verbatim>\<open>pkg/planner/actuators\<close>, each with its \<open>NextState\<close>,
    \<open>Perform\<close> and \<open>Effect\<close>.  The cluster they change is the record
    \<open>cluster\<close>.
  \<^item> \<open>Kpi\<close>, \<open>State_Helper\<close>, \<open>Intent_Controller\<close>,
    \<open>Monitors\<close>, \<open>Custom_Monitors\<close>, \<open>Pod_Monitor\<close>,
    \<open>Knowledge_Base\<close>: \<^verbatim>\<open>pkg/controller\<close>.  The controller is the record
    \<open>controller\<close>, its channel the list \<open>tasks\<close>, its goroutines the events of a step
    relation; a goroutine that holds the lock is the field \<open>sending\<close>.
  \<^item> \<open>Informers\<close>: \<^verbatim>\<open>pkg/generated/informers\<close> and
    \<^verbatim>\<open>pkg/generated/listers\<close>, and the part of \<^verbatim>\<open>cmd/main.go\<close> that
    starts the informers; a pointer to an informer is its position in the field \<open>made\<close>.
  \<^item> \<open>Plugin_Stubs\<close>, \<open>Plugin_Manager\<close>, \<open>Plugin_Lifecycle\<close>:
    \<^verbatim>\<open>pkg/api/plugins/v1alpha1\<close>; \<open>Plugin_Commands\<close>:
    \<^verbatim>\<open>plugins\<close>.
  \<^item> \<open>Frames\<close>, \<open>Composition\<close>, \<open>Control_Loop\<close>, \<open>Resource_Keys\<close> model no code of their
    own: they hold what follows from several parts together.

  \<^bold>\<open>Conventions.\<close>  A panic is an \<open>Inl\<close>, and so are the errors a function returns
  where the caller tells them apart; where it does not, an error is \<open>None\<close>.  A Go map is an
  association list, or \<open>None\<close> for the nil map, and is visited in the order of its list: what holds for
  all lists holds for every order Go may choose. \<open>int64\<close> is a machine word and wraps;
  \<open>int\<close> is unbounded where the code only counts, and reduced where it may overflow.  A
  \<open>float64\<close> is an exact real, an infinity or NaN: rounding is not modelled, so statements on floats
  are about the arithmetic meant; comparisons with NaN and divisions by zero are those of Go.  Logging is left out.

  \<^bold>\<open>What is an argument of the model.\<close>  Code outside the repository is an argument of the
  definitions that use it: what Prometheus and the prediction services answer to a request; the informer (the pods
  a selector matches); the outcome of each call of the Kubernetes API (a list, so all outcomes are covered); the
  encoding and transport of messages; attempts to connect; what the database finds; random numbers; the presence of
  files and the syntax check of addresses.  Where a theorem relies on documented behaviour of such code, that is a
  named hypothesis (for instance \<open>predictions_ok\<close>, \<open>blocks_until_deadline\<close>,
  \<open>finds\<close>), and its witness gives a function that has it.  The machine in \<open>Monitors\<close> and
  the operations in \<open>Kubernetes\<close> hold what the libraries document of work queues and of retries on a
  conflict.

  \<^bold>\<open>Interfaces.\<close>  Where a part relies on another, a locale states the contract and an
  interpretation shows that the code keeps it: \<open>heap_interface\<close> (what \<open>container/heap\<close>
  expects of \<open>Less\<close> and \<open>Swap\<close>) and \<open>min_queue\<close> (what the search relies on),
  both interpreted on the planner's queue; \<open>recent_keys\<close> (what the controller relies on), on the
  cache; \<open>actuator\<close> (what the planner relies on), on all five actuators and, in
  \<open>Composition\<close>, on each of them behind the stubs; \<open>monitor\<close>, on the monitors of intents
  and of profiles.

  \<^bold>\<open>What the lemmas show.\<close>
  \<^item> Planning: building the graph ends with a graph in which every edge is an action an actuator proposed;
    the search always returns, with a cheapest path if the heuristic is admissible; a plan that is not empty leads
    to a state that is at least as good as the desired one, opportunistic planning apart, and there is one whenever
    the graph can reach such a state; the shortcut of opportunistic planning picks the closest states.  The
    heuristic in use is not admissible, and a theorem shows a plan that is not cheapest.
  \<^item> Data: the comparisons of states mean what their comments say and do not depend on the order of maps;
    states can be treated as values because a deep copy shares no map with what it was made from.
  \<^item> Measuring: which pods and errors the state of an intent is made of, the availability as a ratio of
    times, and what failed queries give.
  \<^item> Control: the maps of the controller hold the last update of each key; a plan is only executed for a
    managed intent that was known and for which it was made; an intent in the cache is not queued; and the
    behaviours that go wrong: the controller can deadlock on its own channel, and can execute two plans for one
    intent.
  \<^item> Watching: the factory runs each informer once, after its handlers were added, and the reads of the monitors
    are the lister their machine has.
  \<^item> Acting: what performing a plan does to the cluster, for each outcome of the calls, and what each
    actuator proposes and never proposes; for which configurations the commands accept the actuators cannot panic,
    and for which they do.
  \<^item> Plugins: an actuator behind its stubs proposes what it proposes locally; the registry of the manager
    holds only plugins it could reach; what comes of a registration; and that a stream does not recover from an
    error.

  \<^bold>\<open>Termination, bounds and fuel.\<close>  The loops of the search are \<open>partial_function
  (option)\<close>, so a run that does not end is \<open>None\<close>, and the theorems on \<open>solve\<close>
  show that it is \<open>Some\<close> for costs that are not negative.  Building the graph is a
  \<open>function\<close> whose termination is proved with the limit on the number of states: a node is expanded
  only while the graph is below the limit.  The loop of the scale out actuator ends at the maximum of pods.  No
  definition has fuel; the numbers of attempts (five on a conflict, three to connect) are those of the code and the
  libraries.

  \<^bold>\<open>Not modelled\<close>, and why: the generated clients and protocol buffers, which have no logic of the project; the export of the graph to a file (\<open>toDot\<close>) and the
  output for people; flags, log files and the construction of clients in \<^verbatim>\<open>cmd/main.go\<close> and
  in the commands, which only wire the parts together; mocks for tests; the analytics scripts, which are Python and
  are called as processes of their own (their command lines are modelled, in the \<open>Effect\<close> of each
  actuator).  Data races on the maps the workers read without a lock are not modelled: each read is one step.
\<close>

end
